(* ===== verification/Vk_Prelude.thy ===== *)
theory Vk_Prelude
  imports Main "HOL-Library.Word" "HOL-Library.Monad_Syntax"
begin

text \<open>
  Shared vocabulary of the development: the machine integers of the Rust sources, its checked
  and saturating \<open>usize\<close> arithmetic (on the 64-bit targets virtkit is built for), slices
  with their bounds checks, little-endian integers, and the generic list lemmas that the
  component theories use.
\<close>

unbundle bit_operations_syntax

section \<open>Machine integers\<close>

type_synonym u8 = "8 word"
type_synonym u16 = "16 word"
type_synonym u32 = "32 word"
type_synonym u64 = "64 word"
type_synonym bytes = "u8 list"

text \<open>A \<open>usize\<close> is a natural number up to \<open>usize_max\<close>.\<close>

definition usize_max :: nat where
  "usize_max = 18446744073709551615"

definition checked_add :: "nat \<Rightarrow> nat \<Rightarrow> nat option" where
  "checked_add a b = (if a + b \<le> usize_max then Some (a + b) else None)"

definition checked_sub :: "nat \<Rightarrow> nat \<Rightarrow> nat option" where
  "checked_sub a b = (if b \<le> a then Some (a - b) else None)"

definition checked_mul :: "nat \<Rightarrow> nat \<Rightarrow> nat option" where
  "checked_mul a b = (if a * b \<le> usize_max then Some (a * b) else None)"

definition saturating_add :: "nat \<Rightarrow> nat \<Rightarrow> nat" where
  "saturating_add a b = min (a + b) usize_max"

definition saturating_sub :: "nat \<Rightarrow> nat \<Rightarrow> nat" where
  "saturating_sub a b = a - b"

definition saturating_mul :: "nat \<Rightarrow> nat \<Rightarrow> nat" where
  "saturating_mul a b = min (a * b) usize_max"

text \<open>\<open>u16::try_from\<close> and \<open>u32::try_from\<close> of a \<open>usize\<close>.\<close>

definition u16_try_from :: "nat \<Rightarrow> u16 option" where
  "u16_try_from n = (if n < 65536 then Some (word_of_nat n) else None)"

definition u32_try_from :: "nat \<Rightarrow> u32 option" where
  "u32_try_from n = (if n < 4294967296 then Some (word_of_nat n) else None)"

named_theorems usize_simps \<open>definitions of the \<open>usize\<close> operations\<close>

lemmas usize_op_defs [usize_simps] =
  checked_add_def checked_sub_def checked_mul_def
  saturating_add_def saturating_sub_def saturating_mul_def

lemma checked_add_eq_Some [simp]:
  "checked_add a b = Some c \<longleftrightarrow> c = a + b \<and> a + b \<le> usize_max"
  by (auto simp: checked_add_def)

lemma checked_sub_eq_Some [simp]:
  "checked_sub a b = Some c \<longleftrightarrow> b \<le> a \<and> c = a - b"
  by (auto simp: checked_sub_def)

lemma checked_mul_eq_Some [simp]:
  "checked_mul a b = Some c \<longleftrightarrow> c = a * b \<and> a * b \<le> usize_max"
  by (auto simp: checked_mul_def)

lemma checked_eq_None [simp]:
  "checked_add a b = None \<longleftrightarrow> usize_max < a + b"
  "checked_sub a b = None \<longleftrightarrow> a < b"
  "checked_mul a b = None \<longleftrightarrow> usize_max < a * b"
  by (auto simp: checked_add_def checked_sub_def checked_mul_def)

lemma u16_try_from_eq_Some:
  "u16_try_from n = Some w \<longleftrightarrow> n < 65536 \<and> unat w = n"
proof
  assume "u16_try_from n = Some w"
  then show "n < 65536 \<and> unat w = n"
    by (auto simp: u16_try_from_def unat_of_nat split: if_splits)
next
  assume "n < 65536 \<and> unat w = n"
  then show "u16_try_from n = Some w"
    by (auto simp: u16_try_from_def)
qed

lemma u32_try_from_eq_Some:
  "u32_try_from n = Some w \<longleftrightarrow> n < 4294967296 \<and> unat w = n"
proof
  assume "u32_try_from n = Some w"
  then show "n < 4294967296 \<and> unat w = n"
    by (auto simp: u32_try_from_def unat_of_nat split: if_splits)
next
  assume "n < 4294967296 \<and> unat w = n"
  then show "u32_try_from n = Some w"
    by (auto simp: u32_try_from_def)
qed

lemma unat_u32_of_nat: "n < 4294967296 \<Longrightarrow> unat (word_of_nat n :: u32) = n"
  by (simp add: unat_of_nat)

lemma unat_u16_of_nat: "n < 65536 \<Longrightarrow> unat (word_of_nat n :: u16) = n"
  by (simp add: unat_of_nat)

lemma unat_lt_u8: "unat (w :: u8) < 256"
  using unsigned_less [where w = w] by simp

lemma unat_lt_u16: "unat (w :: u16) < 65536"
  using unsigned_less [where w = w] by simp

lemma unat_lt_u32: "unat (w :: u32) < 4294967296"
  using unsigned_less [where w = w] by simp

lemma unat_lt_u64: "unat (w :: u64) \<le> usize_max"
  using unsigned_less [of w, where ?'a = nat] by (simp add: usize_max_def)

section \<open>Slices\<close>

text \<open>\<open>xs.get(a..b)\<close>, \<open>xs.get(..n)\<close> and \<open>xs.get(a..)\<close>: \<open>None\<close> out of bounds.\<close>

definition slice_get :: "'a list \<Rightarrow> nat \<Rightarrow> nat \<Rightarrow> 'a list option" where
  "slice_get xs a b = (if a \<le> b \<and> b \<le> length xs then Some (take (b - a) (drop a xs)) else None)"

definition slice_to :: "'a list \<Rightarrow> nat \<Rightarrow> 'a list option" where
  "slice_to xs n = (if n \<le> length xs then Some (take n xs) else None)"

definition slice_from :: "'a list \<Rightarrow> nat \<Rightarrow> 'a list option" where
  "slice_from xs a = (if a \<le> length xs then Some (drop a xs) else None)"

text \<open>\<open>xs.get(i)\<close>, \<open>xs.split_first()\<close> and \<open>xs.split_last()\<close>.\<close>

definition nth_get :: "'a list \<Rightarrow> nat \<Rightarrow> 'a option" where
  "nth_get xs i = (if i < length xs then Some (xs ! i) else None)"

fun split_first :: "'a list \<Rightarrow> ('a \<times> 'a list) option" where
  "split_first [] = None"
| "split_first (x # xs) = Some (x, xs)"

definition split_last :: "'a list \<Rightarrow> ('a \<times> 'a list) option" where
  "split_last xs = (if xs = [] then None else Some (last xs, butlast xs))"

text \<open>\<open>iter().position(p)\<close>: the index of the first element satisfying \<open>p\<close>.\<close>

fun position :: "('a \<Rightarrow> bool) \<Rightarrow> 'a list \<Rightarrow> nat option" where
  "position p [] = None"
| "position p (x # xs) = (if p x then Some 0 else map_option Suc (position p xs))"

text \<open>\<open>Vec::remove(i)\<close>, for an index in range.\<close>

definition list_remove :: "nat \<Rightarrow> 'a list \<Rightarrow> 'a list" where
  "list_remove i xs = take i xs @ drop (Suc i) xs"

text \<open>\<open>buf[a..a + n].copy_from_slice(v)\<close>, in range.\<close>

definition splice :: "'a list \<Rightarrow> nat \<Rightarrow> 'a list \<Rightarrow> 'a list" where
  "splice xs a v = take a xs @ v @ drop (a + length v) xs"

text \<open>\<open>opt.ok_or(e)\<close>, and \<open>?\<close> on a \<open>Result\<close>.\<close>

definition ok_or :: "'e \<Rightarrow> 'a option \<Rightarrow> 'e + 'a" where
  "ok_or e x = (case x of None \<Rightarrow> Inl e | Some y \<Rightarrow> Inr y)"

definition sum_bind :: "'e + 'a \<Rightarrow> ('a \<Rightarrow> 'e + 'b) \<Rightarrow> 'e + 'b" where
  "sum_bind m f = (case m of Inl e \<Rightarrow> Inl e | Inr x \<Rightarrow> f x)"

lemma ok_or_eq_Inr [simp]: "ok_or e x = Inr y \<longleftrightarrow> x = Some y"
  by (cases x) (simp_all add: ok_or_def)

lemma ok_or_simps [simp]: "ok_or e None = Inl e" "ok_or e (Some y) = Inr y"
  by (simp_all add: ok_or_def)

lemma sum_bind_eq_Inr: "sum_bind m f = Inr y \<longleftrightarrow> (\<exists>x. m = Inr x \<and> f x = Inr y)"
  by (cases m) (simp_all add: sum_bind_def)

lemma sum_bind_simps [simp]: "sum_bind (Inl e) f = Inl e" "sum_bind (Inr x) f = f x"
  by (simp_all add: sum_bind_def)

lemma slice_get_eq_Some:
  "slice_get xs a b = Some ys \<longleftrightarrow> a \<le> b \<and> b \<le> length xs \<and> ys = take (b - a) (drop a xs)"
  by (auto simp: slice_get_def)

lemma slice_to_eq_Some: "slice_to xs n = Some ys \<longleftrightarrow> n \<le> length xs \<and> ys = take n xs"
  by (auto simp: slice_to_def)

lemma slice_from_eq_Some: "slice_from xs n = Some ys \<longleftrightarrow> n \<le> length xs \<and> ys = drop n xs"
  by (auto simp: slice_from_def)

lemma nth_get_eq_Some: "nth_get xs i = Some x \<longleftrightarrow> i < length xs \<and> x = xs ! i"
  by (auto simp: nth_get_def)

lemma position_eq_None: "position p xs = None \<longleftrightarrow> (\<forall>x \<in> set xs. \<not> p x)"
  by (induction xs) auto

lemma position_eq_Some:
  "position p xs = Some i \<longleftrightarrow> i < length xs \<and> p (xs ! i) \<and> (\<forall>j < i. \<not> p (xs ! j))"
proof (induction xs arbitrary: i)
  case Nil
  then show ?case by simp
next
  case (Cons x xs)
  show ?case
  proof (cases i)
    case 0
    then show ?thesis by auto
  next
    case (Suc k)
    have "(\<forall>j < Suc k. \<not> p ((x # xs) ! j)) \<longleftrightarrow> \<not> p x \<and> (\<forall>j < k. \<not> p (xs ! j))"
      by (auto simp: less_Suc_eq_0_disj)
    with Suc Cons.IH show ?thesis by auto
  qed
qed

lemma position_append:
  "position p (xs @ ys) =
     (case position p xs of
        Some i \<Rightarrow> Some i
      | None \<Rightarrow> map_option (\<lambda>i. length xs + i) (position p ys))"
  by (induction xs; cases "position p ys") (auto split: option.splits)

lemma set_list_remove_subset: "set (list_remove i xs) \<subseteq> set xs"
  by (auto simp: list_remove_def dest: in_set_takeD in_set_dropD)

lemma length_list_remove [simp]: "i < length xs \<Longrightarrow> length (list_remove i xs) = length xs - 1"
  by (simp add: list_remove_def)

lemma list_remove_Cons_0 [simp]: "list_remove 0 (x # xs) = xs"
  by (simp add: list_remove_def)

lemma list_remove_Cons_Suc [simp]: "list_remove (Suc i) (x # xs) = x # list_remove i xs"
  by (simp add: list_remove_def)

lemma length_splice: "a + length v \<le> length xs \<Longrightarrow> length (splice xs a v) = length xs"
  by (simp add: splice_def)

lemma option_eqI: "(\<And>x. a = Some x \<longleftrightarrow> b = Some x) \<Longrightarrow> a = b"
  by (cases a; cases b) auto

section \<open>Little-endian integers\<close>

fun nat_of_le :: "bytes \<Rightarrow> nat" where
  "nat_of_le [] = 0"
| "nat_of_le (b # bs) = unat b + 256 * nat_of_le bs"

fun le_of_nat :: "nat \<Rightarrow> nat \<Rightarrow> bytes" where
  "le_of_nat 0 n = []"
| "le_of_nat (Suc k) n = word_of_nat (n mod 256) # le_of_nat k (n div 256)"

text \<open>\<open>w.to_le_bytes()\<close> and \<open>from_le_bytes\<close>, at any width.\<close>

definition to_le_bytes :: "'a::len word \<Rightarrow> bytes" where
  "to_le_bytes w = le_of_nat (LENGTH('a) div 8) (unat w)"

definition from_le_bytes :: "bytes \<Rightarrow> 'a::len word" where
  "from_le_bytes bs = word_of_nat (nat_of_le bs)"

lemma length_le_of_nat [simp]: "length (le_of_nat k n) = k"
  by (induction k arbitrary: n) auto

lemma le_of_nat_numeral:
  "le_of_nat (numeral k) n = word_of_nat (n mod 256) # le_of_nat (pred_numeral k) (n div 256)"
  by (simp only: numeral_eq_Suc [of k] le_of_nat.simps)

lemma nat_of_le_append: "nat_of_le (xs @ ys) = nat_of_le xs + 256 ^ length xs * nat_of_le ys"
  by (induction xs) (simp_all add: algebra_simps)

lemma nat_of_le_of_nat: "nat_of_le (le_of_nat k n) = n mod 256 ^ k"
proof (induction k arbitrary: n)
  case 0
  then show ?case by simp
next
  case (Suc k)
  have "unat (word_of_nat (n mod 256) :: u8) = n mod 256"
    by (simp add: unat_of_nat)
  moreover have "n mod (256 * 256 ^ k) = n mod 256 + 256 * (n div 256 mod 256 ^ k)"
    by (simp add: mod_mult2_eq)
  ultimately show ?case by (simp add: Suc.IH)
qed

lemma nat_of_le_bound: "nat_of_le bs < 256 ^ length bs"
proof (induction bs)
  case Nil
  then show ?case by simp
next
  case (Cons b bs)
  then have "nat_of_le bs + 1 \<le> 256 ^ length bs" by simp
  then have "256 * nat_of_le bs + 256 \<le> 256 * 256 ^ length bs" by linarith
  with unat_lt_u8 [of b] show ?case by simp
qed

lemma le_of_nat_of_le: "le_of_nat (length bs) (nat_of_le bs) = bs"
proof (induction bs)
  case Nil
  then show ?case by simp
next
  case (Cons b bs)
  have "nat_of_le (b # bs) mod 256 = unat b" and "nat_of_le (b # bs) div 256 = nat_of_le bs"
    using unat_lt_u8 [of b] by simp_all
  then show ?case using Cons.IH by simp
qed

lemma length_to_le_bytes: "length (to_le_bytes (w :: 'a::len word)) = LENGTH('a) div 8"
  by (simp add: to_le_bytes_def)

lemma length_to_le_bytes_widths [simp]:
  "length (to_le_bytes (a :: u16)) = 2" "length (to_le_bytes (b :: u32)) = 4"
  "length (to_le_bytes (c :: u64)) = 8"
  by (simp_all add: length_to_le_bytes)

lemma from_to_le_bytes:
  assumes "8 dvd LENGTH('a::len)"
  shows "from_le_bytes (to_le_bytes w) = (w :: 'a word)"
proof -
  from assms have "(256::nat) ^ (LENGTH('a) div 8) = 2 ^ LENGTH('a)"
    using power_mult [of "2::nat" 8 "LENGTH('a) div 8"] by simp
  then have "nat_of_le (to_le_bytes w) = unat w"
    using unsigned_less [where w = w] by (simp add: to_le_bytes_def nat_of_le_of_nat)
  then show ?thesis by (simp add: from_le_bytes_def)
qed

lemma to_from_le_bytes:
  assumes "8 dvd LENGTH('a::len)" and "length bs = LENGTH('a) div 8"
  shows "to_le_bytes (from_le_bytes bs :: 'a word) = bs"
proof -
  from assms have "(256::nat) ^ length bs = 2 ^ LENGTH('a)"
    using power_mult [of "2::nat" 8 "LENGTH('a) div 8"] by simp
  then have "unat (from_le_bytes bs :: 'a word) = nat_of_le bs"
    using nat_of_le_bound [of bs] by (simp add: from_le_bytes_def unat_of_nat)
  then show ?thesis using le_of_nat_of_le [of bs] assms(2) by (simp add: to_le_bytes_def)
qed

lemma from_to_le_bytes_widths [simp]:
  "from_le_bytes (to_le_bytes a) = (a :: u16)"
  "from_le_bytes (to_le_bytes b) = (b :: u32)"
  "from_le_bytes (to_le_bytes c) = (c :: u64)"
  by (simp_all add: from_to_le_bytes)

end
