(* ===== verification/Uefi_Der.thy ===== *)
theory Uefi_Der
  imports Vk_Prelude
begin

text \<open>
  \<^verbatim>\<open>vk-uefi-vars/src/der.rs\<close>: the ASN.1 encodings PKCS#7 signatures and X.509 certificates
  arrive in, one tag-length-value at a time, definite lengths and BER's indefinite ones, low tag
  numbers only. The recursion of \<open>read_at\<close> through the elements of an indefinite length is
  nested (what follows a child is where the next one is read), so its termination rests on the
  fact that an element read is never empty.
\<close>

record tlv =
  t_tag :: u8
  t_value :: bytes
  t_raw :: bytes

definition DER_INTEGER :: u8 where "DER_INTEGER = 0x02"
definition DER_BIT_STRING :: u8 where "DER_BIT_STRING = 0x03"
definition DER_OCTET_STRING :: u8 where "DER_OCTET_STRING = 0x04"
definition DER_OID :: u8 where "DER_OID = 0x06"
definition DER_SEQUENCE :: u8 where "DER_SEQUENCE = 0x30"
definition DER_SET :: u8 where "DER_SET = 0x31"
definition DER_CTX0 :: u8 where "DER_CTX0 = 0xa0"
definition DER_CTX1 :: u8 where "DER_CTX1 = 0xa1"
definition DER_CTX3 :: u8 where "DER_CTX3 = 0xa3"
definition DER_CTX0_PRIMITIVE :: u8 where "DER_CTX0_PRIMITIVE = 0x80"

lemmas der_tags =
  DER_INTEGER_def DER_BIT_STRING_def DER_OCTET_STRING_def DER_OID_def DER_SEQUENCE_def
  DER_SET_def DER_CTX0_def DER_CTX1_def DER_CTX3_def DER_CTX0_PRIMITIVE_def

definition MAX_DEPTH :: nat where "MAX_DEPTH = 32"

text \<open>A long-form length: \<open>try_fold\<close> over its bytes, most significant first.\<close>

fun der_length :: "nat \<Rightarrow> bytes \<Rightarrow> nat option" where
  "der_length acc [] = Some acc"
| "der_length acc (b # bs) = do {
     m \<leftarrow> checked_mul acc 256; a \<leftarrow> checked_add m (unat b); der_length a bs }"

text \<open>The element after its tag, when the length is definite: \<open>rest\<close> starts at the first
  length byte's successor, \<open>header\<close> is what was read so far.\<close>

definition read_definite :: "bytes \<Rightarrow> u8 \<Rightarrow> u8 \<Rightarrow> nat \<Rightarrow> bytes \<Rightarrow> (tlv \<times> bytes) option" where
  "read_definite input tag first header rest = do {
     (len, header, rest) \<leftarrow>
       (if first < 0x80 then Some (unat first, header, rest)
        else let n = unat (first AND 0x7f) in
          if n = 0 \<or> n > 4 then None
          else do {
            b \<leftarrow> slice_to rest n;
            rest \<leftarrow> slice_from rest n;
            len \<leftarrow> der_length 0 b;
            h \<leftarrow> checked_add header n;
            Some (len, h, rest) });
     v \<leftarrow> slice_to rest len;
     total \<leftarrow> checked_add header len;
     raw \<leftarrow> slice_to input total;
     after \<leftarrow> slice_from rest len;
     Some (\<lparr>t_tag = tag, t_value = v, t_raw = raw\<rparr>, after) }"

text \<open>The end of an indefinite length: its contents are the \<open>len\<close> bytes after \<open>start\<close>.\<close>

definition end_indefinite ::
  "bytes \<Rightarrow> u8 \<Rightarrow> nat \<Rightarrow> bytes \<Rightarrow> nat \<Rightarrow> bytes \<Rightarrow> (tlv \<times> bytes) option"
where
  "end_indefinite input tag header start len rest = do {
     v \<leftarrow> slice_to start len;
     t \<leftarrow> checked_add header len;
     total \<leftarrow> checked_add t 2;
     raw \<leftarrow> slice_to input total;
     after \<leftarrow> slice_from rest 2;
     Some (\<lparr>t_tag = tag, t_value = v, t_raw = raw\<rparr>, after) }"

function (sequential)
  read_at :: "bytes \<Rightarrow> nat \<Rightarrow> (tlv \<times> bytes) option" and
  read_indefinite ::
    "bytes \<Rightarrow> u8 \<Rightarrow> nat \<Rightarrow> bytes \<Rightarrow> nat \<Rightarrow> nat \<Rightarrow> bytes \<Rightarrow> (tlv \<times> bytes) option"
where
  "read_at input depth =
     (if depth > MAX_DEPTH then None
      else case split_first input of
        None \<Rightarrow> None
      | Some (tag, rest) \<Rightarrow>
          if tag AND 0x1f = 0x1f then None
          else case split_first rest of
            None \<Rightarrow> None
          | Some (first, rest) \<Rightarrow>
              let header = length input - length rest in
              if first = 0x80
              then if tag AND 0x20 = 0 then None
                   else read_indefinite input tag header rest 0 depth rest
              else read_definite input tag first header rest)"
| "read_indefinite input tag header start len depth rest =
     (if slice_to rest 2 = Some [0, 0]
      then end_indefinite input tag header start len rest
      else case read_at rest (Suc depth) of
        None \<Rightarrow> None
      | Some (child, after) \<Rightarrow>
          (case checked_add len (length (t_raw child)) of
             None \<Rightarrow> None
           | Some len \<Rightarrow> read_indefinite input tag header start len depth after))"
  by pat_completeness auto

lemma split_first_eq_Some: "split_first xs = Some (y, ys) \<longleftrightarrow> xs = y # ys"
  by (cases xs) auto

lemma read_definite_length:
  "read_definite input tag first header rest = Some (t, after) \<Longrightarrow> length after \<le> length rest"
  by (auto simp: read_definite_def bind_eq_Some_conv slice_to_eq_Some slice_from_eq_Some Let_def
      split: if_splits)

lemma end_indefinite_length:
  "end_indefinite input tag header start len rest = Some (t, after) \<Longrightarrow> length after \<le> length rest"
  by (auto simp: end_indefinite_def bind_eq_Some_conv slice_from_eq_Some)

lemma read_at_pconsumes:
  "read_at_read_indefinite_dom (Inl (input, depth)) \<Longrightarrow>
     (\<forall>t after. read_at input depth = Some (t, after) \<longrightarrow> length after < length input)"
  "read_at_read_indefinite_dom (Inr (input, tag, header, start, len, depth, rest)) \<Longrightarrow>
     (\<forall>t after. read_indefinite input tag header start len depth rest = Some (t, after)
        \<longrightarrow> length after \<le> length rest)"
proof (induction input depth and input tag header start len depth rest
    rule: read_at_read_indefinite.pinduct)
  case (1 input depth)
  show ?case
  proof (intro allI impI)
    fix t after
    assume read: "read_at input depth = Some (t, after)"
    then obtain tag first rest where input: "input = tag # first # rest"
      by (simp only: read_at.psimps [OF "1.hyps"])
        (auto simp: split_first_eq_Some split: if_splits option.splits)
    have "length after \<le> length rest"
      using read "1.IH" [of "(tag, first # rest)" tag "first # rest" "(first, rest)" first rest 2]
      by (simp only: read_at.psimps [OF "1.hyps"])
        (auto simp: input Let_def split: if_splits dest: read_definite_length)
    then show "length after < length input" by (simp add: input)
  qed
next
  case (2 input tag header start len depth rest)
  show ?case
  proof (intro allI impI)
    fix t after
    assume "read_indefinite input tag header start len depth rest = Some (t, after)"
    then show "length after \<le> length rest"
      using "2.IH" by (simp only: read_indefinite.psimps [OF "2.hyps"])
        (fastforce split: if_splits option.splits prod.splits dest: end_indefinite_length)
  qed
qed

termination read_at
proof (relation "measure (\<lambda>x. case x of
    Inl (input, depth) \<Rightarrow> 2 * length input
  | Inr (input, tag, header, start, len, depth, rest) \<Rightarrow> 2 * length rest + 1)", goal_cases)
  case 1
  then show ?case by simp
next
  case (2 input depth)
  then show ?case by (auto simp: split_first_eq_Some)
next
  case (3 input tag header start len depth rest)
  then show ?case by simp
next
  case (4 input tag header start len depth rest)
  then show ?case using read_at_pconsumes(1) by fastforce
qed

declare read_at.simps [simp del] read_indefinite.simps [simp del]

definition der_read :: "bytes \<Rightarrow> (tlv \<times> bytes) option" where
  "der_read input = read_at input 0"

definition der_expect :: "bytes \<Rightarrow> u8 \<Rightarrow> (tlv \<times> bytes) option" where
  "der_expect input tag = do {
     (t, rest) \<leftarrow> der_read input;
     (if t_tag t = tag then Some (t, rest) else None) }"

lemma take_take_drop_drop: "take n xs @ take m (drop n xs) @ drop (m + n) xs = xs"
  by (metis append_take_drop_id drop_drop)

lemma read_definite_inv:
  assumes "read_definite (tag # first # rest) tag first 2 rest = Some (t, after)"
  shows "\<exists>octets. t_raw t = tag # first # octets @ t_value t \<and> tag # first # rest = t_raw t @ after
    \<and> t_tag t = tag"
proof -
  show ?thesis
  proof (cases "first < 0x80")
    case True
    then show ?thesis using assms
      by (auto simp: read_definite_def bind_eq_Some_conv slice_to_eq_Some slice_from_eq_Some
          intro!: exI [of _ "[]"])
  next
    case False
    then show ?thesis using assms
      by (auto simp: read_definite_def bind_eq_Some_conv slice_to_eq_Some slice_from_eq_Some
          Let_def take_add take_take_drop_drop split: if_splits
          intro!: exI [of _ "take (unat (first AND 0x7f)) rest"])
  qed
qed

lemma end_indefinite_inv:
  assumes "end_indefinite (h @ c @ rest) tag (length h) (c @ rest) (length c) rest = Some (t, after)"
    and "slice_to rest 2 = Some [0, 0]"
  shows "t_raw t = h @ t_value t @ [0, 0] \<and> h @ c @ rest = t_raw t @ after \<and> t_tag t = tag"
proof -
  obtain r where "rest = [0, 0] @ r"
    using assms(2) by (auto simp: slice_to_eq_Some) (metis append_take_drop_id append_Cons append_Nil)
  then show ?thesis using assms(1)
    by (auto simp: end_indefinite_def bind_eq_Some_conv slice_to_eq_Some slice_from_eq_Some)
qed

lemma read_at_inv:
  "read_at input depth = Some (t, after) \<Longrightarrow>
     (\<exists>first octets footer. t_raw t = t_tag t # first # octets @ t_value t @ footer)
       \<and> input = t_raw t @ after"
  "read_indefinite input tag header start len depth rest = Some (t, after) \<Longrightarrow>
     input = h @ c @ rest \<Longrightarrow> header = length h \<Longrightarrow> start = c @ rest \<Longrightarrow> len = length c \<Longrightarrow>
     t_raw t = h @ t_value t @ [0, 0] \<and> input = t_raw t @ after \<and> t_tag t = tag"
proof (induction input depth and input tag header start len depth rest arbitrary: t after and t after h c
    rule: read_at_read_indefinite.induct)
  case (1 input depth)
  from "1.prems" obtain tag first rest where input: "input = tag # first # rest"
    by (subst (asm) read_at.simps)
      (auto simp: split_first_eq_Some split: if_splits option.splits)
  show ?case
  proof (cases "first = 0x80")
    case True
    then have ind: "read_indefinite input tag 2 rest 0 depth rest = Some (t, after)"
      and c: "\<not> depth > MAX_DEPTH" "tag AND 0x1f \<noteq> 0x1f" "tag AND 0x20 \<noteq> 0"
      using "1.prems" by (auto simp: input read_at.simps [of "_ # _"] split: if_splits)
    have "t_raw t = [tag, 0x80] @ t_value t @ [0, 0] \<and> input = t_raw t @ after \<and> t_tag t = tag"
      using "1.IH" [of "(tag, first # rest)" tag "first # rest" "(first, rest)" first rest 2
          t after "[tag, 0x80]" "[]"] ind c True
      by (simp add: input numeral_2_eq_2)
    then show ?thesis by auto
  next
    case False
    then have "read_definite (tag # first # rest) tag first 2 rest = Some (t, after)"
      using "1.prems" by (auto simp: input read_at.simps [of "_ # _"] split: if_splits)
    from read_definite_inv [OF this] show ?thesis by (auto simp: input) (metis append_Nil2)
  qed
next
  case (2 input tag header start len depth rest)
  show ?case
  proof (cases "slice_to rest 2 = Some [0, 0]")
    case True
    then have "end_indefinite (h @ c @ rest) tag (length h) (c @ rest) (length c) rest = Some (t, after)"
      using "2.prems" by (simp add: read_indefinite.simps [of "_ @ _"])
    from end_indefinite_inv [OF this True] show ?thesis using "2.prems" by simp
  next
    case False
    then obtain child nxt len' where child: "read_at rest (Suc depth) = Some (child, nxt)"
      and len': "checked_add len (length (t_raw child)) = Some len'"
      and go: "read_indefinite input tag header start len' depth nxt = Some (t, after)"
      using "2.prems"(1) by (auto simp: read_indefinite.simps [of input] split: option.splits)
    have rest: "rest = t_raw child @ nxt"
      using "2.IH"(1) [OF False child] by simp
    show ?thesis
      using "2.IH"(2) [OF False child refl len' go, of h "c @ t_raw child"] "2.prems" len' rest by simp
  qed
qed

lemma der_read_inv:
  assumes "der_read input = Some (t, after)"
  shows "\<exists>first octets footer. t_raw t = t_tag t # first # octets @ t_value t @ footer"
    and "input = t_raw t @ after"
  using read_at_inv(1) [of input 0] assms by (auto simp: der_read_def)

lemma der_read_shorter: "der_read input = Some (t, after) \<Longrightarrow> length after < length input"
  using der_read_inv [of input t after] by auto

function der_children :: "bytes \<Rightarrow> tlv list option" where
  "der_children rest =
     (if rest = [] then Some []
      else case der_read rest of
        None \<Rightarrow> None
      | Some (t, after) \<Rightarrow> map_option (Cons t) (der_children after))"
  by pat_completeness auto
termination
  by (relation "measure length") (auto dest: der_read_shorter)

declare der_children.simps [simp del]

definition der_unsigned :: "bytes \<Rightarrow> bytes" where
  "der_unsigned v =
     (case split_first v of
        Some (b, rest) \<Rightarrow> if b = 0 \<and> rest \<noteq> [] then rest else v
      | None \<Rightarrow> v)"

section \<open>Object identifiers\<close>

definition OID_SIGNED_DATA :: bytes where
  "OID_SIGNED_DATA = [0x2a, 0x86, 0x48, 0x86, 0xf7, 0x0d, 0x01, 0x07, 0x02]"
definition OID_MESSAGE_DIGEST :: bytes where
  "OID_MESSAGE_DIGEST = [0x2a, 0x86, 0x48, 0x86, 0xf7, 0x0d, 0x01, 0x09, 0x04]"
definition OID_RSA_ENCRYPTION :: bytes where
  "OID_RSA_ENCRYPTION = [0x2a, 0x86, 0x48, 0x86, 0xf7, 0x0d, 0x01, 0x01, 0x01]"
definition OID_SHA1_WITH_RSA :: bytes where
  "OID_SHA1_WITH_RSA = [0x2a, 0x86, 0x48, 0x86, 0xf7, 0x0d, 0x01, 0x01, 0x05]"
definition OID_SHA256_WITH_RSA :: bytes where
  "OID_SHA256_WITH_RSA = [0x2a, 0x86, 0x48, 0x86, 0xf7, 0x0d, 0x01, 0x01, 0x0b]"
definition OID_SHA384_WITH_RSA :: bytes where
  "OID_SHA384_WITH_RSA = [0x2a, 0x86, 0x48, 0x86, 0xf7, 0x0d, 0x01, 0x01, 0x0c]"
definition OID_SHA512_WITH_RSA :: bytes where
  "OID_SHA512_WITH_RSA = [0x2a, 0x86, 0x48, 0x86, 0xf7, 0x0d, 0x01, 0x01, 0x0d]"
definition OID_SHA1 :: bytes where
  "OID_SHA1 = [0x2b, 0x0e, 0x03, 0x02, 0x1a]"
definition OID_SHA256 :: bytes where
  "OID_SHA256 = [0x60, 0x86, 0x48, 0x01, 0x65, 0x03, 0x04, 0x02, 0x01]"
definition OID_SHA384 :: bytes where
  "OID_SHA384 = [0x60, 0x86, 0x48, 0x01, 0x65, 0x03, 0x04, 0x02, 0x02]"
definition OID_SHA512 :: bytes where
  "OID_SHA512 = [0x60, 0x86, 0x48, 0x01, 0x65, 0x03, 0x04, 0x02, 0x03]"
definition OID_SUBJECT_KEY_IDENTIFIER :: bytes where
  "OID_SUBJECT_KEY_IDENTIFIER = [0x55, 0x1d, 0x0e]"

section \<open>The encodings the reader accepts\<close>

text \<open>A reference encoder: the distinguished encoding of one element, its length in the fewest
  octets. Contents of four gigabytes and more have no encoding the reader accepts.\<close>

definition der_length_octets :: "nat \<Rightarrow> bytes" where
  "der_length_octets len =
     (if len < 0x80 then [word_of_nat len]
      else let n = (if len < 2 ^ 8 then 1 else if len < 2 ^ 16 then 2 else if len < 2 ^ 24 then 3 else 4)
           in (0x80 + word_of_nat n) # rev (le_of_nat n len))"

definition der_encode :: "u8 \<Rightarrow> bytes \<Rightarrow> bytes" where
  "der_encode tag v = tag # der_length_octets (length v) @ v"

lemma der_length_eq:
  "acc * 256 ^ length bs + nat_of_le (rev bs) \<le> usize_max \<Longrightarrow>
     der_length acc bs = Some (acc * 256 ^ length bs + nat_of_le (rev bs))"
proof (induction bs arbitrary: acc)
  case (Cons b bs)
  have e: "acc * 256 ^ length (b # bs) + nat_of_le (rev (b # bs))
    = (acc * 256 + unat b) * 256 ^ length bs + nat_of_le (rev bs)"
    by (simp add: nat_of_le_append algebra_simps)
  have "acc * 256 + unat b \<le> (acc * 256 + unat b) * 256 ^ length bs" by simp
  then have "acc * 256 + unat b \<le> usize_max" using Cons.prems e by linarith
  moreover have "der_length (acc * 256 + unat b) bs
    = Some ((acc * 256 + unat b) * 256 ^ length bs + nat_of_le (rev bs))"
    using Cons e by metis
  ultimately show ?case
    unfolding e by (simp add: checked_mul_def checked_add_def)
qed simp

lemma der_length_octets_long:
  assumes "0x80 \<le> len" and "len < 2 ^ 32"
  shows "\<exists>n first. der_length_octets len = first # rev (le_of_nat n len) \<and> \<not> first < 0x80
    \<and> first \<noteq> 0x80 \<and> unat (first AND 0x7f) = n \<and> 0 < n \<and> n \<le> 4 \<and> len < 256 ^ n"
proof -
  consider "len < 2 ^ 8" | "2 ^ 8 \<le> len" "len < 2 ^ 16" | "2 ^ 16 \<le> len" "len < 2 ^ 24" | "2 ^ 24 \<le> len"
    by linarith
  then show ?thesis
    using assms by cases (auto simp: der_length_octets_def)
qed

lemma read_definite_encode:
  assumes "der_length_octets (length v) = first # octets" and "length v < 2 ^ 32"
  shows "read_definite (tag # first # octets @ v @ rest) tag first 2 (octets @ v @ rest)
    = Some (\<lparr>t_tag = tag, t_value = v, t_raw = tag # first # octets @ v\<rparr>, rest) \<and> first \<noteq> 0x80"
proof (cases "length v < 0x80")
  case True
  then have "first = word_of_nat (length v)" "octets = []" "unat first = length v"
    using assms(1) by (auto simp: der_length_octets_def unat_of_nat)
  moreover have "first < 0x80"
    using True \<open>unat first = length v\<close> by (simp add: word_less_nat_alt)
  ultimately show ?thesis
    using True by (auto simp: read_definite_def slice_to_def slice_from_def checked_add_def usize_max_def)
next
  case False
  then obtain n where n: "octets = rev (le_of_nat n (length v))" "\<not> first < 0x80" "first \<noteq> 0x80"
    "unat (first AND 0x7f) = n" "0 < n" "n \<le> 4" "length v < 256 ^ n"
    using der_length_octets_long [of "length v"] assms by auto
  have "der_length 0 octets = Some (length v)"
    using der_length_eq [of 0 octets] n assms(2) by (simp add: nat_of_le_of_nat usize_max_def)
  then show ?thesis
    using n assms(2)
    by (auto simp: read_definite_def slice_to_def slice_from_def checked_add_def usize_max_def)
qed

lemma read_at_encode:
  assumes "tag AND 0x1f \<noteq> 0x1f" and "length v < 2 ^ 32" and "depth \<le> MAX_DEPTH"
  shows "read_at (der_encode tag v @ rest) depth
    = Some (\<lparr>t_tag = tag, t_value = v, t_raw = der_encode tag v\<rparr>, rest)"
proof -
  obtain first octets where o: "der_length_octets (length v) = first # octets"
    by (cases "der_length_octets (length v)") (auto simp: der_length_octets_def Let_def split: if_splits)
  show ?thesis
    using read_definite_encode [OF o assms(2), of tag rest] assms(1,3)
    by (simp add: der_encode_def o read_at.simps)
qed

lemma der_read_encode [simp]:
  assumes "tag AND 0x1f \<noteq> 0x1f" and "length v < 2 ^ 32"
  shows "der_read (der_encode tag v @ rest)
    = Some (\<lparr>t_tag = tag, t_value = v, t_raw = der_encode tag v\<rparr>, rest)"
  using read_at_encode [OF assms, of 0] by (simp add: der_read_def)

lemma der_children_raw: "der_children value = Some ts \<Longrightarrow> concat (map t_raw ts) = value"
proof (induction "value" arbitrary: ts rule: der_children.induct)
  case (1 rest)
  show ?case
  proof (cases "rest = []")
    case False
    then obtain t after ts' where "der_read rest = Some (t, after)"
      "der_children after = Some ts'" "ts = t # ts'"
      using "1.prems" by (subst (asm) der_children.simps) (auto split: option.splits)
    then show ?thesis using "1.IH" [OF False, of "(t, after)" t after ts'] der_read_inv(2) by auto
  qed (use "1.prems" in \<open>simp add: der_children.simps\<close>)
qed

lemma der_children_encode:
  assumes "list_all (\<lambda>(tag, v). tag AND 0x1f \<noteq> 0x1f \<and> length v < 2 ^ 32) els"
  shows "der_children (concat (map (\<lambda>(tag, v). der_encode tag v) els))
    = Some (map (\<lambda>(tag, v). \<lparr>t_tag = tag, t_value = v, t_raw = der_encode tag v\<rparr>) els)"
  using assms
proof (induction els)
  case Nil
  then show ?case by (simp add: der_children.simps)
next
  case (Cons el els)
  obtain tag v where el: "el = (tag, v)" by force
  have "der_encode tag v \<noteq> []" by (simp add: der_encode_def)
  then show ?case using Cons el by (subst der_children.simps) simp
qed

end
