(* ===== verification/Uefi_Pkcs7.thy ===== *)
theory Uefi_Pkcs7
  imports Uefi_Der
begin

text \<open>
  \<^verbatim>\<open>vk-uefi-vars/src/pkcs7.rs\<close>: PKCS#7 signatures of authenticated variable writes. The hash
  functions, the big integers and RSA are crates of their own (\<open>sha1\<close>, \<open>sha2\<close>, \<open>crypto_bigint\<close>,
  \<open>rsa\<close>): they are the fields of \<open>crypto\<close>, a parameter of every definition that calls them, and
  nothing is assumed of them. What is shown is what holds for any of them: a chain accepted is a
  path of signed certificates, of bounded length, from the signer to the trusted certificate.
\<close>

datatype hash = Sha1 | Sha256 | Sha384 | Sha512

text \<open>\<open>BoxedUint::from_be_slice(bytes, bits)\<close>, \<open>BoxedUint::bits\<close>,
  \<open>RsaPublicKey::new_with_max_size(n, e, max)\<close>, \<open>RsaPublicKey::size\<close>, the PKCS#1 v1.5
  \<open>verify(key, digest, signature)\<close> of each hash, and each hash's \<open>digest\<close>.\<close>

record ('uint, 'key) crypto =
  c_digest :: "hash \<Rightarrow> bytes \<Rightarrow> bytes"
  c_from_be_slice :: "bytes \<Rightarrow> u32 \<Rightarrow> 'uint option"
  c_bits :: "'uint \<Rightarrow> u32"
  c_new_with_max_size :: "'uint \<Rightarrow> 'uint \<Rightarrow> nat \<Rightarrow> 'key option"
  c_size :: "'key \<Rightarrow> nat"
  c_verify :: "hash \<Rightarrow> 'key \<Rightarrow> bytes \<Rightarrow> bytes \<Rightarrow> bool"

definition MAX_CHAIN :: nat where "MAX_CHAIN = 8"
definition MIN_RSA_BITS :: u32 where "MIN_RSA_BITS = 1024"
definition MAX_RSA_BITS :: nat where "MAX_RSA_BITS = 16384"

definition from_digest_oid :: "bytes \<Rightarrow> hash option" where
  "from_digest_oid oid =
     (if oid = OID_SHA1 then Some Sha1
      else if oid = OID_SHA256 then Some Sha256
      else if oid = OID_SHA384 then Some Sha384
      else if oid = OID_SHA512 then Some Sha512
      else None)"

definition from_signature_oid :: "bytes \<Rightarrow> hash option" where
  "from_signature_oid oid =
     (if oid = OID_SHA1_WITH_RSA then Some Sha1
      else if oid = OID_SHA256_WITH_RSA then Some Sha256
      else if oid = OID_SHA384_WITH_RSA then Some Sha384
      else if oid = OID_SHA512_WITH_RSA then Some Sha512
      else None)"

definition hash_verify :: "('u, 'k) crypto \<Rightarrow> hash \<Rightarrow> 'k \<Rightarrow> bytes \<Rightarrow> bytes \<Rightarrow> bool" where
  "hash_verify c h key dig signature \<longleftrightarrow>
     length signature = c_size c key \<and> c_verify c h key dig signature"

section \<open>Certificates\<close>

record 'k certificate =
  x_raw :: bytes
  x_tbs :: bytes
  x_signature_hash :: "hash option"
  x_signature :: bytes
  x_serial :: bytes
  x_issuer :: bytes
  x_subject :: bytes
  x_key :: "'k option"
  x_subject_key_id :: "bytes option"

text \<open>An iterator over elements is the list of those left; \<open>next().filter(|t| t.tag == tag)?\<close>.\<close>

definition next_tag :: "tlv list \<Rightarrow> u8 \<Rightarrow> (tlv \<times> tlv list) option" where
  "next_tag it tag = do {
     (t, it) \<leftarrow> split_first it;
     (if t_tag t = tag then Some (t, it) else None) }"

definition bit_string :: "tlv \<Rightarrow> bytes option" where
  "bit_string t =
     (if t_tag t \<noteq> DER_BIT_STRING then None
      else case split_first (t_value t) of
        Some (b, bits) \<Rightarrow> if b = 0 then Some bits else None
      | None \<Rightarrow> None)"

definition algorithm_oid :: "bytes \<Rightarrow> bytes option" where
  "algorithm_oid v = map_option (\<lambda>(oid, _). t_value oid) (der_expect v DER_OID)"

definition rsa_key :: "('u, 'k) crypto \<Rightarrow> bytes \<Rightarrow> 'k option" where
  "rsa_key c spki = do {
     (alg, rest) \<leftarrow> der_expect spki DER_SEQUENCE;
     oid \<leftarrow> algorithm_oid (t_value alg);
     (if oid \<noteq> OID_RSA_ENCRYPTION then None else do {
        (bits, _) \<leftarrow> der_read rest;
        b \<leftarrow> bit_string bits;
        (key, _) \<leftarrow> der_expect b DER_SEQUENCE;
        (n, rest) \<leftarrow> der_expect (t_value key) DER_INTEGER;
        (e, _) \<leftarrow> der_expect rest DER_INTEGER;
        let n = der_unsigned (t_value n);
        let e = der_unsigned (t_value e);
        n8 \<leftarrow> checked_mul (length n) 8;
        n_bits \<leftarrow> u32_try_from n8;
        e8 \<leftarrow> checked_mul (length e) 8;
        e_bits \<leftarrow> u32_try_from e8;
        n \<leftarrow> c_from_be_slice c n n_bits;
        e \<leftarrow> c_from_be_slice c e e_bits;
        (if c_bits c n < MIN_RSA_BITS then None
         else c_new_with_max_size c n e MAX_RSA_BITS) }) }"

text \<open>The loop of \<open>extension_ski\<close>: the first subjectKeyIdentifier extension decides, and an
  extension that does not parse before it ends the search.\<close>

fun ski_of_extensions :: "tlv list \<Rightarrow> bytes option" where
  "ski_of_extensions [] = None"
| "ski_of_extensions (ext # exts) = do {
     parts \<leftarrow> der_children (t_value ext);
     (oid, _) \<leftarrow> next_tag parts DER_OID;
     (if t_value oid \<noteq> OID_SUBJECT_KEY_IDENTIFIER then ski_of_extensions exts
      else do {
        (octets, _) \<leftarrow> next_tag (rev parts) DER_OCTET_STRING;
        (ski, _) \<leftarrow> der_expect (t_value octets) DER_OCTET_STRING;
        Some (t_value ski) }) }"

definition extension_ski :: "bytes \<Rightarrow> bytes option" where
  "extension_ski v = do {
     (exts, _) \<leftarrow> der_expect v DER_SEQUENCE;
     es \<leftarrow> der_children (t_value exts);
     ski_of_extensions es }"

definition certificate_parse :: "('u, 'k) crypto \<Rightarrow> bytes \<Rightarrow> 'k certificate option" where
  "certificate_parse c raw = do {
     (cert, _) \<leftarrow> der_expect raw DER_SEQUENCE;
     parts \<leftarrow> der_children (t_value cert);
     (tbs, alg, sig) \<leftarrow> (case parts of [tbs, alg, sig] \<Rightarrow> Some (tbs, alg, sig) | _ \<Rightarrow> None);
     let signature_hash = Option.bind (algorithm_oid (t_value alg)) from_signature_oid;
     signature \<leftarrow> bit_string sig;
     fields \<leftarrow> der_children (t_value tbs);
     let fields = (case fields of t # ts \<Rightarrow> if t_tag t = DER_CTX0 then ts else fields | [] \<Rightarrow> fields);
     (serial, fields) \<leftarrow> next_tag fields DER_INTEGER;
     (_, fields) \<leftarrow> split_first fields;
     (issuer, fields) \<leftarrow> next_tag fields DER_SEQUENCE;
     (_, fields) \<leftarrow> split_first fields;
     (subject, fields) \<leftarrow> next_tag fields DER_SEQUENCE;
     (spki, fields) \<leftarrow> next_tag fields DER_SEQUENCE;
     let ski = foldl (\<lambda>ski field.
       if t_tag field = DER_CTX3 then extension_ski (t_value field) else ski) None fields;
     Some \<lparr>x_raw = t_raw cert, x_tbs = t_raw tbs, x_signature_hash = signature_hash,
       x_signature = signature, x_serial = der_unsigned (t_value serial),
       x_issuer = t_raw issuer, x_subject = t_raw subject,
       x_key = rsa_key c (t_value spki), x_subject_key_id = ski\<rparr> }"

definition signed_by :: "('u, 'k) crypto \<Rightarrow> 'k certificate \<Rightarrow> 'k certificate \<Rightarrow> bool" where
  "signed_by c cert issuer =
     (case (x_signature_hash cert, x_key issuer) of
        (Some h, Some key) \<Rightarrow> hash_verify c h key (c_digest c h (x_tbs cert)) (x_signature cert)
      | _ \<Rightarrow> False)"

definition tbs_sha256 :: "('u, 'k) crypto \<Rightarrow> 'k certificate \<Rightarrow> bytes" where
  "tbs_sha256 c cert = c_digest c Sha256 (x_tbs cert)"

section \<open>Signatures\<close>

datatype signer_id = IssuerSerial (si_issuer: bytes) (si_serial: bytes) | KeyId bytes

record signer_info =
  s_id :: signer_id
  s_digest :: hash
  s_signed_attrs :: "tlv option"
  s_signature :: bytes

record 'k signed_data =
  sd_certificates :: "'k certificate list"
  sd_signers :: "signer_info list"

definition signer_info_parse :: "bytes \<Rightarrow> signer_info option" where
  "signer_info_parse v = do {
     it \<leftarrow> der_children v;
     (_, it) \<leftarrow> next_tag it DER_INTEGER;
     (sid, it) \<leftarrow> split_first it;
     id \<leftarrow> (if t_tag sid = DER_SEQUENCE then do {
               (issuer, rest) \<leftarrow> der_expect (t_value sid) DER_SEQUENCE;
               (serial, _) \<leftarrow> der_expect rest DER_INTEGER;
               Some (IssuerSerial (t_raw issuer) (der_unsigned (t_value serial))) }
             else if t_tag sid = DER_CTX0_PRIMITIVE then Some (KeyId (t_value sid))
             else None);
     (digest_alg, it) \<leftarrow> next_tag it DER_SEQUENCE;
     oid \<leftarrow> algorithm_oid (t_value digest_alg);
     dig \<leftarrow> from_digest_oid oid;
     (nxt, it) \<leftarrow> split_first it;
     (attrs, nxt, it) \<leftarrow> (if t_tag nxt = DER_CTX0 then do {
               (nxt', it) \<leftarrow> split_first it;
               Some (Some nxt, nxt', it) }
             else Some (None, nxt, it));
     (if t_tag nxt \<noteq> DER_SEQUENCE then None else do {
        (sig, it) \<leftarrow> next_tag it DER_OCTET_STRING;
        Some \<lparr>s_id = id, s_digest = dig, s_signed_attrs = attrs, s_signature = t_value sig\<rparr> }) }"

text \<open>The optional parts of a SignedData: certificates that do not parse are left out, the last
  SET holds the signers.\<close>

fun signed_data_parts ::
  "('u, 'k) crypto \<Rightarrow> tlv list \<Rightarrow> 'k certificate list \<Rightarrow> tlv option
     \<Rightarrow> ('k certificate list \<times> tlv option) option"
where
  "signed_data_parts c [] certs infos = Some (certs, infos)"
| "signed_data_parts c (part # parts) certs infos =
     (if t_tag part = DER_CTX0 then do {
        cs \<leftarrow> der_children (t_value part);
        signed_data_parts c parts
          (certs @ List.map_filter (\<lambda>t. certificate_parse c (t_raw t)) cs) infos }
      else if t_tag part = DER_CTX1 then signed_data_parts c parts certs infos
      else if t_tag part = DER_SET then signed_data_parts c parts certs (Some part)
      else None)"

text \<open>What \<open>parse\<close> walks: the outer SEQUENCE's elements, or those of the SignedData a ContentInfo
  holds.\<close>

definition signed_data_elements :: "bytes \<Rightarrow> tlv list option" where
  "signed_data_elements bytes = do {
     (outer, _) \<leftarrow> der_expect bytes DER_SEQUENCE;
     parts \<leftarrow> der_children (t_value outer);
     (case parts of
        t # ts \<Rightarrow>
          if t_tag t = DER_OID then
            if t_value t \<noteq> OID_SIGNED_DATA then None
            else do {
              (content, _) \<leftarrow> next_tag ts DER_CTX0;
              (inner, _) \<leftarrow> der_expect (t_value content) DER_SEQUENCE;
              der_children (t_value inner) }
          else Some parts
      | [] \<Rightarrow> Some parts) }"

definition signed_data_parse :: "('u, 'k) crypto \<Rightarrow> bytes \<Rightarrow> 'k signed_data option" where
  "signed_data_parse c bytes = do {
     it \<leftarrow> signed_data_elements bytes;
     (_, it) \<leftarrow> next_tag it DER_INTEGER;
     (_, it) \<leftarrow> next_tag it DER_SET;
     (_, it) \<leftarrow> next_tag it DER_SEQUENCE;
     (certificates, infos) \<leftarrow> signed_data_parts c it [] None;
     infos \<leftarrow> infos;
     is \<leftarrow> der_children (t_value infos);
     signers \<leftarrow> those (map (\<lambda>i. signer_info_parse (t_value i)) is);
     (if signers = [] then None
      else Some \<lparr>sd_certificates = certificates, sd_signers = signers\<rparr>) }"

definition signer_certificate :: "'k signed_data \<Rightarrow> signer_info \<Rightarrow> 'k certificate option" where
  "signer_certificate sd signer =
     find (\<lambda>x. case s_id signer of
        IssuerSerial issuer serial \<Rightarrow> x_issuer x = issuer \<and> x_serial x = serial
      | KeyId kid \<Rightarrow> x_subject_key_id x = Some kid) (sd_certificates sd)"

text \<open>The messageDigest signed attribute.\<close>

fun message_digest_of :: "tlv list \<Rightarrow> bytes option" where
  "message_digest_of [] = None"
| "message_digest_of (attr # attrs) = do {
     (oid, rest) \<leftarrow> der_expect (t_value attr) DER_OID;
     (if t_value oid \<noteq> OID_MESSAGE_DIGEST then message_digest_of attrs
      else do {
        (vals, _) \<leftarrow> der_expect rest DER_SET;
        (dig, _) \<leftarrow> der_expect (t_value vals) DER_OCTET_STRING;
        Some (t_value dig) }) }"

definition message_digest :: "bytes \<Rightarrow> bytes option" where
  "message_digest attrs = Option.bind (der_children attrs) message_digest_of"

definition signer_signed ::
  "('u, 'k) crypto \<Rightarrow> signer_info \<Rightarrow> 'k certificate \<Rightarrow> bytes \<Rightarrow> bool"
where
  "signer_signed c signer cert content =
     (case x_key cert of
        None \<Rightarrow> False
      | Some key \<Rightarrow>
          let content_digest = c_digest c (s_digest signer) content in
          (case s_signed_attrs signer of
             None \<Rightarrow> hash_verify c (s_digest signer) key content_digest (s_signature signer)
           | Some attrs \<Rightarrow>
               if message_digest (t_value attrs) \<noteq> Some content_digest then False
               else let set = (case t_raw attrs of _ # bs \<Rightarrow> DER_SET # bs | [] \<Rightarrow> []) in
                 hash_verify c (s_digest signer) key (c_digest c (s_digest signer) set)
                   (s_signature signer)))"

text \<open>The issuer of a certificate among those of the signature.\<close>

definition find_issuer ::
  "('u, 'k) crypto \<Rightarrow> 'k signed_data \<Rightarrow> 'k certificate \<Rightarrow> 'k certificate option"
where
  "find_issuer c sd cert =
     find (\<lambda>x. x_subject x = x_issuer cert \<and> x_raw x \<noteq> x_raw cert \<and> signed_by c cert x)
       (sd_certificates sd)"

fun chains_loop ::
  "('u, 'k) crypto \<Rightarrow> 'k signed_data \<Rightarrow> 'k certificate \<Rightarrow> nat \<Rightarrow> 'k certificate \<Rightarrow> bool"
where
  "chains_loop c sd trusted 0 current = False"
| "chains_loop c sd trusted (Suc n) current =
     (if x_raw current = x_raw trusted then True
      else if x_issuer current = x_subject trusted \<and> signed_by c current trusted then True
      else case find_issuer c sd current of
        Some issuer \<Rightarrow> chains_loop c sd trusted n issuer
      | None \<Rightarrow> False)"

definition chains ::
  "('u, 'k) crypto \<Rightarrow> 'k signed_data \<Rightarrow> 'k certificate \<Rightarrow> 'k certificate \<Rightarrow> bool"
where
  "chains c sd cert trusted = chains_loop c sd trusted MAX_CHAIN cert"

fun top_level_loop ::
  "('u, 'k) crypto \<Rightarrow> 'k signed_data \<Rightarrow> nat \<Rightarrow> 'k certificate \<Rightarrow> 'k certificate"
where
  "top_level_loop c sd 0 cert = cert"
| "top_level_loop c sd (Suc n) cert =
     (case find_issuer c sd cert of
        Some issuer \<Rightarrow> top_level_loop c sd n issuer
      | None \<Rightarrow> cert)"

definition sd_signer :: "'k signed_data \<Rightarrow> 'k certificate option" where
  "sd_signer sd = do {
     (signer, _) \<leftarrow> split_first (sd_signers sd);
     signer_certificate sd signer }"

definition sd_top_level :: "('u, 'k) crypto \<Rightarrow> 'k signed_data \<Rightarrow> 'k certificate option" where
  "sd_top_level c sd = do {
     (signer, _) \<leftarrow> split_first (sd_signers sd);
     cert \<leftarrow> signer_certificate sd signer;
     Some (top_level_loop c sd MAX_CHAIN cert) }"

definition sd_verify ::
  "('u, 'k) crypto \<Rightarrow> 'k signed_data \<Rightarrow> bytes \<Rightarrow> 'k certificate \<Rightarrow> bool"
where
  "sd_verify c sd content trusted =
     list_all (\<lambda>signer. case signer_certificate sd signer of
         None \<Rightarrow> False
       | Some cert \<Rightarrow> signer_signed c signer cert content \<and> chains c sd cert trusted)
       (sd_signers sd)"

section \<open>What an accepted chain is\<close>

text \<open>The abstract contract: a path of certificates of the signature, each issued and signed by
  the next, from the signer to the trusted certificate itself or to one it signed.\<close>

inductive chain_path ::
  "('u, 'k) crypto \<Rightarrow> 'k certificate list \<Rightarrow> 'k certificate \<Rightarrow> nat \<Rightarrow> 'k certificate \<Rightarrow> bool"
  for c certs trusted
where
  is_trusted: "x_raw cert = x_raw trusted \<Longrightarrow> chain_path c certs trusted 0 cert"
| by_trusted: "x_issuer cert = x_subject trusted \<Longrightarrow> signed_by c cert trusted
    \<Longrightarrow> chain_path c certs trusted 1 cert"
| via: "issuer \<in> set certs \<Longrightarrow> x_subject issuer = x_issuer cert \<Longrightarrow> signed_by c cert issuer
    \<Longrightarrow> chain_path c certs trusted n issuer \<Longrightarrow> chain_path c certs trusted (Suc n) cert"

inductive_cases chain_path_0E: "chain_path c certs trusted 0 cert"

lemma find_issuer_Some:
  "find_issuer c sd cert = Some x \<Longrightarrow> x \<in> set (sd_certificates sd)
     \<and> x_subject x = x_issuer cert \<and> x_raw x \<noteq> x_raw cert \<and> signed_by c cert x"
  by (auto simp: find_issuer_def find_Some_iff)

lemma chains_loop_path:
  "chains_loop c sd trusted n cert \<Longrightarrow>
     \<exists>k \<le> n. chain_path c (sd_certificates sd) trusted k cert"
proof (induction n arbitrary: cert)
  case (Suc n)
  then consider "x_raw cert = x_raw trusted"
    | "x_issuer cert = x_subject trusted" "signed_by c cert trusted"
    | x where "find_issuer c sd cert = Some x" "chains_loop c sd trusted n x"
    by (auto split: if_splits option.splits)
  then show ?case
  proof cases
    case 1
    then show ?thesis using is_trusted by blast
  next
    case 2
    then show ?thesis using by_trusted [of cert trusted c] by (intro exI [of _ 1]) auto
  next
    case 3
    then obtain k where "k \<le> n" "chain_path c (sd_certificates sd) trusted k x"
      using Suc.IH by blast
    then have "chain_path c (sd_certificates sd) trusted (Suc k) cert"
      using find_issuer_Some [OF 3(1)] via by metis
    then show ?thesis using \<open>k \<le> n\<close> by (intro exI [of _ "Suc k"]) auto
  qed
qed simp

lemma chains_path:
  "chains c sd cert trusted \<Longrightarrow>
     \<exists>k \<le> MAX_CHAIN. chain_path c (sd_certificates sd) trusted k cert"
  unfolding chains_def by (rule chains_loop_path)

text \<open>The top of a chain is always chained to: the two walks are the same walk.\<close>

lemma chains_loop_top:
  "0 < n \<Longrightarrow> chains_loop c sd (top_level_loop c sd n cert) n cert"
proof (induction n arbitrary: cert)
  case (Suc n)
  show ?case
  proof (cases "find_issuer c sd cert")
    case None
    then show ?thesis by simp
  next
    case (Some x)
    note x = find_issuer_Some [OF this]
    show ?thesis
    proof (cases n)
      case 0
      then show ?thesis using Some x by simp
    next
      case (Suc m)
      then show ?thesis using Some Suc.IH [of x] by simp
    qed
  qed
qed simp

lemma chains_top_level:
  "chains c sd cert (top_level_loop c sd MAX_CHAIN cert)"
  unfolding chains_def by (rule chains_loop_top) (simp add: MAX_CHAIN_def)

lemma sd_verify_iff:
  "sd_verify c sd content trusted \<longleftrightarrow>
     (\<forall>signer \<in> set (sd_signers sd). \<exists>cert. signer_certificate sd signer = Some cert
        \<and> signer_signed c signer cert content \<and> chains c sd cert trusted)"
  by (auto simp: sd_verify_def list_all_iff split: option.splits)

lemma signed_data_parse_signers:
  "signed_data_parse c bytes = Some sd \<Longrightarrow> sd_signers sd \<noteq> []"
  by (auto simp: signed_data_parse_def bind_eq_Some_conv split: if_splits)

end
