(* ===== verification/Uefi_Guid.thy ===== *)
theory Uefi_Guid
  imports Vk_Prelude
begin

text \<open>
  \<^verbatim>\<open>vk-uefi-vars/src/guid.rs\<close>: EFI GUIDs in their in-memory byte order, and the ones the
  variable service names. A \<open>Guid\<close> of the source is an array of 16 bytes; here its bytes are a
  list, and \<open>guid_ok\<close> says that it has 16 of them, which every reader and every constant
  guarantees.
\<close>

datatype guid = Guid (guid_bytes: bytes)

definition guid_ok :: "guid \<Rightarrow> bool" where
  "guid_ok g \<longleftrightarrow> length (guid_bytes g) = 16"

text \<open>\<open>Guid::new\<close>: the first three fields little-endian, then eight bytes.\<close>

definition guid_new :: "u32 \<Rightarrow> u16 \<Rightarrow> u16 \<Rightarrow> bytes \<Rightarrow> guid" where
  "guid_new a b c d = Guid (to_le_bytes a @ to_le_bytes b @ to_le_bytes c @ d)"

definition GLOBAL_VARIABLE :: guid where
  "GLOBAL_VARIABLE = guid_new 0x8be4df61 0x93ca 0x11d2
     [0xaa, 0x0d, 0x00, 0xe0, 0x98, 0x03, 0x2b, 0x8c]"

definition IMAGE_SECURITY_DATABASE :: guid where
  "IMAGE_SECURITY_DATABASE = guid_new 0xd719b2cb 0x3d3a 0x4596
     [0xa3, 0xbc, 0xda, 0xd0, 0x0e, 0x67, 0x65, 0x6f]"

definition SMM_VARIABLE_PROTOCOL :: guid where
  "SMM_VARIABLE_PROTOCOL = guid_new 0xed32d533 0x99e6 0x4209
     [0x9c, 0xc0, 0x2d, 0x72, 0xcd, 0xd9, 0x98, 0xa7]"

definition VAR_CHECK_POLICY_MMI :: guid where
  "VAR_CHECK_POLICY_MMI = guid_new 0xda1b0d11 0xd1a7 0x46c4
     [0x9d, 0xc9, 0xf3, 0x71, 0x48, 0x75, 0xc6, 0xeb]"

definition CERT_PKCS7 :: guid where
  "CERT_PKCS7 = guid_new 0x4aafd29d 0x68df 0x49ee
     [0x8a, 0xa9, 0x34, 0x7d, 0x37, 0x56, 0x65, 0xa7]"

definition CERT_X509 :: guid where
  "CERT_X509 = guid_new 0xa5c059a1 0x94e4 0x4aa7
     [0x87, 0xb5, 0xab, 0x15, 0x5c, 0x2b, 0xf0, 0x72]"

definition CERT_SHA1 :: guid where
  "CERT_SHA1 = guid_new 0x826ca512 0xcf10 0x4ac9
     [0xb1, 0x87, 0xbe, 0x01, 0x49, 0x66, 0x31, 0xbd]"

definition CERT_SHA256 :: guid where
  "CERT_SHA256 = guid_new 0xc1c41626 0x504c 0x4092
     [0xac, 0xa9, 0x41, 0xf9, 0x36, 0x93, 0x43, 0x28]"

definition CERT_SHA384 :: guid where
  "CERT_SHA384 = guid_new 0xff3e5307 0x9fd0 0x48c9
     [0x85, 0xf1, 0x8a, 0xd5, 0x6c, 0x70, 0x1e, 0x01]"

definition CERT_SHA512 :: guid where
  "CERT_SHA512 = guid_new 0x093e0fae 0xa6c4 0x4f50
     [0x9f, 0x1b, 0xd4, 0x1e, 0x2b, 0x89, 0xc1, 0x9a]"

definition CERT_RSA2048 :: guid where
  "CERT_RSA2048 = guid_new 0x3c5766e8 0x269c 0x4e34
     [0xaa, 0x14, 0xed, 0x77, 0x6e, 0x85, 0xb3, 0xb6]"

definition CERT_X509_SHA256 :: guid where
  "CERT_X509_SHA256 = guid_new 0x3bd2a492 0x96c0 0x4079
     [0xb4, 0x20, 0xfc, 0xf9, 0x8e, 0xf1, 0x03, 0xed]"

definition CERT_X509_SHA384 :: guid where
  "CERT_X509_SHA384 = guid_new 0x7076876e 0x80c2 0x4ee6
     [0xaa, 0xd2, 0x28, 0xb3, 0x49, 0xa6, 0x86, 0x5b]"

definition CERT_X509_SHA512 :: guid where
  "CERT_X509_SHA512 = guid_new 0x446dbf63 0x2502 0x4cda
     [0xbc, 0xfa, 0x24, 0x65, 0xd2, 0xb0, 0xfe, 0x9d]"

definition CERT_DB :: guid where
  "CERT_DB = guid_new 0xd9bee56e 0x75dc 0x49d9
     [0xb4, 0xd7, 0xb5, 0x34, 0x21, 0x0f, 0x63, 0x7a]"

definition SECURE_BOOT_ENABLE_DISABLE :: guid where
  "SECURE_BOOT_ENABLE_DISABLE = guid_new 0xf0a30bc7 0xaf08 0x4556
     [0x99, 0xc4, 0x00, 0x10, 0x09, 0xc9, 0x3a, 0x44]"

definition MEMORY_OVERWRITE_REQUEST_CONTROL_LOCK :: guid where
  "MEMORY_OVERWRITE_REQUEST_CONTROL_LOCK = guid_new 0xbb983ccf 0x151d 0x40e1
     [0xa0, 0x7b, 0x4a, 0x17, 0xbe, 0x16, 0x82, 0x92]"

definition VENDOR_KEYS_NV :: guid where
  "VENDOR_KEYS_NV = guid_new 0x9073e4e0 0x60ec 0x4b6e
     [0x99, 0x03, 0x4c, 0x22, 0x3c, 0x26, 0x0f, 0x3c]"

definition AUTHENTICATED_VARIABLE :: guid where
  "AUTHENTICATED_VARIABLE = guid_new 0xaaf32c78 0x947b 0x439a
     [0xa1, 0x80, 0x2e, 0x14, 0x4e, 0xc3, 0x77, 0x92]"

definition SYSTEM_NV_DATA_FV :: guid where
  "SYSTEM_NV_DATA_FV = guid_new 0xfff12b8d 0x7696 0x4c8b
     [0xa9, 0x85, 0x27, 0x47, 0x07, 0x5b, 0x4f, 0x50]"

lemmas guid_consts =
  GLOBAL_VARIABLE_def IMAGE_SECURITY_DATABASE_def SMM_VARIABLE_PROTOCOL_def
  VAR_CHECK_POLICY_MMI_def CERT_PKCS7_def CERT_X509_def CERT_SHA1_def CERT_SHA256_def
  CERT_SHA384_def CERT_SHA512_def CERT_RSA2048_def CERT_X509_SHA256_def CERT_X509_SHA384_def
  CERT_X509_SHA512_def CERT_DB_def SECURE_BOOT_ENABLE_DISABLE_def
  MEMORY_OVERWRITE_REQUEST_CONTROL_LOCK_def VENDOR_KEYS_NV_def AUTHENTICATED_VARIABLE_def
  SYSTEM_NV_DATA_FV_def

lemma guid_new_ok: "length d = 8 \<Longrightarrow> guid_ok (guid_new a b c d)"
  by (simp add: guid_ok_def guid_new_def)

lemma guid_consts_ok [simp]:
  "guid_ok GLOBAL_VARIABLE" "guid_ok IMAGE_SECURITY_DATABASE" "guid_ok CERT_X509"
  "guid_ok CERT_DB" "guid_ok VENDOR_KEYS_NV" "guid_ok SECURE_BOOT_ENABLE_DISABLE"
  "guid_ok SYSTEM_NV_DATA_FV" "guid_ok AUTHENTICATED_VARIABLE" "guid_ok CERT_PKCS7"
  by (simp_all add: guid_consts guid_new_ok)

text \<open>The namespaces the service tells apart are different GUIDs.\<close>

lemma guid_new_eq:
  "length d = length d' \<Longrightarrow>
   guid_new a b c d = guid_new a' b' c' d' \<longleftrightarrow> a = a' \<and> b = b' \<and> c = c' \<and> d = d'"
proof -
  assume len: "length d = length d'"
  have le_inj: "to_le_bytes x = to_le_bytes y \<longleftrightarrow> x = y" for x y :: u32
    using from_to_le_bytes_widths(2) by metis
  have le_inj16: "to_le_bytes x = to_le_bytes y \<longleftrightarrow> x = y" for x y :: u16
    using from_to_le_bytes_widths(1) by metis
  show ?thesis using len by (auto simp: guid_new_def le_inj le_inj16)
qed

lemma namespaces_distinct [simp]:
  "GLOBAL_VARIABLE \<noteq> IMAGE_SECURITY_DATABASE" "IMAGE_SECURITY_DATABASE \<noteq> GLOBAL_VARIABLE"
  "GLOBAL_VARIABLE \<noteq> CERT_DB" "CERT_DB \<noteq> GLOBAL_VARIABLE"
  "GLOBAL_VARIABLE \<noteq> VENDOR_KEYS_NV" "VENDOR_KEYS_NV \<noteq> GLOBAL_VARIABLE"
  "GLOBAL_VARIABLE \<noteq> SECURE_BOOT_ENABLE_DISABLE" "SECURE_BOOT_ENABLE_DISABLE \<noteq> GLOBAL_VARIABLE"
  "IMAGE_SECURITY_DATABASE \<noteq> CERT_DB" "CERT_DB \<noteq> IMAGE_SECURITY_DATABASE"
  "IMAGE_SECURITY_DATABASE \<noteq> VENDOR_KEYS_NV" "VENDOR_KEYS_NV \<noteq> IMAGE_SECURITY_DATABASE"
  "SECURE_BOOT_ENABLE_DISABLE \<noteq> CERT_DB" "CERT_DB \<noteq> SECURE_BOOT_ENABLE_DISABLE"
  "SECURE_BOOT_ENABLE_DISABLE \<noteq> VENDOR_KEYS_NV" "VENDOR_KEYS_NV \<noteq> SECURE_BOOT_ENABLE_DISABLE"
  "CERT_DB \<noteq> VENDOR_KEYS_NV" "VENDOR_KEYS_NV \<noteq> CERT_DB"
  "CERT_X509 \<noteq> CERT_RSA2048" "CERT_RSA2048 \<noteq> CERT_X509"
  "IMAGE_SECURITY_DATABASE \<noteq> SECURE_BOOT_ENABLE_DISABLE"
  "SECURE_BOOT_ENABLE_DISABLE \<noteq> IMAGE_SECURITY_DATABASE"
  "SMM_VARIABLE_PROTOCOL \<noteq> VAR_CHECK_POLICY_MMI" "VAR_CHECK_POLICY_MMI \<noteq> SMM_VARIABLE_PROTOCOL"
  by (simp_all add: guid_consts guid_new_eq)

end
