(* ===== verification/Uefi_Codec.thy ===== *)
theory Uefi_Codec
  imports Uefi_Guid
begin

text \<open>
  \<^verbatim>\<open>vk-uefi-vars/src/codec.rs\<close>: little-endian fields of guest buffers, read and written within
  bounds. A \<open>Reader\<close> is its unread bytes; reading a field returns the field and the reader
  after it, \<open>None\<close> for the source's \<open>Err(Short)\<close>.
\<close>

type_synonym reader = bytes

definition reader_take :: "nat \<Rightarrow> reader \<Rightarrow> (bytes \<times> reader) option" where
  "reader_take n r = (if n > length r then None else Some (take n r, drop n r))"

definition reader_u8 :: "reader \<Rightarrow> (u8 \<times> reader) option" where
  "reader_u8 r = do { (b, r) \<leftarrow> reader_take 1 r; Some (from_le_bytes b, r) }"

definition reader_u16 :: "reader \<Rightarrow> (u16 \<times> reader) option" where
  "reader_u16 r = do { (b, r) \<leftarrow> reader_take 2 r; Some (from_le_bytes b, r) }"

definition reader_u32 :: "reader \<Rightarrow> (u32 \<times> reader) option" where
  "reader_u32 r = do { (b, r) \<leftarrow> reader_take 4 r; Some (from_le_bytes b, r) }"

definition reader_u64 :: "reader \<Rightarrow> (u64 \<times> reader) option" where
  "reader_u64 r = do { (b, r) \<leftarrow> reader_take 8 r; Some (from_le_bytes b, r) }"

definition reader_guid :: "reader \<Rightarrow> (guid \<times> reader) option" where
  "reader_guid r = do { (b, r) \<leftarrow> reader_take 16 r; Some (Guid b, r) }"

text \<open>Fields at fixed offsets: \<open>put\<close> returns the buffer as written.\<close>

definition codec_put :: "bytes \<Rightarrow> nat \<Rightarrow> bytes \<Rightarrow> bytes option" where
  "codec_put buf offset v = do {
     e \<leftarrow> checked_add offset (length v);
     (if e \<le> length buf then Some (splice buf offset v) else None) }"

definition codec_get :: "bytes \<Rightarrow> nat \<Rightarrow> nat \<Rightarrow> bytes option" where
  "codec_get buf offset len = do { e \<leftarrow> checked_add offset len; slice_get buf offset e }"

definition get_u32 :: "bytes \<Rightarrow> nat \<Rightarrow> u32 option" where
  "get_u32 buf offset = do {
     b \<leftarrow> codec_get buf offset 4; (v, _) \<leftarrow> reader_u32 b; Some v }"

definition get_u64 :: "bytes \<Rightarrow> nat \<Rightarrow> u64 option" where
  "get_u64 buf offset = do {
     b \<leftarrow> codec_get buf offset 8; (v, _) \<leftarrow> reader_u64 b; Some v }"

text \<open>\<open>value\<close> rounded up to a multiple of \<open>align\<close>, a power of two: clearing the bits of
  \<open>align - 1\<close> takes the remainder off.\<close>

definition align_up :: "nat \<Rightarrow> nat \<Rightarrow> nat option" where
  "align_up v align = do {
     mask \<leftarrow> checked_sub align 1;
     s \<leftarrow> checked_add v mask;
     Some (s - (s AND mask)) }"

text \<open>\<open>as_chunks::<2>().0\<close> with each pair read little-endian: a trailing odd byte is left out.\<close>

fun u16_chunks :: "bytes \<Rightarrow> u16 list" where
  "u16_chunks (a # b # bs) = from_le_bytes [a, b] # u16_chunks bs"
| "u16_chunks _ = []"

definition ucs2_name :: "bytes \<Rightarrow> u16 list option" where
  "ucs2_name b =
     (if length b mod 2 \<noteq> 0 then None
      else do {
        (l, name) \<leftarrow> split_last (u16_chunks b);
        (if l \<noteq> 0 \<or> 0 \<in> set name then None else Some name) })"

definition ucs2_bytes :: "u16 list \<Rightarrow> bytes" where
  "ucs2_bytes name = concat (map to_le_bytes (name @ [0]))"

section \<open>Reading what was written\<close>

named_theorems reader_simps \<open>evaluation of readers on appended fields\<close>

lemma reader_take_append [reader_simps]:
  "length b = n \<Longrightarrow> reader_take n (b @ r) = Some (b, r)"
  by (simp add: reader_take_def)

lemma reader_take_eq_Some:
  "reader_take n r = Some (b, r') \<longleftrightarrow> r = b @ r' \<and> length b = n"
  by (auto simp: reader_take_def)

lemma reader_u16_append [reader_simps]: "reader_u16 (to_le_bytes w @ r) = Some (w, r)"
  by (simp add: reader_u16_def reader_take_append)

lemma reader_u32_append [reader_simps]: "reader_u32 (to_le_bytes w @ r) = Some (w, r)"
  by (simp add: reader_u32_def reader_take_append)

lemma reader_u64_append [reader_simps]: "reader_u64 (to_le_bytes w @ r) = Some (w, r)"
  by (simp add: reader_u64_def reader_take_append)

lemma from_le_bytes_single [simp]: "from_le_bytes [b] = (b :: u8)"
  by (simp add: from_le_bytes_def)

lemma reader_u8_Cons [reader_simps]: "reader_u8 (b # r) = Some (b, r)"
  by (simp add: reader_u8_def reader_take_def)

lemma reader_guid_append [reader_simps]:
  "guid_ok g \<Longrightarrow> reader_guid (guid_bytes g @ r) = Some (g, r)"
  by (simp add: reader_guid_def guid_ok_def reader_take_append)

lemma reader_u8_eq_Some: "reader_u8 r = Some (b, r') \<longleftrightarrow> r = b # r'"
  by (cases r) (auto simp: reader_u8_def reader_take_def)

lemma reader_u16_eq_Some: "reader_u16 r = Some (w, r') \<longleftrightarrow> r = to_le_bytes w @ r'"
proof
  assume "reader_u16 r = Some (w, r')"
  then show "r = to_le_bytes w @ r'"
    by (auto simp: reader_u16_def reader_take_eq_Some bind_eq_Some_conv to_from_le_bytes)
qed (simp add: reader_simps)

lemma reader_u32_eq_Some: "reader_u32 r = Some (w, r') \<longleftrightarrow> r = to_le_bytes w @ r'"
proof
  assume "reader_u32 r = Some (w, r')"
  then show "r = to_le_bytes w @ r'"
    by (auto simp: reader_u32_def reader_take_eq_Some bind_eq_Some_conv to_from_le_bytes)
qed (simp add: reader_simps)

lemma reader_u64_eq_Some: "reader_u64 r = Some (w, r') \<longleftrightarrow> r = to_le_bytes w @ r'"
proof
  assume "reader_u64 r = Some (w, r')"
  then show "r = to_le_bytes w @ r'"
    by (auto simp: reader_u64_def reader_take_eq_Some bind_eq_Some_conv to_from_le_bytes)
qed (simp add: reader_simps)

lemma reader_guid_eq_Some:
  "reader_guid r = Some (g, r') \<longleftrightarrow> r = guid_bytes g @ r' \<and> guid_ok g"
  by (cases g) (auto simp: reader_guid_def reader_take_eq_Some bind_eq_Some_conv guid_ok_def)

lemmas reader_eq_Some =
  reader_take_eq_Some reader_u8_eq_Some reader_u16_eq_Some reader_u32_eq_Some
  reader_u64_eq_Some reader_guid_eq_Some

lemma codec_put_eq_Some:
  "codec_put buf offset v = Some buf' \<longleftrightarrow>
     offset + length v \<le> usize_max \<and> offset + length v \<le> length buf \<and> buf' = splice buf offset v"
  by (auto simp: codec_put_def bind_eq_Some_conv)

lemma codec_get_eq_Some:
  "codec_get buf offset len = Some v \<longleftrightarrow>
     offset + len \<le> usize_max \<and> offset + len \<le> length buf \<and> v = take len (drop offset buf)"
  by (auto simp: codec_get_def bind_eq_Some_conv slice_get_eq_Some)

lemma length_codec_put: "codec_put buf offset v = Some buf' \<Longrightarrow> length buf' = length buf"
  by (auto simp: codec_put_eq_Some length_splice)

text \<open>A field read back where it was written, and every other field left as it was.\<close>

lemma get_put_same: "codec_put buf offset v = Some buf' \<Longrightarrow> codec_get buf' offset (length v) = Some v"
  by (auto simp: codec_put_eq_Some codec_get_eq_Some splice_def)

lemma get_put_other:
  assumes "codec_put buf offset v = Some buf'" and "o' + n \<le> offset \<or> offset + length v \<le> o'"
  shows "codec_get buf' o' n = codec_get buf o' n"
proof -
  from assms(1) have buf': "buf' = splice buf offset v" and le: "offset + length v \<le> length buf"
    by (auto simp: codec_put_eq_Some)
  have "take n (drop o' buf') = take n (drop o' buf)" if "o' + n \<le> length buf"
    using assms(2)
  proof
    assume "o' + n \<le> offset"
    then show ?thesis using le by (auto simp: buf' splice_def drop_take min_def)
  next
    assume "offset + length v \<le> o'"
    then show ?thesis using le by (simp add: buf' splice_def drop_append)
  qed
  then show ?thesis using length_codec_put [OF assms(1)]
    by (auto simp: codec_get_def slice_get_def split: Option.bind_split)
qed

section \<open>Names\<close>

lemma u16_chunks_bytes: "u16_chunks (concat (map to_le_bytes us)) = us"
proof (induction us)
  case Nil
  then show ?case by simp
next
  case (Cons u us)
  obtain a b where "to_le_bytes u = [a, b]"
    by (simp add: to_le_bytes_def numeral_2_eq_2)
  then show ?case using Cons.IH from_to_le_bytes_widths(1) [of u] by simp
qed

lemma bytes_u16_chunks: "even (length b) \<Longrightarrow> concat (map to_le_bytes (u16_chunks b)) = b"
  by (induction b rule: u16_chunks.induct) (auto simp: to_from_le_bytes)

lemma length_concat_le16: "length (concat (map to_le_bytes (us :: u16 list))) = 2 * length us"
  by (induction us) auto

lemma length_ucs2_bytes [simp]: "length (ucs2_bytes name) = 2 * length name + 2"
  by (simp add: ucs2_bytes_def length_concat_le16)

text \<open>A name survives its encoding exactly when it holds no NUL.\<close>

lemma ucs2_name_bytes: "ucs2_name (ucs2_bytes name) = (if 0 \<in> set name then None else Some name)"
proof -
  have "u16_chunks (ucs2_bytes name) = name @ [0]"
    unfolding ucs2_bytes_def by (rule u16_chunks_bytes)
  then show ?thesis by (simp add: ucs2_name_def split_last_def)
qed

lemma ucs2_name_eq_Some: "ucs2_name b = Some name \<longleftrightarrow> b = ucs2_bytes name \<and> 0 \<notin> set name"
proof
  assume a: "ucs2_name b = Some name"
  then have ev: "even (length b)" by (simp add: ucs2_name_def even_iff_mod_2_eq_zero split: if_splits)
  from a have "u16_chunks b \<noteq> []" "last (u16_chunks b) = 0" "butlast (u16_chunks b) = name"
    "0 \<notin> set name"
    by (auto simp: ucs2_name_def split_last_def split: if_splits)
  then have "u16_chunks b = name @ [0]" by (metis append_butlast_last_id)
  with bytes_u16_chunks [OF ev] \<open>0 \<notin> set name\<close> show "b = ucs2_bytes name \<and> 0 \<notin> set name"
    by (simp add: ucs2_bytes_def)
qed (simp add: ucs2_name_bytes)

lemma ucs2_bytes_inj: "ucs2_bytes n = ucs2_bytes m \<longleftrightarrow> n = m"
proof
  assume "ucs2_bytes n = ucs2_bytes m"
  then have "u16_chunks (ucs2_bytes n) = u16_chunks (ucs2_bytes m)" by simp
  then show "n = m" by (simp only: ucs2_bytes_def u16_chunks_bytes) simp
qed simp

lemma align_up_4: "align_up v 4 = (if v + 3 \<le> usize_max then Some ((v + 3) div 4 * 4) else None)"
proof -
  have "s AND 3 = s mod 4" for s :: nat
    using take_bit_eq_mask [of 2 s] by (simp add: take_bit_eq_mod mask_eq_exp_minus_1)
  then have "s - (s AND 3) = s div 4 * 4" for s :: nat
    by (simp add: minus_mod_eq_div_mult)
  then show ?thesis by (simp add: align_up_def checked_sub_def checked_add_def)
qed

end
