(* ===== verification/Uefi_Siglist.thy ===== *)
theory Uefi_Siglist
  imports Uefi_Codec
begin

text \<open>
  \<^verbatim>\<open>vk-uefi-vars/src/siglist.rs\<close>: EFI_SIGNATURE_LIST sequences, the data of PK, KEK, db, dbx,
  dbt and dbr. The abstract reading of a database is the set of its signatures
  (\<open>signature_set\<close>): an APPEND_WRITE is the union, the parser inverts the encoder, and appending
  the same lists twice changes nothing.
\<close>

definition LIST_HEADER :: nat where "LIST_HEADER = 28"
definition OWNER :: nat where "OWNER = 16"

record sig_list =
  sl_kind :: guid
  sl_header :: bytes
  sl_signature_size :: nat
  sl_entries :: "bytes list"

text \<open>\<open>List::signatures\<close>: the signatures without their owners.\<close>

definition sl_signatures :: "sig_list \<Rightarrow> bytes list" where
  "sl_signatures l = List.map_filter (\<lambda>e. slice_from e OWNER) (sl_entries l)"

definition fixed_size :: "guid \<Rightarrow> nat option" where
  "fixed_size kind =
     Option.bind
       (if kind = CERT_SHA1 then Some 20
        else if kind = CERT_SHA256 then Some 32
        else if kind = CERT_SHA384 then Some 48
        else if kind = CERT_SHA512 then Some 64
        else if kind = CERT_RSA2048 then Some 256
        else if kind = CERT_X509_SHA256 then Some (32 + 16)
        else if kind = CERT_X509_SHA384 then Some (48 + 16)
        else if kind = CERT_X509_SHA512 then Some (64 + 16)
        else None)
       (checked_add OWNER)"

text \<open>The loop that takes the entries, and one list of the sequence.\<close>

fun take_entries :: "nat \<Rightarrow> nat \<Rightarrow> reader \<Rightarrow> (bytes list \<times> reader) option" where
  "take_entries 0 sz r = Some ([], r)"
| "take_entries (Suc n) sz r = do {
     (e, r) \<leftarrow> reader_take sz r;
     (es, r) \<leftarrow> take_entries n sz r;
     Some (e # es, r) }"

definition parse_sig_list :: "reader \<Rightarrow> (sig_list \<times> reader) option" where
  "parse_sig_list r = do {
     (kind, r) \<leftarrow> reader_guid r;
     (list_size, r) \<leftarrow> reader_u32 r;
     (header_size, r) \<leftarrow> reader_u32 r;
     (signature_size, r) \<leftarrow> reader_u32 r;
     body \<leftarrow> checked_sub (unat list_size) LIST_HEADER;
     (header, r) \<leftarrow> reader_take (unat header_size) r;
     signatures \<leftarrow> checked_sub body (unat header_size);
     (if unat signature_size \<le> OWNER \<or> signatures = 0 \<or> signatures mod unat signature_size \<noteq> 0
      then None
      else do {
        (entries, r) \<leftarrow>
          take_entries (signatures div unat signature_size) (unat signature_size) r;
        Some (\<lparr>sl_kind = kind, sl_header = header, sl_signature_size = unat signature_size,
               sl_entries = entries\<rparr>, r) }) }"

lemma take_entries_length: "take_entries n sz r = Some (es, r') \<Longrightarrow> length r' \<le> length r"
  by (induction n arbitrary: r es) (fastforce simp: reader_take_def bind_eq_Some_conv split: if_splits)+

lemma parse_sig_list_consumes: "parse_sig_list r = Some (l, r') \<Longrightarrow> length r' < length r"
  by (auto simp: parse_sig_list_def bind_eq_Some_conv reader_eq_Some guid_ok_def
      split: if_splits dest!: take_entries_length)

function siglist_parse :: "bytes \<Rightarrow> sig_list list option" where
  "siglist_parse r =
     (if r = [] then Some []
      else case parse_sig_list r of
        None \<Rightarrow> None
      | Some (l, r') \<Rightarrow>
          if (case fixed_size (sl_kind l) of None \<Rightarrow> False | Some sz \<Rightarrow> sz \<noteq> sl_signature_size l)
          then None
          else if sl_kind l = CERT_X509 \<and> sl_header l \<noteq> [] then None
          else map_option (Cons l) (siglist_parse r'))"
  by pat_completeness auto
termination
  by (relation "measure length") (auto dest: parse_sig_list_consumes)

declare siglist_parse.simps [simp del]

definition siglist_certificates :: "bytes \<Rightarrow> bytes list" where
  "siglist_certificates data =
     concat (map sl_signatures
       (filter (\<lambda>l. sl_kind l = CERT_X509)
          (case siglist_parse data of None \<Rightarrow> [] | Some ls \<Rightarrow> ls)))"

text \<open>An APPEND_WRITE: what each list adds, then the lists one after another.\<close>

type_synonym sig = "guid \<times> nat \<times> bytes"

definition sig_known :: "sig_list list \<Rightarrow> sig list \<Rightarrow> sig_list \<Rightarrow> bytes \<Rightarrow> bool" where
  "sig_known existing added l entry \<longleftrightarrow>
     list_ex (\<lambda>e. sl_kind e = sl_kind l \<and> sl_signature_size e = sl_signature_size l
                  \<and> entry \<in> set (sl_entries e)) existing
     \<or> (sl_kind l, sl_signature_size l, entry) \<in> set added"

fun fresh_entries ::
  "sig_list list \<Rightarrow> sig_list \<Rightarrow> bytes list \<Rightarrow> sig list \<Rightarrow> bytes list \<Rightarrow> sig list \<times> bytes list"
where
  "fresh_entries existing l [] added fresh = (added, fresh)"
| "fresh_entries existing l (entry # es) added fresh =
     (if sig_known existing added l entry
      then fresh_entries existing l es added fresh
      else fresh_entries existing l es
             (added @ [(sl_kind l, sl_signature_size l, entry)]) (fresh @ [entry]))"

definition encode_sig_list :: "sig_list \<Rightarrow> bytes list \<Rightarrow> bytes option" where
  "encode_sig_list l fresh = do {
     m \<leftarrow> checked_mul (sl_signature_size l) (length fresh);
     body \<leftarrow> checked_add m (length (sl_header l));
     total \<leftarrow> checked_add body LIST_HEADER;
     list_size \<leftarrow> u32_try_from total;
     header_size \<leftarrow> u32_try_from (length (sl_header l));
     signature_size \<leftarrow> u32_try_from (sl_signature_size l);
     Some (guid_bytes (sl_kind l) @ to_le_bytes list_size @ to_le_bytes header_size
           @ to_le_bytes signature_size @ sl_header l @ concat fresh) }"

fun append_lists :: "sig_list list \<Rightarrow> sig_list list \<Rightarrow> sig list \<Rightarrow> bytes \<Rightarrow> bytes option" where
  "append_lists existing [] added out = Some out"
| "append_lists existing (l # ls) added out =
     (case fresh_entries existing l (sl_entries l) added [] of (added', fresh) \<Rightarrow>
        if fresh = [] then append_lists existing ls added' out
        else do {
          enc \<leftarrow> encode_sig_list l fresh;
          append_lists existing ls added' (out @ enc) })"

definition siglist_append :: "bytes \<Rightarrow> bytes \<Rightarrow> bytes option" where
  "siglist_append old new = do {
     existing \<leftarrow> siglist_parse old;
     new_lists \<leftarrow> siglist_parse new;
     append_lists existing new_lists [] old }"

section \<open>The parser inverts the encoder\<close>

text \<open>What the parser accepts of a list: its layout, and its kind's own rules.\<close>

definition sig_list_wf :: "sig_list \<Rightarrow> bool" where
  "sig_list_wf l \<longleftrightarrow>
     guid_ok (sl_kind l) \<and> sl_signature_size l > OWNER \<and> sl_entries l \<noteq> []
     \<and> list_all (\<lambda>e. length e = sl_signature_size l) (sl_entries l)
     \<and> LIST_HEADER + length (sl_header l) + sl_signature_size l * length (sl_entries l) < 2 ^ 32"

definition sig_list_ok :: "sig_list \<Rightarrow> bool" where
  "sig_list_ok l \<longleftrightarrow> sig_list_wf l
     \<and> (case fixed_size (sl_kind l) of None \<Rightarrow> True | Some sz \<Rightarrow> sz = sl_signature_size l)
     \<and> (sl_kind l = CERT_X509 \<longrightarrow> sl_header l = [])"

lemma length_concat_same: "list_all (\<lambda>e. length e = n) es \<Longrightarrow> length (concat es) = n * length es"
  by (induction es) auto

lemma take_entries_concat:
  "list_all (\<lambda>e. length e = sz) es \<Longrightarrow>
   take_entries (length es) sz (concat es @ r) = Some (es, r)"
  by (induction es) (auto simp: reader_take_append)

lemma take_entries_eq_Some:
  "take_entries n sz r = Some (es, r') \<Longrightarrow>
   r = concat es @ r' \<and> length es = n \<and> list_all (\<lambda>e. length e = sz) es"
  by (induction n arbitrary: r es) (fastforce simp: bind_eq_Some_conv reader_eq_Some)+

lemma encode_sig_list_Some:
  "encode_sig_list l fresh = Some b \<Longrightarrow>
   \<exists>(W :: u32) (H :: u32) (S :: u32).
     unat W = LIST_HEADER + length (sl_header l) + sl_signature_size l * length fresh
     \<and> unat H = length (sl_header l) \<and> unat S = sl_signature_size l
     \<and> b = guid_bytes (sl_kind l) @ to_le_bytes W @ to_le_bytes H @ to_le_bytes S
           @ sl_header l @ concat fresh"
  by (simp add: encode_sig_list_def bind_eq_Some_conv u32_try_from_eq_Some algebra_simps) blast

lemma encode_sig_list_ex:
  assumes "sig_list_wf (l\<lparr>sl_entries := fresh\<rparr>)"
  shows "\<exists>b. encode_sig_list l fresh = Some b"
proof -
  let ?b = "sl_signature_size l * length fresh"
  have b: "LIST_HEADER + length (sl_header l) + ?b < 4294967296"
    using assms by (simp add: sig_list_wf_def)
  have "sl_signature_size l \<le> ?b"
    using assms by (cases fresh) (simp_all add: sig_list_wf_def)
  with b have "sl_signature_size l < 4294967296" by linarith
  with b show ?thesis
    by (simp add: encode_sig_list_def checked_mul_def checked_add_def u32_try_from_def
        usize_max_def algebra_simps)
qed

lemma parse_encode_sig_list:
  assumes ok: "sig_list_wf (l\<lparr>sl_entries := fresh\<rparr>)" and enc: "encode_sig_list l fresh = Some b"
  shows "parse_sig_list (b @ r) = Some (l\<lparr>sl_entries := fresh\<rparr>, r)"
proof -
  let ?b = "sl_signature_size l * length fresh"
  have sz: "OWNER < sl_signature_size l" and ne: "fresh \<noteq> []"
    and all: "list_all (\<lambda>e. length e = sl_signature_size l) fresh"
    and g: "guid_ok (sl_kind l)"
    using ok by (simp_all add: sig_list_wf_def)
  from sz ne have "?b div sl_signature_size l = length fresh" "?b \<noteq> 0" "?b mod sl_signature_size l = 0"
    by simp_all
  moreover from encode_sig_list_Some [OF enc] obtain W H S :: u32 where
    "unat W = LIST_HEADER + length (sl_header l) + ?b" "unat H = length (sl_header l)"
    "unat S = sl_signature_size l"
    "b = guid_bytes (sl_kind l) @ to_le_bytes W @ to_le_bytes H @ to_le_bytes S
         @ sl_header l @ concat fresh"
    by blast
  ultimately show ?thesis using sz g
    by (simp add: parse_sig_list_def reader_simps checked_sub_def take_entries_concat [OF all])
qed

lemma parse_sig_list_inv:
  assumes "parse_sig_list r = Some (l, r')"
  shows "sig_list_wf l \<and> (\<exists>b. encode_sig_list l (sl_entries l) = Some b \<and> r = b @ r')"
proof -
  from assms obtain ls hs ss r2 where
    k: "guid_ok (sl_kind l)" and h: "length (sl_header l) = unat (hs :: u32)"
    and ss: "sl_signature_size l = unat (ss :: u32)"
    and le: "LIST_HEADER \<le> unat (ls :: u32)" "unat hs \<le> unat ls - LIST_HEADER"
    and cond: "\<not> unat ss \<le> OWNER" "unat ls - LIST_HEADER \<noteq> unat hs"
      "unat ss dvd unat ls - (LIST_HEADER + unat hs)"
    and es: "take_entries ((unat ls - (LIST_HEADER + unat hs)) div unat ss) (unat ss) r2 =
      Some (sl_entries l, r')"
    and r: "r = guid_bytes (sl_kind l) @ to_le_bytes ls @ to_le_bytes hs @ to_le_bytes ss
      @ sl_header l @ r2"
    by (fastforce simp: parse_sig_list_def bind_eq_Some_conv reader_eq_Some split: if_splits)
  from take_entries_eq_Some [OF es] cond(3)
  have mul: "unat ss * length (sl_entries l) = unat ls - (LIST_HEADER + unat hs)"
    and all: "list_all (\<lambda>e. length e = unat ss) (sl_entries l)"
    and r2: "r2 = concat (sl_entries l) @ r'" by auto
  have "sl_entries l \<noteq> []" using mul le cond(2) by auto
  moreover have sum: "unat ls = LIST_HEADER + unat hs + unat ss * length (sl_entries l)"
    using mul le by linarith
  then have "LIST_HEADER + unat hs + unat ss * length (sl_entries l) < 4294967296"
    using unat_lt_u32 [of ls] by linarith
  ultimately have wf: "sig_list_wf l" using k cond all by (simp add: sig_list_wf_def ss h)
  then obtain b where b: "encode_sig_list l (sl_entries l) = Some b"
    using encode_sig_list_ex [where l = l and fresh = "sl_entries l"] by auto
  from encode_sig_list_Some [OF b] obtain W H S where
    "unat (W :: u32) = unat ls" "unat (H :: u32) = unat hs" "unat (S :: u32) = unat ss"
    "b = guid_bytes (sl_kind l) @ to_le_bytes W @ to_le_bytes H @ to_le_bytes S
         @ sl_header l @ concat (sl_entries l)"
    by (auto simp: h ss sum)
  then have "r = b @ r'" by (simp add: r r2 to_le_bytes_def)
  with wf b show ?thesis by blast
qed

lemma siglist_parse_all_ok: "siglist_parse d = Some ls \<Longrightarrow> list_all sig_list_ok ls"
proof (induction d arbitrary: ls rule: siglist_parse.induct)
  case (1 r)
  show ?case
  proof (cases "r = []")
    case True
    with "1.prems" show ?thesis by (simp add: siglist_parse.simps)
  next
    case False
    with "1.prems" obtain l r' ls' where p: "parse_sig_list r = Some (l, r')"
      and fs: "\<not> (case fixed_size (sl_kind l) of None \<Rightarrow> False | Some sz \<Rightarrow> sz \<noteq> sl_signature_size l)"
      and x: "\<not> (sl_kind l = CERT_X509 \<and> sl_header l \<noteq> [])"
      and rest: "siglist_parse r' = Some ls'" "ls = l # ls'"
      by (subst (asm) siglist_parse.simps) (auto split: option.splits if_splits)
    from "1.IH" [OF False p refl fs x rest(1)] have "list_all sig_list_ok ls'" .
    moreover from parse_sig_list_inv [OF p] fs x have "sig_list_ok l"
      by (auto simp: sig_list_ok_def split: option.splits)
    ultimately show ?thesis using rest(2) by simp
  qed
qed

lemma siglist_parse_Nil [simp]: "siglist_parse [] = Some []"
  by (simp add: siglist_parse.simps)

lemma siglist_parse_Cons:
  assumes "sig_list_ok l" and "parse_sig_list r = Some (l, r')"
  shows "siglist_parse r = map_option (Cons l) (siglist_parse r')"
proof -
  have "r \<noteq> []" using parse_sig_list_consumes [OF assms(2)] by auto
  with assms show ?thesis
    by (subst siglist_parse.simps) (auto simp: sig_list_ok_def split: option.splits)
qed

text \<open>The parser is compositional: lists parsed before an appended sequence.\<close>

lemma parse_sig_list_append:
  assumes "parse_sig_list r = Some (l, r')"
  shows "parse_sig_list (r @ t) = Some (l, r' @ t)"
proof -
  from parse_sig_list_inv [OF assms] obtain b where
    "sig_list_wf l" "encode_sig_list l (sl_entries l) = Some b" "r = b @ r'" by blast
  with parse_encode_sig_list [where l = l and fresh = "sl_entries l" and b = b and r = "r' @ t"] show ?thesis by simp
qed

lemma siglist_parse_append:
  "siglist_parse d = Some ls \<Longrightarrow> siglist_parse (d @ t) = map_option ((@) ls) (siglist_parse t)"
proof (induction d arbitrary: ls rule: siglist_parse.induct)
  case (1 r)
  show ?case
  proof (cases "r = []")
    case True
    with "1.prems" show ?thesis by (simp add: option.map_ident)
  next
    case False
    with "1.prems" obtain l r' ls' where p: "parse_sig_list r = Some (l, r')"
      and fs: "\<not> (case fixed_size (sl_kind l) of None \<Rightarrow> False | Some sz \<Rightarrow> sz \<noteq> sl_signature_size l)"
      and x: "\<not> (sl_kind l = CERT_X509 \<and> sl_header l \<noteq> [])"
      and rest: "siglist_parse r' = Some ls'" "ls = l # ls'"
      by (subst (asm) siglist_parse.simps) (auto split: option.splits if_splits)
    have "sig_list_ok l" using siglist_parse_all_ok [OF "1.prems"] rest(2) by simp
    with parse_sig_list_append [OF p]
    have "siglist_parse (r @ t) = map_option (Cons l) (siglist_parse (r' @ t))"
      by (rule siglist_parse_Cons [rotated])
    also have "\<dots> = map_option (Cons l) (map_option ((@) ls') (siglist_parse t))"
      using "1.IH" [OF False p refl fs x rest(1)] by simp
    finally show ?thesis using rest(2) by (simp add: option.map_comp comp_def)
  qed
qed

section \<open>Appending is the union of signature sets\<close>

definition list_sigs :: "sig_list \<Rightarrow> sig set" where
  "list_sigs l = (\<lambda>e. (sl_kind l, sl_signature_size l, e)) ` set (sl_entries l)"

definition lists_sigs :: "sig_list list \<Rightarrow> sig set" where
  "lists_sigs ls = (\<Union>l \<in> set ls. list_sigs l)"

definition signature_set :: "bytes \<Rightarrow> sig set" where
  "signature_set d = (case siglist_parse d of None \<Rightarrow> {} | Some ls \<Rightarrow> lists_sigs ls)"

lemma lists_sigs_simps [simp]:
  "lists_sigs [] = {}" "lists_sigs (l # ls) = list_sigs l \<union> lists_sigs ls"
  "lists_sigs (ls @ ms) = lists_sigs ls \<union> lists_sigs ms"
  by (auto simp: lists_sigs_def)

lemma sig_known_iff:
  "sig_known existing added l e \<longleftrightarrow>
   (sl_kind l, sl_signature_size l, e) \<in> lists_sigs existing \<union> set added"
  by (simp add: sig_known_def lists_sigs_def list_sigs_def list_ex_iff image_iff) metis

lemma fresh_entries_spec:
  "fresh_entries existing l es added fresh = (added', fresh') \<Longrightarrow>
   \<exists>new. fresh' = fresh @ new \<and> set new \<subseteq> set es \<and> length new \<le> length es
     \<and> set added' = set added \<union> (\<lambda>e. (sl_kind l, sl_signature_size l, e)) ` set new
     \<and> (\<forall>e \<in> set es. sig_known existing added' l e)
     \<and> (\<forall>e \<in> set new. \<not> sig_known existing added l e)"
proof (induction es arbitrary: added fresh)
  case Nil
  then show ?case by simp
next
  case (Cons e es)
  show ?case
  proof (cases "sig_known existing added l e")
    case True
    with Cons.prems have "fresh_entries existing l es added fresh = (added', fresh')" by simp
    from Cons.IH [OF this] obtain new where new:
      "fresh' = fresh @ new" "set new \<subseteq> set es" "length new \<le> length es"
      "set added' = set added \<union> (\<lambda>e. (sl_kind l, sl_signature_size l, e)) ` set new"
      "\<forall>e \<in> set es. sig_known existing added' l e" "\<forall>e \<in> set new. \<not> sig_known existing added l e"
      by blast
    show ?thesis
      by (rule exI [of _ new]) (use new True in \<open>auto simp: sig_known_iff\<close>)
  next
    case False
    let ?a = "added @ [(sl_kind l, sl_signature_size l, e)]"
    from False Cons.prems
    have "fresh_entries existing l es ?a (fresh @ [e]) = (added', fresh')" by simp
    from Cons.IH [OF this] obtain new where new:
      "fresh' = (fresh @ [e]) @ new" "set new \<subseteq> set es" "length new \<le> length es"
      "set added' = set ?a \<union> (\<lambda>e. (sl_kind l, sl_signature_size l, e)) ` set new"
      "\<forall>e \<in> set es. sig_known existing added' l e" "\<forall>e \<in> set new. \<not> sig_known existing ?a l e"
      by blast
    show ?thesis
      by (rule exI [of _ "e # new"]) (use new False in \<open>auto simp: sig_known_iff\<close>)
  qed
qed

text \<open>
  Appending lists to a well-formed database: it never fails, keeps the old bytes as a prefix,
  and the result is again a well-formed database, holding the signatures of both.
\<close>

lemma sig_list_ok_fresh:
  assumes "sig_list_ok l" and "set new \<subseteq> set (sl_entries l)"
    and "length new \<le> length (sl_entries l)" and "new \<noteq> []"
  shows "sig_list_ok (l\<lparr>sl_entries := new\<rparr>)"
proof -
  have "sl_signature_size l * length new \<le> sl_signature_size l * length (sl_entries l)"
    using assms(3) by (rule mult_le_mono2)
  moreover have
    "LIST_HEADER + length (sl_header l) + sl_signature_size l * length (sl_entries l) < 4294967296"
    using assms(1) by (simp add: sig_list_ok_def sig_list_wf_def)
  ultimately have
    "LIST_HEADER + length (sl_header l) + sl_signature_size l * length new < 4294967296"
    by linarith
  with assms show ?thesis
    by (auto simp: sig_list_ok_def sig_list_wf_def list_all_iff split: option.splits)
qed

lemma append_lists_spec:
  assumes "list_all sig_list_ok ls" and "siglist_parse out = Some outs"
  shows "\<exists>b ms. append_lists existing ls added out = Some (out @ b)
    \<and> siglist_parse (out @ b) = Some (outs @ ms)
    \<and> lists_sigs ms \<subseteq> lists_sigs ls
    \<and> lists_sigs ls \<subseteq> lists_sigs existing \<union> set added \<union> lists_sigs ms"
  using assms
proof (induction ls arbitrary: added out outs)
  case Nil
  then show ?case by simp
next
  case (Cons l ls)
  obtain added' fresh where fe: "fresh_entries existing l (sl_entries l) added [] = (added', fresh)"
    by fastforce
  from fresh_entries_spec [OF fe] have new:
    "set fresh \<subseteq> set (sl_entries l)" "length fresh \<le> length (sl_entries l)"
    "set added' = set added \<union> (\<lambda>e. (sl_kind l, sl_signature_size l, e)) ` set fresh"
    "\<forall>e \<in> set (sl_entries l). sig_known existing added' l e"
    by auto
  have l_sub: "list_sigs l \<subseteq> lists_sigs existing \<union> set added'"
    using new(4) by (auto simp: list_sigs_def sig_known_iff)
  show ?case
  proof (cases "fresh = []")
    case True
    with new(3) have "set added' = set added" by simp
    moreover from Cons.prems have "list_all sig_list_ok ls" by simp
    ultimately show ?thesis
      using Cons.IH [of out outs added'] Cons.prems fe True l_sub by fastforce
  next
    case False
    from Cons.prems have ok: "sig_list_ok l" by simp
    let ?l = "l\<lparr>sl_entries := fresh\<rparr>"
    have ok': "sig_list_ok ?l" using sig_list_ok_fresh [OF ok new(1,2) False] .
    then obtain enc where enc: "encode_sig_list l fresh = Some enc"
      using encode_sig_list_ex [where l = l and fresh = fresh] by (auto simp: sig_list_ok_def)
    have "siglist_parse enc = Some [?l]"
    proof -
      from ok' have "sig_list_wf ?l" by (simp add: sig_list_ok_def)
      from siglist_parse_Cons [OF ok' parse_encode_sig_list [OF this enc, where r = "[]"]]
      show ?thesis by simp
    qed
    then have "siglist_parse (out @ enc) = Some (outs @ [?l])"
      using siglist_parse_append [OF Cons.prems(2), of enc] by simp
    from Cons.IH [OF _ this, of added'] Cons.prems obtain b ms where
      ih: "append_lists existing ls added' (out @ enc) = Some ((out @ enc) @ b)"
      "siglist_parse ((out @ enc) @ b) = Some ((outs @ [?l]) @ ms)"
      "lists_sigs ms \<subseteq> lists_sigs ls"
      "lists_sigs ls \<subseteq> lists_sigs existing \<union> set added' \<union> lists_sigs ms"
      by auto
    have l': "list_sigs ?l = (\<lambda>e. (sl_kind l, sl_signature_size l, e)) ` set fresh"
      by (simp add: list_sigs_def)
    with new(1) have "list_sigs ?l \<subseteq> list_sigs l" by (auto simp: list_sigs_def)
    with ih l' new(3) l_sub fe False enc show ?thesis
      by (intro exI [of _ "enc @ b"] exI [of _ "?l # ms"]) auto
  qed
qed

lemma siglist_append_union:
  assumes "siglist_parse old = Some existing" and "siglist_parse new = Some new_lists"
  shows "\<exists>b. siglist_append old new = Some (old @ b)
    \<and> siglist_parse (old @ b) \<noteq> None
    \<and> signature_set (old @ b) = signature_set old \<union> signature_set new"
proof -
  from append_lists_spec [OF siglist_parse_all_ok [OF assms(2)] assms(1), of existing "[]"]
  obtain b ms where "append_lists existing new_lists [] old = Some (old @ b)"
    "siglist_parse (old @ b) = Some (existing @ ms)" "lists_sigs ms \<subseteq> lists_sigs new_lists"
    "lists_sigs new_lists \<subseteq> lists_sigs existing \<union> lists_sigs ms"
    by auto
  with assms show ?thesis by (auto simp: siglist_append_def signature_set_def)
qed

lemma siglist_append_None:
  "siglist_append old new = None \<longleftrightarrow> siglist_parse old = None \<or> siglist_parse new = None"
proof (cases "siglist_parse old"; cases "siglist_parse new")
  fix e l
  assume "siglist_parse old = Some e" "siglist_parse new = Some l"
  with siglist_append_union [OF this] show ?thesis by auto
qed (auto simp: siglist_append_def split: Option.bind_splits)

text \<open>An append that brings nothing new leaves the database byte for byte as it was.\<close>

lemma fresh_entries_none:
  "\<forall>e \<in> set es. sig_known existing added l e \<Longrightarrow>
   fresh_entries existing l es added fresh = (added, fresh)"
  by (induction es) auto

lemma append_lists_none:
  "lists_sigs ls \<subseteq> lists_sigs existing \<Longrightarrow> append_lists existing ls added out = Some out"
proof (induction ls)
  case Nil
  then show ?case by simp
next
  case (Cons l ls)
  then have "\<forall>e \<in> set (sl_entries l). sig_known existing added l e"
    by (auto simp: sig_known_iff list_sigs_def)
  with Cons show ?case by (simp add: fresh_entries_none)
qed

lemma siglist_append_known:
  assumes "siglist_parse old \<noteq> None" and "siglist_parse new \<noteq> None"
    and "signature_set new \<subseteq> signature_set old"
  shows "siglist_append old new = Some old"
  using assms by (auto simp: siglist_append_def signature_set_def append_lists_none)

end
