(* ===== verification/Uefi_Store.thy ===== *)
theory Uefi_Store
  imports Uefi_Codec "HOL-Library.Product_Lexorder"
begin

text \<open>
  \<^verbatim>\<open>vk-uefi-vars/src/store.rs\<close>: what a variable is, how variables are looked up and enumerated,
  and the room they may take. The store is the vector of variables in creation order. The
  locale \<open>keyed_store\<close> is its contract with the rest of the service: over a store in which no
  two variables share a namespace and name, \<open>find\<close>, \<open>put\<close> and \<open>remove\<close> are lookup, update
  and deletion in a finite map.
\<close>

section \<open>EFI status values and attributes\<close>

datatype status = Status u64

definition ERR :: u64 where
  "ERR = push_bit 63 1"

definition SUCCESS :: status where "SUCCESS = Status 0"
definition INVALID_PARAMETER :: status where "INVALID_PARAMETER = Status (ERR OR 2)"
definition UNSUPPORTED :: status where "UNSUPPORTED = Status (ERR OR 3)"
definition BAD_BUFFER_SIZE :: status where "BAD_BUFFER_SIZE = Status (ERR OR 4)"
definition BUFFER_TOO_SMALL :: status where "BUFFER_TOO_SMALL = Status (ERR OR 5)"
definition WRITE_PROTECTED :: status where "WRITE_PROTECTED = Status (ERR OR 8)"
definition OUT_OF_RESOURCES :: status where "OUT_OF_RESOURCES = Status (ERR OR 9)"
definition NOT_FOUND :: status where "NOT_FOUND = Status (ERR OR 14)"
definition ACCESS_DENIED :: status where "ACCESS_DENIED = Status (ERR OR 15)"
definition ALREADY_STARTED :: status where "ALREADY_STARTED = Status (ERR OR 20)"
definition SECURITY_VIOLATION :: status where "SECURITY_VIOLATION = Status (ERR OR 26)"

fun status_bits :: "status \<Rightarrow> u64" where
  "status_bits (Status w) = w"

definition is_error :: "status \<Rightarrow> bool" where
  "is_error s \<longleftrightarrow> status_bits s AND ERR \<noteq> 0"

lemmas status_defs =
  SUCCESS_def INVALID_PARAMETER_def UNSUPPORTED_def BAD_BUFFER_SIZE_def BUFFER_TOO_SMALL_def
  WRITE_PROTECTED_def OUT_OF_RESOURCES_def NOT_FOUND_def ACCESS_DENIED_def ALREADY_STARTED_def
  SECURITY_VIOLATION_def ERR_def

definition NON_VOLATILE :: u32 where "NON_VOLATILE = 0x01"
definition BOOTSERVICE_ACCESS :: u32 where "BOOTSERVICE_ACCESS = 0x02"
definition RUNTIME_ACCESS :: u32 where "RUNTIME_ACCESS = 0x04"
definition HARDWARE_ERROR_RECORD :: u32 where "HARDWARE_ERROR_RECORD = 0x08"
definition AUTHENTICATED_WRITE_ACCESS :: u32 where "AUTHENTICATED_WRITE_ACCESS = 0x10"
definition TIME_BASED_AUTHENTICATED_WRITE_ACCESS :: u32 where
  "TIME_BASED_AUTHENTICATED_WRITE_ACCESS = 0x20"
definition APPEND_WRITE :: u32 where "APPEND_WRITE = 0x40"

definition STORED_ATTRIBUTES :: u32 where
  "STORED_ATTRIBUTES = NON_VOLATILE OR BOOTSERVICE_ACCESS OR RUNTIME_ACCESS
     OR HARDWARE_ERROR_RECORD OR TIME_BASED_AUTHENTICATED_WRITE_ACCESS"

lemmas attribute_defs =
  NON_VOLATILE_def BOOTSERVICE_ACCESS_def RUNTIME_ACCESS_def HARDWARE_ERROR_RECORD_def
  AUTHENTICATED_WRITE_ACCESS_def TIME_BASED_AUTHENTICATED_WRITE_ACCESS_def APPEND_WRITE_def

definition AUTH_VARIABLE_HEADER_SIZE :: nat where "AUTH_VARIABLE_HEADER_SIZE = 60"
definition MAX_VARIABLE_SIZE :: nat where
  "MAX_VARIABLE_SIZE = 0x8400 - AUTH_VARIABLE_HEADER_SIZE"
definition NV_STORAGE_SIZE :: nat where "NV_STORAGE_SIZE = 0x40000"
definition VOLATILE_STORAGE_SIZE :: nat where "VOLATILE_STORAGE_SIZE = 0x40000"

section \<open>EFI_TIME\<close>

datatype efi_time = EfiTime (time_bytes: bytes)

definition time_ok :: "efi_time \<Rightarrow> bool" where
  "time_ok t \<longleftrightarrow> length (time_bytes t) = 16"

definition time_default :: efi_time where
  "time_default = EfiTime (replicate 16 0)"

text \<open>The fields an ordering compares: year, month, day, hour, minute, second.\<close>

definition time_key :: "efi_time \<Rightarrow> u16 \<times> u8 \<times> u8 \<times> u8 \<times> u8 \<times> u8" where
  "time_key t = (let b = time_bytes t in
     (from_le_bytes [b ! 0, b ! 1], b ! 2, b ! 3, b ! 4, b ! 5, b ! 6))"

definition later_than :: "efi_time \<Rightarrow> efi_time \<Rightarrow> bool" where
  "later_than t u \<longleftrightarrow> time_key t > time_key u"

definition is_clean :: "efi_time \<Rightarrow> bool" where
  "is_clean t = (case slice_from (time_bytes t) 7 of
     None \<Rightarrow> False | Some rest \<Rightarrow> list_all (\<lambda>b. b = 0) rest)"

lemma later_than_irrefl: "\<not> later_than t t"
  by (simp add: later_than_def)

lemma later_than_trans: "later_than t u \<Longrightarrow> later_than u v \<Longrightarrow> later_than t v"
  by (auto simp: later_than_def)

lemma later_than_asym: "later_than t u \<Longrightarrow> \<not> later_than u t"
  by (auto simp: later_than_def)

section \<open>Variables\<close>

record variable =
  v_guid :: guid
  v_name :: "u16 list"
  v_attributes :: u32
  v_data :: bytes
  v_timestamp :: efi_time

type_synonym var_key = "guid \<times> u16 list"

abbreviation v_key :: "variable \<Rightarrow> var_key" where
  "v_key v \<equiv> (v_guid v, v_name v)"

definition non_volatile :: "variable \<Rightarrow> bool" where
  "non_volatile v \<longleftrightarrow> v_attributes v AND NON_VOLATILE \<noteq> 0"

definition stored_size :: "variable \<Rightarrow> nat" where
  "stored_size v =
     (let name = saturating_mul (saturating_add (length (v_name v)) 1) 2;
          s = saturating_add
                (saturating_add (saturating_add AUTH_VARIABLE_HEADER_SIZE name) (length (v_data v)))
                3
      in s - (s AND 3))"

section \<open>The store\<close>

record store =
  vars :: "variable list"

definition store_default :: store where
  "store_default = \<lparr>vars = []\<rparr>"

definition store_position :: "store \<Rightarrow> guid \<Rightarrow> u16 list \<Rightarrow> nat option" where
  "store_position s guid name = position (\<lambda>v. v_guid v = guid \<and> v_name v = name) (vars s)"

definition store_get :: "store \<Rightarrow> nat \<Rightarrow> variable option" where
  "store_get s i = nth_get (vars s) i"

definition store_find :: "store \<Rightarrow> guid \<Rightarrow> u16 list \<Rightarrow> variable option" where
  "store_find s guid name = Option.bind (store_position s guid name) (store_get s)"

definition store_put :: "nat option \<Rightarrow> variable \<Rightarrow> store \<Rightarrow> store" where
  "store_put index v s =
     (case index of
        Some i \<Rightarrow>
          if i < length (vars s) then s\<lparr>vars := (vars s)[i := v]\<rparr>
          else s\<lparr>vars := vars s @ [v]\<rparr>
      | None \<Rightarrow> s\<lparr>vars := vars s @ [v]\<rparr>)"

text \<open>\<open>Store::remove\<close>: the removed variable, and the store after.\<close>

definition store_remove :: "nat \<Rightarrow> store \<Rightarrow> variable option \<times> store" where
  "store_remove i s =
     (if i < length (vars s)
      then (Some (vars s ! i), s\<lparr>vars := list_remove i (vars s)\<rparr>)
      else (None, s))"

definition store_used :: "store \<Rightarrow> bool \<Rightarrow> nat" where
  "store_used s nv =
     foldl (\<lambda>sum v. saturating_add sum (stored_size v)) 0
       (filter (\<lambda>v. non_volatile v = nv) (vars s))"

definition store_len :: "store \<Rightarrow> nat" where
  "store_len s = length (vars s)"

section \<open>The store as a map\<close>

text \<open>The invariant: no two variables share a namespace and name.\<close>

definition store_ok :: "store \<Rightarrow> bool" where
  "store_ok s \<longleftrightarrow> distinct (map v_key (vars s))"

text \<open>What every caller does: a variable is stored at the position of its own key.\<close>

definition store_set :: "variable \<Rightarrow> store \<Rightarrow> store" where
  "store_set v s = store_put (store_position s (v_guid v) (v_name v)) v s"

definition store_delete :: "var_key \<Rightarrow> store \<Rightarrow> store" where
  "store_delete k s =
     (case store_position s (fst k) (snd k) of
        None \<Rightarrow> s
      | Some i \<Rightarrow> snd (store_remove i s))"

definition store_lookup :: "store \<Rightarrow> var_key \<Rightarrow> variable option" where
  "store_lookup s k = store_find s (fst k) (snd k)"

lemma store_ok_default [simp]: "store_ok store_default"
  by (simp add: store_ok_def store_default_def)

lemma store_position_Some:
  "store_position s g n = Some i \<Longrightarrow> i < length (vars s) \<and> v_key (vars s ! i) = (g, n)"
  by (auto simp: store_position_def position_eq_Some)

lemma store_position_None:
  "store_position s g n = None \<longleftrightarrow> (g, n) \<notin> v_key ` set (vars s)"
  by (auto simp: store_position_def position_eq_None)

lemma store_find_Some:
  "store_find s g n = Some v \<Longrightarrow>
     \<exists>i. store_position s g n = Some i \<and> i < length (vars s) \<and> v = vars s ! i \<and> v_key v = (g, n)"
proof -
  assume "store_find s g n = Some v"
  then obtain i where "store_position s g n = Some i" "store_get s i = Some v"
    by (auto simp: store_find_def bind_eq_Some_conv)
  with store_position_Some [of s g n i] show ?thesis
    by (auto simp: store_get_def nth_get_eq_Some)
qed

lemma store_find_key: "store_find s g n = Some v \<Longrightarrow> v_guid v = g \<and> v_name v = n"
  by (auto dest: store_find_Some)

lemma store_find_in: "store_find s g n = Some v \<Longrightarrow> v \<in> set (vars s)"
  by (auto dest: store_find_Some)

lemma store_find_None: "store_find s g n = None \<longleftrightarrow> store_position s g n = None"
  by (auto simp: store_find_def store_get_def nth_get_def dest: store_position_Some
      split: Option.bind_splits if_splits)

lemma store_find_position:
  "store_position s g n = Some i \<Longrightarrow> store_find s g n = Some (vars s ! i)"
  by (auto simp: store_find_def store_get_def nth_get_def dest: store_position_Some)

text \<open>The lookup is the library's \<open>map_of\<close> on the keyed variables.\<close>

lemma store_find_map_of: "store_find s g n = map_of (map (\<lambda>v. (v_key v, v)) (vars s)) (g, n)"
proof -
  have "Option.bind (position (\<lambda>v. v_guid v = g \<and> v_name v = n) vs) (nth_get vs) =
        map_of (map (\<lambda>v. (v_key v, v)) vs) (g, n)" for vs
  proof (induction vs)
    case Nil
    then show ?case by simp
  next
    case (Cons v vs)
    have "Option.bind (map_option Suc i) (nth_get (v # vs)) = Option.bind i (nth_get vs)" for i
      by (cases i) (auto simp: nth_get_def)
    moreover have "nth_get (v # vs) 0 = Some v" by (simp add: nth_get_def)
    ultimately show ?case using Cons.IH by auto
  qed
  then show ?thesis
    by (simp add: store_find_def store_position_def store_get_def [abs_def])
qed

lemma store_find_iff:
  assumes "store_ok s"
  shows "store_find s g n = Some v \<longleftrightarrow> v \<in> set (vars s) \<and> v_key v = (g, n)"
proof -
  have "distinct (map fst (map (\<lambda>v. (v_key v, v)) (vars s)))"
    using assms by (simp add: store_ok_def comp_def)
  then show ?thesis by (auto simp: store_find_map_of map_of_eq_Some_iff)
qed

lemma store_put_None [simp]: "vars (store_put None v s) = vars s @ [v]"
  by (simp add: store_put_def)

lemma store_set_vars:
  "vars (store_set v s) =
     (case store_position s (v_guid v) (v_name v) of
        None \<Rightarrow> vars s @ [v] | Some i \<Rightarrow> (vars s)[i := v])"
  by (auto simp: store_set_def store_put_def dest: store_position_Some split: option.splits)

lemma map_key_update:
  "store_position s (v_guid v) (v_name v) = Some i \<Longrightarrow>
   map v_key ((vars s)[i := v]) = map v_key (vars s)"
  by (drule store_position_Some) (simp add: map_update list_update_same_conv)

lemma store_set_ok: "store_ok s \<Longrightarrow> store_ok (store_set v s)"
  unfolding store_ok_def store_set_vars
  by (auto split: option.splits simp: map_key_update store_position_None simp del: map_update)

lemma set_update_distinct:
  assumes "i < length vs" and "distinct (map f vs)" and "f (vs ! i) = f v"
  shows "set (vs[i := v]) = insert v {w \<in> set vs. f w \<noteq> f v}"
proof -
  have "w \<in> set (vs[i := v]) \<longleftrightarrow> w = v \<or> (w \<in> set vs \<and> f w \<noteq> f v)" for w
  proof
    assume "w \<in> set (vs[i := v])"
    then obtain j where j: "j < length vs" "w = vs[i := v] ! j"
      by (auto simp: in_set_conv_nth)
    show "w = v \<or> (w \<in> set vs \<and> f w \<noteq> f v)"
    proof (cases "j = i")
      case True
      with j assms(1) show ?thesis by simp
    next
      case False
      with j have "w = vs ! j" by simp
      moreover from assms(2) have "f (vs ! j) \<noteq> f (vs ! i)"
        using False j(1) assms(1) by (auto simp: distinct_conv_nth)
      ultimately show ?thesis using j assms(3) by simp
    qed
  next
    assume "w = v \<or> (w \<in> set vs \<and> f w \<noteq> f v)"
    then show "w \<in> set (vs[i := v])"
    proof
      assume "w = v"
      with assms(1) show ?thesis by (simp add: set_update_memI)
    next
      assume a: "w \<in> set vs \<and> f w \<noteq> f v"
      then obtain j where j: "j < length vs" "w = vs ! j" by (auto simp: in_set_conv_nth)
      with a assms(3) have "j \<noteq> i" by auto
      with j have "w = vs[i := v] ! j" "j < length (vs[i := v])" by simp_all
      then show ?thesis by (simp only: nth_mem)
    qed
  qed
  then show ?thesis by blast
qed

lemma set_store_set:
  assumes "store_ok s"
  shows "set (vars (store_set v s)) = insert v {w \<in> set (vars s). v_key w \<noteq> v_key v}"
proof (cases "store_position s (v_guid v) (v_name v)")
  case None
  then have "v_key v \<notin> v_key ` set (vars s)" by (simp add: store_position_None)
  with None show ?thesis by (auto simp: store_set_vars image_iff)
next
  case (Some i)
  with store_position_Some [OF Some] assms show ?thesis
    by (simp add: store_set_vars store_ok_def set_update_distinct [where f = v_key])
qed

lemma store_find_set:
  assumes "store_ok s"
  shows "store_find (store_set v s) g n = (if (g, n) = v_key v then Some v else store_find s g n)"
proof (rule option_eqI)
  fix w
  have ok': "store_ok (store_set v s)" using assms by (rule store_set_ok)
  show "store_find (store_set v s) g n = Some w \<longleftrightarrow>
      (if (g, n) = v_key v then Some v else store_find s g n) = Some w"
    unfolding store_find_iff [OF ok'] set_store_set [OF assms]
    by (auto simp: store_find_iff [OF assms])
qed

lemma distinct_list_remove: "distinct xs \<Longrightarrow> i < length xs \<Longrightarrow>
    distinct (list_remove i xs) \<and> set (list_remove i xs) = set xs - {xs ! i}"
proof (induction xs arbitrary: i)
  case Nil
  then show ?case by simp
next
  case (Cons x xs)
  then show ?case by (cases i) (auto simp: nth_Cons')
qed

lemma map_list_remove: "map f (list_remove i xs) = list_remove i (map f xs)"
  by (simp add: list_remove_def take_map drop_map)

lemma store_delete_vars:
  "vars (store_delete k s) =
     (case store_position s (fst k) (snd k) of None \<Rightarrow> vars s | Some i \<Rightarrow> list_remove i (vars s))"
  by (auto simp: store_delete_def store_remove_def dest: store_position_Some split: option.splits)

lemma set_store_delete:
  assumes "store_ok s"
  shows "set (vars (store_delete k s)) = {w \<in> set (vars s). v_key w \<noteq> k}"
proof (cases "store_position s (fst k) (snd k)")
  case None
  then have "k \<notin> v_key ` set (vars s)" by (simp add: store_position_None)
  with None show ?thesis by (auto simp: store_delete_vars)
next
  case (Some i)
  then have i: "i < length (vars s)" "v_key (vars s ! i) = k"
    by (auto dest!: store_position_Some)
  have d: "distinct (vars s)" using assms by (simp add: store_ok_def distinct_map)
  have "w = vars s ! i" if "w \<in> set (vars s)" "v_key w = k" for w
  proof (rule inj_onD [where f = v_key])
    show "inj_on v_key (set (vars s))" using assms by (simp add: store_ok_def distinct_map)
  qed (use i that in simp_all)
  with i Some distinct_list_remove [OF d i(1)] show ?thesis
    by (auto simp: store_delete_vars)
qed

lemma store_delete_ok: "store_ok s \<Longrightarrow> store_ok (store_delete k s)"
  by (auto simp: store_ok_def store_delete_vars map_list_remove distinct_list_remove
      dest!: store_position_Some split: option.splits)

lemma store_find_delete:
  assumes "store_ok s"
  shows "store_find (store_delete k s) g n = (if (g, n) = k then None else store_find s g n)"
proof (rule option_eqI)
  fix w
  have ok': "store_ok (store_delete k s)" using assms by (rule store_delete_ok)
  show "store_find (store_delete k s) g n = Some w \<longleftrightarrow>
      (if (g, n) = k then None else store_find s g n) = Some w"
    unfolding store_find_iff [OF ok'] set_store_delete [OF assms]
    by (auto simp: store_find_iff [OF assms])
qed

section \<open>The contract of the store\<close>

text \<open>
  What the service relies on: the four operations behave as a map from keys to variables, and
  keep the invariant. Loading a list of variables one by one, which \<open>Image::variables\<close> and
  \<open>restore_transient\<close> do, then lets the last one of each key win.
\<close>

locale keyed_store =
  fixes empty :: 's
    and upd :: "'v \<Rightarrow> 's \<Rightarrow> 's"
    and del :: "'k \<Rightarrow> 's \<Rightarrow> 's"
    and look :: "'s \<Rightarrow> 'k \<Rightarrow> 'v option"
    and key :: "'v \<Rightarrow> 'k"
    and ok :: "'s \<Rightarrow> bool"
  assumes look_empty: "look empty k = None"
    and look_upd: "ok s \<Longrightarrow> look (upd v s) k = (if k = key v then Some v else look s k)"
    and look_del: "ok s \<Longrightarrow> look (del k' s) k = (if k = k' then None else look s k)"
    and look_key: "look s k = Some v \<Longrightarrow> key v = k"
    and ok_empty: "ok empty"
    and ok_upd: "ok s \<Longrightarrow> ok (upd v s)"
    and ok_del: "ok s \<Longrightarrow> ok (del k s)"
begin

lemma upd_upd_look: "ok s \<Longrightarrow> key v = key w \<Longrightarrow> look (upd v (upd w s)) k = look (upd v s) k"
  by (simp add: look_upd ok_upd)

lemma upd_commute:
  "ok s \<Longrightarrow> key v \<noteq> key w \<Longrightarrow> look (upd v (upd w s)) k = look (upd w (upd v s)) k"
  by (auto simp: look_upd ok_upd)

lemma ok_load: "ok s \<Longrightarrow> ok (fold upd vs s)"
  by (induction vs arbitrary: s) (auto intro: ok_upd)

lemma look_load:
  "ok s \<Longrightarrow> look (fold upd vs s) k =
     (case map_of (rev (map (\<lambda>v. (key v, v)) vs)) k of None \<Rightarrow> look s k | Some v \<Rightarrow> Some v)"
proof (induction vs arbitrary: s)
  case Nil
  then show ?case by simp
next
  case (Cons v vs)
  then show ?case
    by (auto simp: ok_upd look_upd map_add_def map_of_append split: option.splits)
qed

lemma look_load_distinct:
  assumes "distinct (map key vs)"
  shows "look (fold upd vs empty) k = Some v \<longleftrightarrow> v \<in> set vs \<and> key v = k"
proof -
  have d: "distinct (map fst (map (\<lambda>v. (key v, v)) vs))" using assms by (simp add: comp_def)
  then have "map_of (rev (map (\<lambda>v. (key v, v)) vs)) = map_of (map (\<lambda>v. (key v, v)) vs)"
    by (subst map_of_inject_set) (simp_all add: rev_map [symmetric])
  then have "look (fold upd vs empty) k = map_of (map (\<lambda>v. (key v, v)) vs) k"
    by (simp add: look_load [OF ok_empty] look_empty split: option.splits)
  with d show ?thesis by (auto simp: map_of_eq_Some_iff)
qed

end

interpretation kv: keyed_store store_default store_set store_delete store_lookup v_key store_ok
proof unfold_locales
  show "store_lookup store_default k = None" for k
    by (simp add: store_lookup_def store_find_map_of store_default_def)
  show "store_lookup (store_set v s) k = (if k = v_key v then Some v else store_lookup s k)"
    if "store_ok s" for s v k
    using that by (simp add: store_lookup_def store_find_set)
  show "store_lookup (store_delete k' s) k = (if k = k' then None else store_lookup s k)"
    if "store_ok s" for s k' k
    using that by (simp add: store_lookup_def store_find_delete)
  show "v_key v = k" if "store_lookup s k = Some v" for s k v
    using store_find_key [of s "fst k" "snd k" v] that by (simp add: store_lookup_def)
qed (auto intro: store_set_ok store_delete_ok)

section \<open>Room\<close>

text \<open>The room the non-volatile (or volatile) variables take, without saturation.\<close>

definition room :: "store \<Rightarrow> bool \<Rightarrow> nat" where
  "room s nv = (\<Sum>v | v \<in> set (vars s) \<and> non_volatile v = nv. stored_size v)"

lemma foldl_saturating: "a \<le> usize_max \<Longrightarrow>
    foldl (\<lambda>sum v. saturating_add sum (f v)) a vs = min usize_max (a + sum_list (map f vs))"
  by (induction vs arbitrary: a) (auto simp: saturating_add_def min_def)

lemma store_used_room: "store_ok s \<Longrightarrow> store_used s nv = min usize_max (room s nv)"
proof -
  assume "store_ok s"
  then have "distinct (filter (\<lambda>v. non_volatile v = nv) (vars s))"
    by (simp add: store_ok_def distinct_map)
  then have "sum_list (map stored_size (filter (\<lambda>v. non_volatile v = nv) (vars s))) = room s nv"
    by (simp add: room_def sum_list_distinct_conv_sum_set Collect_conj_eq conj_commute)
  then show ?thesis by (simp add: store_used_def foldl_saturating)
qed

lemma room_delete:
  assumes "store_ok s"
  shows "room s nv = room (store_delete k s) nv +
    (case store_lookup s k of
       None \<Rightarrow> 0 | Some w \<Rightarrow> if non_volatile w = nv then stored_size w else 0)"
proof -
  let ?A = "{v. v \<in> set (vars s) \<and> non_volatile v = nv}"
  have del: "{v. v \<in> set (vars (store_delete k s)) \<and> non_volatile v = nv} = {v \<in> ?A. v_key v \<noteq> k}"
    using set_store_delete [OF assms] by auto
  show ?thesis
  proof (cases "store_lookup s k")
    case None
    then have "{v \<in> ?A. v_key v \<noteq> k} = ?A"
      using store_find_iff [OF assms, of "fst k" "snd k"] by (auto simp: store_lookup_def)
    with None del show ?thesis by (simp add: room_def)
  next
    case (Some w)
    then have w: "w' \<in> set (vars s) \<and> v_key w' = k \<longleftrightarrow> w' = w" for w'
      using store_find_iff [OF assms, of "fst k" "snd k" w'] by (simp add: store_lookup_def) metis
    show ?thesis
    proof (cases "non_volatile w = nv")
      case True
      with w have "?A = insert w {v \<in> ?A. v_key v \<noteq> k}" "w \<notin> {v \<in> ?A. v_key v \<noteq> k}" by auto
      then have "sum stored_size ?A = stored_size w + sum stored_size {v \<in> ?A. v_key v \<noteq> k}"
        by (metis (no_types, lifting) List.finite_set finite_insert finite_subset mem_Collect_eq
            subsetI sum.insert)
      with Some True del show ?thesis by (simp add: room_def)
    next
      case False
      have "v_key v \<noteq> k" if "v \<in> ?A" for v
        using w [of v] that False by auto
      then have "{v \<in> ?A. v_key v \<noteq> k} = ?A" by blast
      with Some False del show ?thesis by (simp add: room_def)
    qed
  qed
qed

lemma room_set:
  assumes "store_ok s"
  shows "room (store_set v s) nv =
    room (store_delete (v_key v) s) nv + (if non_volatile v = nv then stored_size v else 0)"
proof -
  let ?B = "{w. w \<in> set (vars (store_delete (v_key v) s)) \<and> non_volatile w = nv}"
  have "{w. w \<in> set (vars (store_set v s)) \<and> non_volatile w = nv} =
      (if non_volatile v = nv then insert v ?B else ?B)"
    using set_store_set [OF assms] set_store_delete [OF assms] by auto
  moreover have "v \<notin> ?B" "finite ?B" using set_store_delete [OF assms] by auto
  then have "sum stored_size (insert v ?B) = stored_size v + sum stored_size ?B" by (rule sum.insert [rotated])
  ultimately show ?thesis by (simp add: room_def)
qed

text \<open>With no saturation (every variable the service stores is far smaller), the stored size is
  the header, the name with its NUL and the data, rounded up to a multiple of four.\<close>

lemma nat_and_3: "(s :: nat) - (s AND 3) = s div 4 * 4"
proof -
  have "s AND 3 = s mod 4"
    using take_bit_eq_mask [of 2 s] by (simp add: take_bit_eq_mod mask_eq_exp_minus_1)
  then show ?thesis by (simp add: minus_mod_eq_div_mult)
qed

lemma stored_size_eq:
  "65 + 2 * length (v_name v) + length (v_data v) \<le> usize_max \<Longrightarrow>
   stored_size v = (65 + 2 * length (v_name v) + length (v_data v)) div 4 * 4"
  by (simp add: stored_size_def nat_and_3 saturating_add_def saturating_mul_def
      AUTH_VARIABLE_HEADER_SIZE_def Let_def algebra_simps)

end
