(* ===== verification/Uefi_Auth.thy ===== *)
theory Uefi_Auth
  imports Uefi_Pkcs7 Uefi_Siglist Uefi_Store
begin

text \<open>
  \<^verbatim>\<open>vk-uefi-vars/src/auth.rs\<close>: time-based authenticated variable writes. The descriptor in
  front of the data, the bytes a signature covers, and whom a signature must come from.
\<close>

definition WIN_CERT_HEADER :: nat where "WIN_CERT_HEADER = 8"
definition WIN_CERT_TYPE_EFI_GUID :: u16 where "WIN_CERT_TYPE_EFI_GUID = 0x0ef1"

datatype kind = Pk | Kek | Db

text \<open>\<open>s.encode_utf16()\<close> of an ASCII literal.\<close>

definition utf16 :: "string \<Rightarrow> u16 list" where
  "utf16 s = map of_char s"

definition auth_kind :: "guid \<Rightarrow> u16 list \<Rightarrow> kind option" where
  "auth_kind guid name =
     (if guid = GLOBAL_VARIABLE \<and> name = utf16 ''PK'' then Some Pk
      else if guid = GLOBAL_VARIABLE \<and> name = utf16 ''KEK'' then Some Kek
      else if guid = IMAGE_SECURITY_DATABASE
        \<and> (name = utf16 ''db'' \<or> name = utf16 ''dbx'' \<or> name = utf16 ''dbt'' \<or> name = utf16 ''dbr'')
      then Some Db
      else None)"

record authenticated =
  a_timestamp :: efi_time
  a_signature :: bytes
  a_payload :: bytes

definition auth_parse :: "bytes \<Rightarrow> authenticated option" where
  "auth_parse data = do {
     (ts, r) \<leftarrow> reader_take 16 data;
     (len, r) \<leftarrow> reader_u32 r;
     (_, r) \<leftarrow> reader_u16 r;
     (cert_type, r) \<leftarrow> reader_u16 r;
     (kind, r) \<leftarrow> reader_guid r;
     (if cert_type \<noteq> WIN_CERT_TYPE_EFI_GUID \<or> kind \<noteq> CERT_PKCS7 then None
      else do {
        l \<leftarrow> checked_sub (unat len) WIN_CERT_HEADER;
        sig_len \<leftarrow> checked_sub l 16;
        (signature, r) \<leftarrow> reader_take sig_len r;
        Some \<lparr>a_timestamp = EfiTime ts, a_signature = signature, a_payload = r\<rparr> }) }"

definition auth_split :: "bytes \<Rightarrow> status + authenticated" where
  "auth_split data =
     (case auth_parse data of
        None \<Rightarrow> Inl SECURITY_VIOLATION
      | Some auth \<Rightarrow>
          if \<not> is_clean (a_timestamp auth) then Inl SECURITY_VIOLATION else Inr auth)"

definition signed_content :: "u16 list \<Rightarrow> guid \<Rightarrow> u32 \<Rightarrow> authenticated \<Rightarrow> bytes" where
  "signed_content name guid attributes auth =
     (let name_bytes = ucs2_bytes name in
      take (saturating_sub (length name_bytes) 2) name_bytes @ guid_bytes guid
        @ to_le_bytes attributes @ time_bytes (a_timestamp auth) @ a_payload auth)"

definition signed_by_any :: "('u, 'k) crypto \<Rightarrow> bytes \<Rightarrow> bytes \<Rightarrow> bytes list \<Rightarrow> bool" where
  "signed_by_any c signature content keys =
     (case signed_data_parse c signature of
        None \<Rightarrow> False
      | Some sd \<Rightarrow>
          list_ex (\<lambda>trusted. sd_verify c sd content trusted)
            (List.map_filter (certificate_parse c) (concat (map siglist_certificates keys))))"

definition private_signer :: "('u, 'k) crypto \<Rightarrow> bytes \<Rightarrow> bytes \<Rightarrow> bytes option" where
  "private_signer c signature content = do {
     sd \<leftarrow> signed_data_parse c signature;
     top \<leftarrow> sd_top_level c sd;
     signer \<leftarrow> sd_signer sd;
     (if sd_verify c sd content top
      then Some (c_digest c Sha256 (tbs_sha256 c top @ x_subject signer))
      else None) }"

definition payload_fits :: "kind \<Rightarrow> bytes \<Rightarrow> bool" where
  "payload_fits kind payload =
     (if payload = [] then True
      else case siglist_parse payload of
        None \<Rightarrow> False
      | Some ls \<Rightarrow>
          (case kind of
             Pk \<Rightarrow> (case ls of
                 [l] \<Rightarrow> (sl_kind l = CERT_X509 \<or> sl_kind l = CERT_RSA2048) \<and> length (sl_entries l) = 1
               | _ \<Rightarrow> False)
           | Kek \<Rightarrow> list_all (\<lambda>l. sl_kind l = CERT_X509 \<or> sl_kind l = CERT_RSA2048) ls
           | Db \<Rightarrow> True))"

definition timestamp_ok :: "variable option \<Rightarrow> efi_time \<Rightarrow> bool \<Rightarrow> bool" where
  "timestamp_ok existing new app \<longleftrightarrow>
     app \<or> (case existing of None \<Rightarrow> True | Some v \<Rightarrow> later_than new (v_timestamp v))"

section \<open>The descriptor\<close>

lemma word_of_nat_unat_eq: "unat (w :: 'a :: len word) = n \<Longrightarrow> w = word_of_nat n"
  by (auto simp: unsigned_word_eqI)

text \<open>The EFI_VARIABLE_AUTHENTICATION_2 a caller sends: timestamp, WIN_CERTIFICATE_UEFI_GUID
  of \<open>length\<close> bytes with any revision, the signature; then the payload.\<close>

definition auth_encode :: "u16 \<Rightarrow> authenticated \<Rightarrow> bytes" where
  "auth_encode revision a =
     time_bytes (a_timestamp a)
       @ to_le_bytes (word_of_nat (WIN_CERT_HEADER + 16 + length (a_signature a)) :: u32)
       @ to_le_bytes revision @ to_le_bytes WIN_CERT_TYPE_EFI_GUID @ guid_bytes CERT_PKCS7
       @ a_signature a @ a_payload a"

lemma auth_parse_encode:
  assumes "time_ok (a_timestamp a)" and "WIN_CERT_HEADER + 16 + length (a_signature a) < 2 ^ 32"
  shows "auth_parse (auth_encode revision a) = Some a"
proof -
  define W :: u32 where "W = word_of_nat (WIN_CERT_HEADER + 16 + length (a_signature a))"
  have W: "unat W = WIN_CERT_HEADER + 16 + length (a_signature a)"
    unfolding W_def by (rule unat_u32_of_nat) (use assms(2) in simp)
  have "auth_encode revision a = time_bytes (a_timestamp a) @ to_le_bytes W
       @ to_le_bytes revision @ to_le_bytes WIN_CERT_TYPE_EFI_GUID @ guid_bytes CERT_PKCS7
       @ a_signature a @ a_payload a"
    by (simp only: auth_encode_def W_def)
  then show ?thesis
    using assms(1) W
    by (simp add: auth_parse_def reader_simps time_ok_def checked_sub_def)
qed

lemma auth_split_encode:
  assumes "time_ok (a_timestamp a)" and "is_clean (a_timestamp a)"
    and "WIN_CERT_HEADER + 16 + length (a_signature a) < 2 ^ 32"
  shows "auth_split (auth_encode revision a) = Inr a"
  using auth_parse_encode [OF assms(1,3)] assms(2) by (simp add: auth_split_def)

lemma auth_split_Inr:
  assumes "auth_split data = Inr a"
  shows "time_ok (a_timestamp a)" and "is_clean (a_timestamp a)"
    and "\<exists>revision. data = auth_encode revision a"
proof -
  from assms have p: "auth_parse data = Some a" and clean: "is_clean (a_timestamp a)"
    by (auto simp: auth_split_def split: option.splits if_splits)
  from p show "time_ok (a_timestamp a)"
    by (auto simp: auth_parse_def bind_eq_Some_conv reader_eq_Some time_ok_def split: if_splits)
  show "is_clean (a_timestamp a)" by (rule clean)
  from p obtain W :: u32 and rev :: u16 where W: "unat W = WIN_CERT_HEADER + 16 + length (a_signature a)"
    and d: "data = time_bytes (a_timestamp a) @ to_le_bytes W @ to_le_bytes rev
      @ to_le_bytes WIN_CERT_TYPE_EFI_GUID @ guid_bytes CERT_PKCS7 @ a_signature a @ a_payload a"
    by (fastforce simp: auth_parse_def bind_eq_Some_conv reader_eq_Some time_ok_def split: if_splits)
  from W have "W = word_of_nat (WIN_CERT_HEADER + 16 + length (a_signature a))"
    using word_of_nat_unat_eq by metis
  with d have "data = auth_encode rev a" by (simp only: auth_encode_def)
  then show "\<exists>revision. data = auth_encode revision a" ..
qed

lemma auth_split_Inl: "auth_split data = Inl s \<Longrightarrow> s = SECURITY_VIOLATION"
  by (auto simp: auth_split_def split: option.splits if_splits)

section \<open>Whom a signature comes from\<close>

text \<open>The contract of \<open>signed_by_any\<close>: some trusted certificate of the lists in \<open>keys\<close> such that
  every signer of the signature is one of its certificates, signed \<open>content\<close>, and reaches the
  trusted certificate by a path of signed certificates.\<close>

definition trusted_signature ::
  "('u, 'k) crypto \<Rightarrow> bytes \<Rightarrow> bytes \<Rightarrow> bytes list \<Rightarrow> bool"
where
  "trusted_signature c signature content keys \<longleftrightarrow>
     (\<exists>sd trusted raw data. signed_data_parse c signature = Some sd \<and> sd_signers sd \<noteq> []
        \<and> data \<in> set keys \<and> raw \<in> set (siglist_certificates data)
        \<and> certificate_parse c raw = Some trusted
        \<and> (\<forall>signer \<in> set (sd_signers sd). \<exists>cert k.
             signer_certificate sd signer = Some cert \<and> signer_signed c signer cert content
             \<and> k \<le> MAX_CHAIN \<and> chain_path c (sd_certificates sd) trusted k cert))"

lemma set_map_filter: "set (List.map_filter f xs) = {y. \<exists>x \<in> set xs. f x = Some y}"
  by (auto simp: List.map_filter_def image_iff) force

lemma signed_by_any_trusted:
  assumes "signed_by_any c signature content keys"
  shows "trusted_signature c signature content keys"
proof -
  from assms obtain sd trusted raw data where
    sd: "signed_data_parse c signature = Some sd" and v: "sd_verify c sd content trusted"
    and k: "data \<in> set keys" "raw \<in> set (siglist_certificates data)"
      "certificate_parse c raw = Some trusted"
    by (auto simp: signed_by_any_def list_ex_iff set_map_filter split: option.splits)
  have "\<exists>cert k. signer_certificate sd signer = Some cert \<and> signer_signed c signer cert content
    \<and> k \<le> MAX_CHAIN \<and> chain_path c (sd_certificates sd) trusted k cert"
    if "signer \<in> set (sd_signers sd)" for signer
    using v that chains_path unfolding sd_verify_iff by meson
  then show ?thesis
    using sd k signed_data_parse_signers [OF sd] unfolding trusted_signature_def by blast
qed

text \<open>A private signer's identity needs no trusted certificate: the chain to the top of the
  signature always holds, so for a single signer the signature itself is what is checked.\<close>

lemma private_signer_single:
  assumes "signed_data_parse c signature = Some sd" and "sd_signers sd = [signer]"
  shows "private_signer c signature content =
    (case signer_certificate sd signer of
       None \<Rightarrow> None
     | Some cert \<Rightarrow>
         if signer_signed c signer cert content
         then Some (c_digest c Sha256
           (tbs_sha256 c (top_level_loop c sd MAX_CHAIN cert) @ x_subject cert))
         else None)"
  using assms
  by (auto simp: private_signer_def sd_top_level_def sd_signer_def sd_verify_def chains_top_level
      split: option.splits)

end
