(* ===== verification/Uefi_Policy.thy ===== *)
theory Uefi_Policy
  imports Uefi_Store
begin

text \<open>
  \<^verbatim>\<open>vk-uefi-vars/src/policy.rs\<close>: edk2's variable policies, registered by the firmware and
  enforced on SetVariable. A policy is parsed from its entry and keeps it, so that a snapshot can
  register it again; the most specific policy that covers a variable decides.
\<close>

definition POLICY_ENTRY_REVISION :: u32 where "POLICY_ENTRY_REVISION = 0x00010000"
definition POLICY_ENTRY_SIZE :: nat where "POLICY_ENTRY_SIZE = 44"
definition NO_MIN_SIZE :: u32 where "NO_MIN_SIZE = 0"
definition LOCK_NONE :: u8 where "LOCK_NONE = 0"
definition LOCK_NOW :: u8 where "LOCK_NOW = 1"
definition LOCK_ON_CREATE :: u8 where "LOCK_ON_CREATE = 2"
definition LOCK_ON_VAR_STATE :: u8 where "LOCK_ON_VAR_STATE = 3"
definition MAX_WILDCARDS :: nat where "MAX_WILDCARDS = 255"

definition WILDCARD :: u16 where "WILDCARD = 0x23"

datatype lock =
  LockNone
| LockNow
| LockOnCreate
| LockOnVarState (l_guid: guid) (l_name: "u16 list") (l_value: u8)

record policy =
  p_raw :: bytes
  p_guid :: guid
  p_name :: "u16 list option"
  p_min_size :: u32
  p_max_size :: u32
  p_must_have :: u32
  p_cant_have :: u32
  p_lock :: lock

definition wildcards :: "u16 list \<Rightarrow> nat" where
  "wildcards name = length (filter (\<lambda>c. c = WILDCARD) name)"

text \<open>The lock of an entry: for LOCK_ON_VAR_STATE, the state variable between the entry's fixed
  part and the policy's name.\<close>

definition parse_lock :: "bytes \<Rightarrow> nat \<Rightarrow> u8 \<Rightarrow> lock option" where
  "parse_lock entry name_at lock_type =
     (if lock_type = LOCK_NONE then Some LockNone
      else if lock_type = LOCK_NOW then Some LockNow
      else if lock_type = LOCK_ON_CREATE then Some LockOnCreate
      else if lock_type = LOCK_ON_VAR_STATE then do {
        state \<leftarrow> codec_get entry POLICY_ENTRY_SIZE (saturating_sub name_at POLICY_ENTRY_SIZE);
        (guid, s) \<leftarrow> reader_guid state;
        (v, s) \<leftarrow> reader_u8 s;
        (_, s) \<leftarrow> reader_u8 s;
        name \<leftarrow> ucs2_name s;
        Some (LockOnVarState guid name v) }
      else None)"

definition is_var_state :: "lock \<Rightarrow> bool" where
  "is_var_state l = (case l of LockOnVarState _ _ _ \<Rightarrow> True | _ \<Rightarrow> False)"

definition parse_policy_name :: "bytes \<Rightarrow> nat \<Rightarrow> nat \<Rightarrow> u16 list option option" where
  "parse_policy_name entry name_at sz =
     (if name_at = sz then Some None
      else do {
        b \<leftarrow> codec_get entry name_at (saturating_sub sz name_at);
        name \<leftarrow> ucs2_name b;
        (if wildcards name > MAX_WILDCARDS then None else Some (Some name)) })"

definition policy_parse :: "bytes \<Rightarrow> policy option" where
  "policy_parse bytes = do {
     (version, r) \<leftarrow> reader_u32 bytes;
     (sz, r) \<leftarrow> reader_u16 r;
     (name_at, r) \<leftarrow> reader_u16 r;
     (guid, r) \<leftarrow> reader_guid r;
     (min_size, r) \<leftarrow> reader_u32 r;
     (max_size, r) \<leftarrow> reader_u32 r;
     (must_have, r) \<leftarrow> reader_u32 r;
     (cant_have, r) \<leftarrow> reader_u32 r;
     (lock_type, r) \<leftarrow> reader_u8 r;
     (if version \<noteq> POLICY_ENTRY_REVISION \<or> unat sz > length bytes \<or> unat sz < POLICY_ENTRY_SIZE
         \<or> max_size = 0 \<or> unat name_at > unat sz then None
      else do {
        entry \<leftarrow> codec_get bytes 0 (unat sz);
        lock \<leftarrow> parse_lock entry (unat name_at) lock_type;
        (if \<not> is_var_state lock \<and> unat name_at \<noteq> POLICY_ENTRY_SIZE then None
         else do {
           name \<leftarrow> parse_policy_name entry (unat name_at) (unat sz);
           Some \<lparr>p_raw = entry, p_guid = guid, p_name = name, p_min_size = min_size,
             p_max_size = max_size, p_must_have = must_have, p_cant_have = cant_have,
             p_lock = lock\<rparr> }) }) }"

text \<open>\<open>char::is_ascii_hexdigit\<close> of a code unit: 0-9, A-F, a-f.\<close>

definition is_ascii_hexdigit :: "u16 \<Rightarrow> bool" where
  "is_ascii_hexdigit c \<longleftrightarrow>
     0x30 \<le> c \<and> c \<le> 0x39 \<or> 0x41 \<le> c \<and> c \<le> 0x46 \<or> 0x61 \<le> c \<and> c \<le> 0x66"

definition policy_matches :: "policy \<Rightarrow> guid \<Rightarrow> u16 list \<Rightarrow> bool" where
  "policy_matches p guid name =
     (if p_guid p \<noteq> guid then False
      else case p_name p of
        None \<Rightarrow> True
      | Some pattern \<Rightarrow>
          length pattern = length name
          \<and> list_all (\<lambda>(q, c). if q = WILDCARD then is_ascii_hexdigit c else q = c)
              (zip pattern name))"

definition policy_priority :: "policy \<Rightarrow> nat" where
  "policy_priority p = (case p_name p of None \<Rightarrow> MAX_WILDCARDS | Some n \<Rightarrow> wildcards n)"

record policies =
  ps_list :: "policy list"
  ps_enabled :: bool
  ps_locked :: bool

definition policies_default :: policies where
  "policies_default = \<lparr>ps_list = [], ps_enabled = True, ps_locked = False\<rparr>"

definition policies_save :: "policies \<Rightarrow> bool \<times> bool \<times> bytes list" where
  "policies_save ps = (ps_enabled ps, ps_locked ps, map p_raw (ps_list ps))"

definition policies_restore :: "bool \<Rightarrow> bool \<Rightarrow> bytes list \<Rightarrow> policies" where
  "policies_restore enabled locked entries =
     \<lparr>ps_list = List.map_filter policy_parse entries, ps_enabled = enabled, ps_locked = locked\<rparr>"

definition policies_disable :: "policies \<Rightarrow> status" where
  "policies_disable ps = (if \<not> ps_enabled ps then ALREADY_STARTED else WRITE_PROTECTED)"

definition policies_lock :: "policies \<Rightarrow> policies" where
  "policies_lock ps = ps\<lparr>ps_locked := True\<rparr>"

definition policies_register :: "policy \<Rightarrow> policies \<Rightarrow> status \<times> policies" where
  "policies_register p ps =
     (if ps_locked ps then (WRITE_PROTECTED, ps)
      else
        let taken = (case p_name p of
            Some name \<Rightarrow> list_ex (\<lambda>q. policy_priority q = 0 \<and> policy_matches q (p_guid p) name) (ps_list ps)
          | None \<Rightarrow> list_ex (\<lambda>q. p_guid q = p_guid p \<and> p_name q = None) (ps_list ps)) in
        if taken then (ALREADY_STARTED, ps)
        else (SUCCESS, ps\<lparr>ps_list := ps_list ps @ [p]\<rparr>))"

text \<open>\<open>Iterator::min_by_key\<close>: the first of the least.\<close>

fun min_by_key :: "('a \<Rightarrow> nat) \<Rightarrow> 'a list \<Rightarrow> 'a option" where
  "min_by_key f [] = None"
| "min_by_key f (x # xs) =
     (case min_by_key f xs of
        None \<Rightarrow> Some x
      | Some y \<Rightarrow> if f x \<le> f y then Some x else Some y)"

definition policies_check ::
  "policies \<Rightarrow> guid \<Rightarrow> u16 list \<Rightarrow> u32 \<Rightarrow> nat \<Rightarrow> bool \<Rightarrow> (guid \<Rightarrow> u16 list \<Rightarrow> bytes option) \<Rightarrow> status"
where
  "policies_check ps guid name attributes sz exists state =
     (if \<not> ps_enabled ps then SUCCESS
      else case min_by_key policy_priority
                  (filter (\<lambda>p. policy_matches p guid name) (ps_list ps)) of
        None \<Rightarrow> SUCCESS
      | Some p \<Rightarrow>
          if (sz \<noteq> 0 \<or> attributes AND APPEND_WRITE \<noteq> 0)
            \<and> (let sz = (case u32_try_from sz of Some s \<Rightarrow> s | None \<Rightarrow> 0xffffffff) in
                 p_min_size p \<noteq> NO_MIN_SIZE \<and> sz < p_min_size p
                 \<or> sz > p_max_size p
                 \<or> attributes AND p_must_have p \<noteq> p_must_have p
                 \<or> attributes AND p_cant_have p \<noteq> 0)
          then INVALID_PARAMETER
          else
            let locked = (case p_lock p of
                LockNone \<Rightarrow> False
              | LockNow \<Rightarrow> True
              | LockOnCreate \<Rightarrow> exists
              | LockOnVarState g n v \<Rightarrow> state g n = Some [v]) in
            if locked then WRITE_PROTECTED else SUCCESS)"

section \<open>The most specific policy\<close>

lemma min_by_key_None [simp]: "min_by_key f xs = None \<longleftrightarrow> xs = []"
  by (cases xs) (auto split: option.splits)

lemma min_by_key_split:
  assumes "min_by_key f xs = Some x"
  shows "\<exists>pre post. xs = pre @ x # post \<and> (\<forall>y \<in> set pre. f x < f y) \<and> (\<forall>y \<in> set post. f x \<le> f y)"
  using assms
proof (induction xs arbitrary: x)
  case (Cons a xs)
  show ?case
  proof (cases "min_by_key f xs")
    case None
    then have "xs = []" "a = x" using Cons.prems by auto
    then show ?thesis by (intro exI [of _ "[]"]) simp
  next
    case (Some y)
    then obtain pre post where y: "xs = pre @ y # post" "\<forall>z \<in> set pre. f y < f z" "\<forall>z \<in> set post. f y \<le> f z"
      using Cons.IH by blast
    show ?thesis
    proof (cases "f a \<le> f y")
      case True
      then have "x = a" using Cons.prems Some by simp
      with True y show ?thesis by (intro exI [of _ "[]"] exI [of _ xs]) fastforce
    next
      case False
      then have "x = y" using Cons.prems Some by simp
      with False y show ?thesis by (intro exI [of _ "a # pre"] exI [of _ post]) auto
    qed
  qed
qed simp

lemma min_by_key_in: "min_by_key f xs = Some x \<Longrightarrow> x \<in> set xs"
  using min_by_key_split by fastforce

lemma min_by_key_le: "min_by_key f xs = Some x \<Longrightarrow> y \<in> set xs \<Longrightarrow> f x \<le> f y"
  using min_by_key_split [of f xs x] by (auto simp: le_less)

section \<open>An entry parses to the policy it came from\<close>

lemma policy_parse_raw:
  assumes "policy_parse b = Some p"
  shows "policy_parse (p_raw p) = Some p \<and> (\<exists>rest. b = p_raw p @ rest) \<and> length (p_raw p) < 65536"
proof -
  from assms obtain version sz name_at lock_type r1 r2 r3 r4 r5 r6 r7 r8 r where
    reads: "reader_u32 b = Some (version, r1)" "reader_u16 r1 = Some (sz, r2)"
      "reader_u16 r2 = Some (name_at, r3)" "reader_guid r3 = Some (p_guid p, r4)"
      "reader_u32 r4 = Some (p_min_size p, r5)" "reader_u32 r5 = Some (p_max_size p, r6)"
      "reader_u32 r6 = Some (p_must_have p, r7)" "reader_u32 r7 = Some (p_cant_have p, r8)"
      "reader_u8 r8 = Some (lock_type, r)"
    and c: "version = POLICY_ENTRY_REVISION" "\<not> unat sz > length b" "\<not> unat sz < POLICY_ENTRY_SIZE"
      "p_max_size p \<noteq> 0" "\<not> unat name_at > unat sz"
    and raw: "codec_get b 0 (unat sz) = Some (p_raw p)"
    and lock: "parse_lock (p_raw p) (unat name_at) lock_type = Some (p_lock p)"
      "is_var_state (p_lock p) \<or> unat name_at = POLICY_ENTRY_SIZE"
    and name: "parse_policy_name (p_raw p) (unat name_at) (unat sz) = Some (p_name p)"
    unfolding policy_parse_def by (auto simp: bind_eq_Some_conv split: if_splits)
  have b: "b = to_le_bytes version @ to_le_bytes sz @ to_le_bytes name_at
      @ guid_bytes (p_guid p) @ to_le_bytes (p_min_size p) @ to_le_bytes (p_max_size p)
      @ to_le_bytes (p_must_have p) @ to_le_bytes (p_cant_have p) @ lock_type # r"
    and g: "guid_ok (p_guid p)"
    using reads by (simp_all add: reader_eq_Some)
  have raw: "p_raw p = take (unat sz) b" using raw by (simp add: codec_get_eq_Some)
  from g have g16: "length (guid_bytes (p_guid p)) = 16" by (simp add: guid_ok_def)
  have len: "length (p_raw p) = unat sz" using raw c(2) by simp
  have read: "p_raw p = to_le_bytes version @ to_le_bytes sz @ to_le_bytes name_at
      @ guid_bytes (p_guid p) @ to_le_bytes (p_min_size p) @ to_le_bytes (p_max_size p)
      @ to_le_bytes (p_must_have p) @ to_le_bytes (p_cant_have p) @ lock_type # take (unat sz - 41) r"
    using raw c(3) g16 by (simp add: b POLICY_ENTRY_SIZE_def take_Cons')
  have get: "codec_get (p_raw p) 0 (unat sz) = Some (p_raw p)"
    using len unat_lt_u16 [of sz] by (simp add: codec_get_eq_Some usize_max_def)
  have "policy_parse (p_raw p) = Some p"
    using c g lock name len get unfolding policy_parse_def
    by (subst read) (simp add: reader_simps)
  moreover have "b = p_raw p @ drop (unat sz) b" using raw by simp
  ultimately show ?thesis using len unat_lt_u16 [of sz] by auto
qed

definition policies_ok :: "policies \<Rightarrow> bool" where
  "policies_ok ps \<longleftrightarrow> (\<forall>p \<in> set (ps_list ps). policy_parse (p_raw p) = Some p)"

lemma policies_default_ok [simp]: "policies_ok policies_default"
  by (simp add: policies_ok_def policies_default_def)

lemma policies_register_ok:
  "policies_ok ps \<Longrightarrow> policy_parse b = Some p \<Longrightarrow> policies_ok (snd (policies_register p ps))"
  using policy_parse_raw [of b p] by (auto simp: policies_ok_def policies_register_def Let_def)

lemma policies_lock_ok [simp]: "policies_ok (policies_lock ps) = policies_ok ps"
  by (simp add: policies_ok_def policies_lock_def)

lemma map_filter_raw:
  "\<forall>p \<in> set ps. policy_parse (p_raw p) = Some p \<Longrightarrow> List.map_filter policy_parse (map p_raw ps) = ps"
  by (induction ps) (auto simp: List.map_filter_def)

lemma policies_restore_save:
  assumes "policies_ok ps"
  shows "policies_restore (ps_enabled ps) (ps_locked ps) (map p_raw (ps_list ps)) = ps"
  using assms by (simp add: policies_restore_def policies_ok_def map_filter_raw)

end
