(* ===== verification/Uefi_Edk2.thy ===== *)
theory Uefi_Edk2
  imports Uefi_Store
begin

text \<open>
  \<^verbatim>\<open>vk-uefi-vars/src/edk2.rs\<close>: edk2's variable store flash image, which the non-volatile
  variables persist in. A firmware volume header, a variable store header, then the records. The
  reader takes what edk2 may have left (deleted records, a last copy winning); the writer
  compacts. Writing and reading back gives the variables written.
\<close>

definition STORE_HEADER_SIZE :: nat where "STORE_HEADER_SIZE = 28"
definition VARIABLE_STORE_FORMATTED :: u8 where "VARIABLE_STORE_FORMATTED = 0x5a"
definition VARIABLE_STORE_HEALTHY :: u8 where "VARIABLE_STORE_HEALTHY = 0xfe"
definition VARIABLE_DATA :: u16 where "VARIABLE_DATA = 0x55aa"
definition VAR_ADDED :: u8 where "VAR_ADDED = 0x3f"
definition VAR_IN_DELETED_TRANSITION :: u8 where "VAR_IN_DELETED_TRANSITION = 0xfe"
definition FVH_SIGNATURE :: u32 where "FVH_SIGNATURE = 0x4856465f"

datatype store_error = NotAStore string | Full

text \<open>\<open>From<Short> for StoreError\<close>.\<close>

abbreviation truncated :: store_error where
  "truncated \<equiv> NotAStore ''truncated''"

record image =
  im_bytes :: bytes
  im_store :: nat
  im_store_size :: nat

text \<open>The fields of EFI_FIRMWARE_VOLUME_HEADER and of VARIABLE_STORE_HEADER that are checked.\<close>

definition fv_header :: "bytes \<Rightarrow> (guid \<times> u64 \<times> u32 \<times> nat) option" where
  "fv_header bytes = do {
     (_, fv) \<leftarrow> reader_take 16 bytes;
     (fs, fv) \<leftarrow> reader_guid fv;
     (len, fv) \<leftarrow> reader_u64 fv;
     (signature, fv) \<leftarrow> reader_u32 fv;
     (_, fv) \<leftarrow> reader_u32 fv;
     (header_length, fv) \<leftarrow> reader_u16 fv;
     Some (fs, len, signature, unat header_length) }"

definition store_header :: "bytes \<Rightarrow> nat \<Rightarrow> (guid \<times> nat \<times> u8 \<times> u8) option" where
  "store_header bytes header_length = do {
     st \<leftarrow> codec_get bytes header_length STORE_HEADER_SIZE;
     (sig, st) \<leftarrow> reader_guid st;
     (sz, st) \<leftarrow> reader_u32 st;
     (format, st) \<leftarrow> reader_u8 st;
     (state, st) \<leftarrow> reader_u8 st;
     Some (sig, unat sz, format, state) }"

definition image_parse :: "bytes \<Rightarrow> store_error + image" where
  "image_parse bytes =
     sum_bind (ok_or truncated (fv_header bytes)) (\<lambda>(fs, len, signature, header_length).
     if signature \<noteq> FVH_SIGNATURE \<or> fs \<noteq> SYSTEM_NV_DATA_FV
     then Inl (NotAStore ''no NV data firmware volume header'')
     else if unat len > length bytes
     then Inl (NotAStore ''firmware volume longer than the image'')
     else sum_bind (ok_or truncated (store_header bytes header_length)) (\<lambda>(sig, sz, format, state).
       if sig \<noteq> AUTHENTICATED_VARIABLE
       then Inl (NotAStore ''not the authenticated variable format'')
       else if format \<noteq> VARIABLE_STORE_FORMATTED \<or> state \<noteq> VARIABLE_STORE_HEALTHY
       then Inl (NotAStore ''variable store not formatted'')
       else if (case checked_add header_length sz of None \<Rightarrow> True | Some e \<Rightarrow> e > length bytes)
       then Inl (NotAStore ''variable store larger than the image'')
       else Inr \<lparr>im_bytes = bytes, im_store = header_length, im_store_size = sz\<rparr>))"

definition image_capacity :: "image \<Rightarrow> nat" where
  "image_capacity im = saturating_sub (im_store_size im) STORE_HEADER_SIZE"

section \<open>Reading the variables\<close>

record var_header =
  h_state :: u8
  h_attributes :: u32
  h_timestamp :: bytes
  h_name_size :: nat
  h_data_size :: nat
  h_vendor :: guid

text \<open>The fields of AUTHENTICATED_VARIABLE_HEADER after its StartId.\<close>

definition read_var_header :: "reader \<Rightarrow> var_header option" where
  "read_var_header h = do {
     (state, h) \<leftarrow> reader_u8 h;
     (_, h) \<leftarrow> reader_u8 h;
     (attributes, h) \<leftarrow> reader_u32 h;
     (_, h) \<leftarrow> reader_u64 h;
     (ts, h) \<leftarrow> reader_take 16 h;
     (_, h) \<leftarrow> reader_u32 h;
     (name_size, h) \<leftarrow> reader_u32 h;
     (data_size, h) \<leftarrow> reader_u32 h;
     (vendor, h) \<leftarrow> reader_guid h;
     Some \<lparr>h_state = state, h_attributes = attributes, h_timestamp = ts,
       h_name_size = unat name_size, h_data_size = unat data_size, h_vendor = vendor\<rparr> }"

text \<open>The variable a header describes, when it was added and not deleted, and where the next
  header is.\<close>

definition scan_variable ::
  "bytes \<Rightarrow> nat \<Rightarrow> nat \<Rightarrow> var_header \<Rightarrow> store_error + variable option \<times> nat"
where
  "scan_variable bytes end name_at h =
     sum_bind (ok_or truncated (checked_add name_at (h_name_size h))) (\<lambda>data_at.
     sum_bind (ok_or truncated (checked_add data_at (h_data_size h))) (\<lambda>var_end.
     if var_end > end then Inl (NotAStore ''a variable runs past the store'')
     else sum_bind
       (if h_state h = VAR_ADDED \<or> h_state h = VAR_ADDED AND VAR_IN_DELETED_TRANSITION
        then
          sum_bind (ok_or truncated (codec_get bytes name_at (h_name_size h))) (\<lambda>b.
          sum_bind (ok_or (NotAStore ''a variable name is not NUL-terminated'') (ucs2_name b)) (\<lambda>name.
          sum_bind (ok_or truncated (codec_get bytes data_at (h_data_size h))) (\<lambda>data.
          Inr (Some \<lparr>v_guid = h_vendor h, v_name = name,
            v_attributes = h_attributes h AND STORED_ATTRIBUTES, v_data = data,
            v_timestamp = EfiTime (h_timestamp h)\<rparr>))))
        else Inr None) (\<lambda>var.
       sum_bind (ok_or truncated (align_up var_end 4)) (\<lambda>at. Inr (var, at)))))"

text \<open>One turn of the loop at offset \<open>at\<close>: \<open>Inr None\<close> leaves it.\<close>

definition scan_step ::
  "bytes \<Rightarrow> nat \<Rightarrow> nat \<Rightarrow> store_error + (variable option \<times> nat) option"
where
  "scan_step bytes end at =
     (case checked_add at AUTH_VARIABLE_HEADER_SIZE of
        None \<Rightarrow> Inr None
      | Some nxt \<Rightarrow>
          if nxt > end then Inr None
          else
            sum_bind (ok_or truncated (codec_get bytes at AUTH_VARIABLE_HEADER_SIZE)) (\<lambda>h.
            sum_bind (ok_or truncated (reader_u16 h)) (\<lambda>(start_id, h).
            if start_id \<noteq> VARIABLE_DATA then Inr None
            else
              sum_bind (ok_or truncated (read_var_header h)) (\<lambda>h.
              sum_bind (scan_variable bytes end nxt h) (\<lambda>next_var. Inr (Some next_var))))))"

lemma align_up_ge: "align_up v 4 = Some w \<Longrightarrow> v \<le> w \<and> w < v + 4 \<and> 4 dvd w"
  by (auto simp: align_up_4 split: if_splits)

lemma scan_variable_ge: "scan_variable bytes end name_at h = Inr (v, at') \<Longrightarrow> name_at \<le> at'"
  by (auto simp: scan_variable_def sum_bind_eq_Inr dest!: align_up_ge split: if_splits)

lemma scan_step_progress:
  "scan_step bytes end at = Inr (Some (v, at')) \<Longrightarrow> at + AUTH_VARIABLE_HEADER_SIZE \<le> at'
     \<and> at + AUTH_VARIABLE_HEADER_SIZE \<le> end"
  by (auto simp: scan_step_def sum_bind_eq_Inr dest!: scan_variable_ge
      split: option.splits if_splits)

function scan_variables :: "bytes \<Rightarrow> nat \<Rightarrow> nat \<Rightarrow> store \<Rightarrow> store_error + store" where
  "scan_variables bytes end at st =
     (case scan_step bytes end at of
        Inl e \<Rightarrow> Inl e
      | Inr None \<Rightarrow> Inr st
      | Inr (Some (v, at')) \<Rightarrow>
          scan_variables bytes end at' (case v of None \<Rightarrow> st | Some v \<Rightarrow> store_set v st))"
  by pat_completeness auto
termination
  by (relation "measure (\<lambda>(bytes, end, at, st). end - at)")
    (auto dest!: scan_step_progress simp: AUTH_VARIABLE_HEADER_SIZE_def)

declare scan_variables.simps [simp del]

definition image_variables :: "image \<Rightarrow> store_error + store" where
  "image_variables im =
     sum_bind (ok_or truncated (checked_add (im_store im) STORE_HEADER_SIZE)) (\<lambda>start.
     sum_bind (ok_or truncated (checked_add (im_store im) (im_store_size im))) (\<lambda>end.
     scan_variables (im_bytes im) end start store_default))"

section \<open>Writing them\<close>

definition edk2_record :: "variable \<Rightarrow> bytes option" where
  "edk2_record v = do {
     let name = ucs2_bytes (v_name v);
     name_size \<leftarrow> u32_try_from (length name);
     data_size \<leftarrow> u32_try_from (length (v_data v));
     Some (to_le_bytes VARIABLE_DATA @ [VAR_ADDED, 0] @ to_le_bytes (v_attributes v)
       @ to_le_bytes (0 :: u64) @ time_bytes (v_timestamp v) @ to_le_bytes (0 :: u32)
       @ to_le_bytes name_size @ to_le_bytes data_size @ guid_bytes (v_guid v)
       @ name @ v_data v) }"

text \<open>The loop over the variables: the area as written so far, and the error that stopped it.\<close>

fun write_records :: "bytes \<Rightarrow> nat \<Rightarrow> variable list \<Rightarrow> store_error option \<times> bytes" where
  "write_records area at [] = (None, area)"
| "write_records area at (v # vs) =
     (case edk2_record v of
        None \<Rightarrow> (Some Full, area)
      | Some record \<Rightarrow>
          (case checked_add at (length record) of
             None \<Rightarrow> (Some Full, area)
           | Some record_end \<Rightarrow>
               if record_end > length area then (Some Full, area)
               else (case codec_put area at record of
                   None \<Rightarrow> (Some truncated, area)
                 | Some area \<Rightarrow>
                     (case align_up record_end 4 of
                        None \<Rightarrow> (Some Full, area)
                      | Some at \<Rightarrow> write_records area at vs))))"

text \<open>\<open>write\<close> fills the area before it lays out the records, so an error leaves the image
  changed: the result carries it either way.\<close>

definition image_write :: "image \<Rightarrow> store \<Rightarrow> store_error option \<times> image" where
  "image_write im st =
     (case checked_add (im_store im) STORE_HEADER_SIZE of
        None \<Rightarrow> (Some truncated, im)
      | Some start \<Rightarrow>
          (case checked_add (im_store im) (im_store_size im) of
             None \<Rightarrow> (Some truncated, im)
           | Some end \<Rightarrow>
               (case slice_get (im_bytes im) start end of
                  None \<Rightarrow> (Some truncated, im)
                | Some area \<Rightarrow>
                    (case write_records (replicate (length area) 0xff) 0
                            (filter non_volatile (vars st)) of
                       (e, area) \<Rightarrow> (e, im\<lparr>im_bytes := splice (im_bytes im) start area\<rparr>)))))"

section \<open>A record is read back as the variable written\<close>

text \<open>What every variable of the service is: names without NUL, attributes the store keeps.\<close>

definition variable_ok :: "variable \<Rightarrow> bool" where
  "variable_ok v \<longleftrightarrow> guid_ok (v_guid v) \<and> time_ok (v_timestamp v) \<and> 0 \<notin> set (v_name v)
     \<and> v_attributes v AND STORED_ATTRIBUTES = v_attributes v"

lemma edk2_record_Some:
  assumes "edk2_record v = Some r"
  shows "\<exists>(N :: u32) (D :: u32). unat N = 2 * length (v_name v) + 2 \<and> unat D = length (v_data v)
    \<and> r = to_le_bytes VARIABLE_DATA @ [VAR_ADDED, 0] @ to_le_bytes (v_attributes v)
       @ to_le_bytes (0 :: u64) @ time_bytes (v_timestamp v) @ to_le_bytes (0 :: u32)
       @ to_le_bytes N @ to_le_bytes D @ guid_bytes (v_guid v)
       @ ucs2_bytes (v_name v) @ v_data v"
  using assms by (auto simp: edk2_record_def bind_eq_Some_conv u32_try_from_eq_Some)

lemma edk2_record_length:
  assumes "edk2_record v = Some r" and "variable_ok v"
  shows "length r = 60 + (2 * length (v_name v) + 2) + length (v_data v)"
  using edk2_record_Some [OF assms(1)] assms(2)
  by (auto simp: variable_ok_def guid_ok_def time_ok_def)

lemma scan_step_record:
  assumes r: "edk2_record v = Some r" and ok: "variable_ok v"
    and e: "length Q + length r \<le> e" "e \<le> length (Q @ r @ X)" "e + 3 \<le> usize_max"
  shows "scan_step (Q @ r @ X) e (length Q)
    = Inr (Some (Some v, (length Q + length r + 3) div 4 * 4))"
proof -
  obtain N D :: u32 where N: "unat N = 2 * length (v_name v) + 2" and D: "unat D = length (v_data v)"
    and req: "r = to_le_bytes VARIABLE_DATA @ [VAR_ADDED, 0] @ to_le_bytes (v_attributes v)
       @ to_le_bytes (0 :: u64) @ time_bytes (v_timestamp v) @ to_le_bytes (0 :: u32)
       @ to_le_bytes N @ to_le_bytes D @ guid_bytes (v_guid v)
       @ ucs2_bytes (v_name v) @ v_data v"
    using edk2_record_Some [OF r] by blast
  define h where "h = [VAR_ADDED, 0] @ to_le_bytes (v_attributes v)
       @ to_le_bytes (0 :: u64) @ time_bytes (v_timestamp v) @ to_le_bytes (0 :: u32)
       @ to_le_bytes N @ to_le_bytes D @ guid_bytes (v_guid v)"
  have g: "guid_ok (v_guid v)" and ts: "length (time_bytes (v_timestamp v)) = 16"
    and nul: "0 \<notin> set (v_name v)" and att: "v_attributes v AND STORED_ATTRIBUTES = v_attributes v"
    using ok by (auto simp: variable_ok_def time_ok_def)
  have h58: "length h = 58" using ts g by (simp add: h_def guid_ok_def)
  have rh: "r = to_le_bytes VARIABLE_DATA @ h @ ucs2_bytes (v_name v) @ v_data v"
    by (simp add: req h_def)
  have len: "length r = 60 + (2 * length (v_name v) + 2) + length (v_data v)"
    using edk2_record_length [OF r ok] .
  have um: "length Q + length r + 3 \<le> usize_max" using e by linarith
  have get: "codec_get (Q @ r @ X) (length Q) 60 = Some (to_le_bytes VARIABLE_DATA @ h)"
    using um len h58 by (simp add: codec_get_eq_Some rh)
  have name: "codec_get (Q @ r @ X) (length Q + 60) (2 * length (v_name v) + 2)
      = Some (ucs2_bytes (v_name v))"
    using um len h58 by (simp add: codec_get_eq_Some rh)
  have data: "codec_get (Q @ r @ X) (length Q + 60 + (2 * length (v_name v) + 2)) (length (v_data v))
      = Some (v_data v)"
    using um len h58 by (simp add: codec_get_eq_Some rh)
  have head: "read_var_header h = Some \<lparr>h_state = VAR_ADDED, h_attributes = v_attributes v,
      h_timestamp = time_bytes (v_timestamp v), h_name_size = 2 * length (v_name v) + 2,
      h_data_size = length (v_data v), h_vendor = v_guid v\<rparr>"
    using g ts N D reader_guid_append [OF g, of "[]"]
    by (simp add: read_var_header_def h_def reader_simps)
  have var: "scan_variable (Q @ r @ X) e (length Q + 60) \<lparr>h_state = VAR_ADDED, h_attributes = v_attributes v,
      h_timestamp = time_bytes (v_timestamp v), h_name_size = 2 * length (v_name v) + 2,
      h_data_size = length (v_data v), h_vendor = v_guid v\<rparr>
      = Inr (Some v, (length Q + length r + 3) div 4 * 4)"
    using um len e(1) name data nul att
    by (simp add: scan_variable_def checked_add_def ucs2_name_bytes align_up_4 add.assoc)
  show ?thesis
    using um len e get head var
    by (simp add: scan_step_def AUTH_VARIABLE_HEADER_SIZE_def checked_add_def reader_simps)
qed

section \<open>The layout of the store area\<close>

text \<open>Records one after another, each padded with erased bytes to a multiple of 4.\<close>

definition align4 :: "nat \<Rightarrow> nat" where
  "align4 n = (n + 3) div 4 * 4"

definition pad4 :: "bytes \<Rightarrow> bytes" where
  "pad4 r = r @ replicate (align4 (length r) - length r) 0xff"

text \<open>The room taken: every record ends within the area, the padding of the last one may not.\<close>

fun layout_fits :: "nat \<Rightarrow> nat \<Rightarrow> bytes list \<Rightarrow> bool" where
  "layout_fits n at [] = True"
| "layout_fits n at (r # rs) \<longleftrightarrow> at + length r \<le> n \<and> layout_fits n (at + align4 (length r)) rs"

definition erased :: "nat \<Rightarrow> bytes \<Rightarrow> bytes" where
  "erased n p = take n (p @ replicate n 0xff)"

lemma length_erased [simp]: "length (erased n p) = n"
  by (simp add: erased_def)

lemma align4_ge: "n \<le> align4 n" and align4_dvd: "4 dvd align4 n" and align4_le: "align4 n \<le> n + 3"
  by (auto simp: align4_def)

lemma align4_add: "4 dvd a \<Longrightarrow> align4 (a + n) = a + align4 n"
  by (erule dvdE) (simp add: align4_def add.assoc distrib_right)

lemma length_pad4 [simp]: "length (pad4 r) = align4 (length r)"
  using align4_ge [of "length r"] by (simp add: pad4_def)

lemma drop_erased:
  assumes "length p = k"
  shows "drop k (erased n (p @ q)) = erased (n - k) q"
  using assms by (auto simp: erased_def drop_take min_def)

lemma take_erased:
  assumes "length r \<le> n"
  shows "take (length r) (erased n (r @ q)) = r"
  using assms by (simp add: erased_def)

lemma splice_erased:
  assumes "length p + length r \<le> n"
  shows "splice (erased n p) (length p) r = erased n (p @ pad4 r)"
proof -
  have "drop (length p + length r) (erased n p) = replicate (n - (length p + length r)) 0xff"
    using assms by (simp add: erased_def)
  moreover have "take (length p) (erased n p) = p" using assms by (simp add: erased_def)
  ultimately have "splice (erased n p) (length p) r = p @ r @ replicate (n - (length p + length r)) 0xff"
    by (simp add: splice_def)
  also have "\<dots> = erased n (p @ pad4 r)"
    using assms by (simp add: erased_def pad4_def flip: replicate_add)
  finally show ?thesis .
qed

lemma write_records_layout:
  assumes "write_records (erased n p) (length p) vs = (None, area)" and "4 dvd length p"
  shows "\<exists>rs. map edk2_record vs = map Some rs \<and> layout_fits n (length p) rs
    \<and> area = erased n (p @ concat (map pad4 rs))"
  using assms
proof (induction vs arbitrary: p)
  case Nil
  then show ?case by simp
next
  case (Cons v vs)
  then obtain r where r: "edk2_record v = Some r" "length p + length r \<le> n"
    and go: "write_records (splice (erased n p) (length p) r) (align4 (length p + length r)) vs = (None, area)"
    by (auto simp: codec_put_eq_Some align_up_4 align4_def add.assoc split: option.splits if_splits)
  have "length (p @ pad4 r) = align4 (length p + length r)" and d: "4 dvd length (p @ pad4 r)"
    using Cons.prems(2) by (auto simp: align4_add align4_dvd)
  with go have "write_records (erased n (p @ pad4 r)) (length (p @ pad4 r)) vs = (None, area)"
    using splice_erased [OF r(2)] by simp
  from Cons.IH [OF this d] obtain rs where "map edk2_record vs = map Some rs"
    "layout_fits n (length (p @ pad4 r)) rs" "area = erased n ((p @ pad4 r) @ concat (map pad4 rs))"
    by blast
  with r show ?case by (intro exI [of _ "r # rs"]) simp
qed

text \<open>Room for every record is room enough.\<close>

lemma write_records_succeeds:
  assumes "list_all2 (\<lambda>v r. edk2_record v = Some r) vs rs" and "4 dvd length p"
    and "layout_fits n (length p) rs" and "n + 3 \<le> usize_max"
  shows "fst (write_records (erased n p) (length p) vs) = None"
  using assms
proof (induction vs rs arbitrary: p rule: list_all2_induct)
  case (Cons v vs r rs)
  have "length (p @ pad4 r) = align4 (length p + length r)" and d: "4 dvd length (p @ pad4 r)"
    using Cons.prems(1) by (auto simp: align4_add align4_dvd)
  with Cons.prems Cons.IH [of "p @ pad4 r"] splice_erased [of p r n] Cons.hyps
  show ?case
    by (simp add: checked_add_def codec_put_def align_up_4 align4_def align4_add add.assoc)
qed simp

section \<open>Reading a layout\<close>

lemma scan_step_erased:
  assumes "length Q + length X = e" and "e + 3 \<le> usize_max" and "X = replicate k 0xff"
  shows "scan_step (Q @ X @ Y) e (length Q) = Inr None"
proof (cases "length Q + 60 \<le> e")
  case True
  then have k: "k \<ge> 60" using assms by simp
  have "X = replicate 2 0xff @ replicate 58 0xff @ replicate (k - 60) 0xff"
    unfolding assms(3) replicate_add [symmetric] using k by (intro arg_cong2 [where f = replicate]) auto
  moreover have "replicate 2 x = [x, x]" for x :: u8 by (simp add: numeral_2_eq_2)
  moreover have "to_le_bytes (0xffff :: u16) = [0xff, 0xff]"
    by (simp add: to_le_bytes_def le_of_nat_numeral)
  ultimately have "take 60 (X @ Y) = to_le_bytes (0xffff :: u16) @ replicate 58 0xff" by simp
  then have "codec_get (Q @ X @ Y) (length Q) 60 = Some (to_le_bytes (0xffff :: u16) @ replicate 58 0xff)"
    using True assms(1,2) by (simp add: codec_get_eq_Some)
  then show ?thesis
    using True assms(2) by (simp add: scan_step_def AUTH_VARIABLE_HEADER_SIZE_def checked_add_def
        reader_simps VARIABLE_DATA_def)
next
  case False
  then show ?thesis
    by (simp add: scan_step_def AUTH_VARIABLE_HEADER_SIZE_def checked_add_def)
qed

lemma scan_step_past: "e < at \<Longrightarrow> scan_step b e at = Inr None"
  by (simp add: scan_step_def AUTH_VARIABLE_HEADER_SIZE_def checked_add_def)

lemma scan_layout:
  assumes "list_all2 (\<lambda>v r. edk2_record v = Some r) vs rs" and "list_all variable_ok vs"
    and "layout_fits e at rs" and "4 dvd at" and "e \<le> length b" and "e + 3 \<le> usize_max"
    and "take (e - at) (drop at b) = erased (e - at) (concat (map pad4 rs))"
  shows "scan_variables b e at st = Inr (fold store_set vs st)"
  using assms
proof (induction vs rs arbitrary: at st rule: list_all2_induct)
  case Nil
  have "scan_step b e at = Inr None"
  proof (cases "at \<le> e")
    case True
    have "b = take at b @ take (e - at) (drop at b) @ drop (e - at) (drop at b)"
      by (simp only: append_take_drop_id)
    then have "b = take at b @ replicate (e - at) 0xff @ drop (e - at) (drop at b)"
      using Nil.prems by (simp add: erased_def)
    moreover have "length (take at b) = at" using True Nil.prems by simp
    ultimately show ?thesis
      using scan_step_erased [of "take at b" "replicate (e - at) 0xff" e "e - at" "drop (e - at) (drop at b)"]
        True Nil.prems by simp
  qed (simp add: scan_step_past)
  then show ?case by (subst scan_variables.simps) simp
next
  case (Cons v vs r rs)
  have fits: "at + length r \<le> e" "layout_fits e (at + align4 (length r)) rs"
    using Cons.prems(2) by auto
  have pre: "take (e - at) (drop at b) = erased (e - at) (pad4 r @ concat (map pad4 rs))"
    using Cons.prems(6) by simp
  then have "take (length r) (take (e - at) (drop at b)) = r"
    using fits(1) by (simp add: pad4_def take_erased)
  moreover have "min (length r) (e - at) = length r" using fits(1) by simp
  ultimately have "take (length r) (drop at b) = r" by (simp only: take_take)
  then have "b = take at b @ r @ drop (at + length r) b"
    by (metis append_take_drop_id drop_drop add.commute)
  moreover have "length (take at b) = at" using fits(1) Cons.prems by simp
  ultimately have step: "scan_step b e at = Inr (Some (Some v, at + align4 (length r)))"
    using scan_step_record [of v r "take at b" e "drop (at + length r) b"] Cons.hyps Cons.prems fits(1)
    by (simp add: align4_def [symmetric] align4_add)
  have "take (e - (at + align4 (length r))) (drop (at + align4 (length r)) b)
    = drop (align4 (length r)) (take (e - at) (drop at b))"
    by (simp add: drop_take add.commute)
  also have "\<dots> = erased (e - (at + align4 (length r))) (concat (map pad4 rs))"
    unfolding pre by (simp add: drop_erased)
  finally have "scan_variables b e (at + align4 (length r)) (store_set v st) = Inr (fold store_set vs (store_set v st))"
    using Cons.IH Cons.prems fits(2) align4_dvd by (simp add: dvd_add)
  with step show ?case by (subst scan_variables.simps) simp
qed

section \<open>The image\<close>

text \<open>What \<open>image_parse\<close> checks of the geometry (the store within the image, its size a 32-bit
  field), what it does not (a store that holds at least its header, at an offset that is a multiple
  of 4 past the firmware volume's own header), and that an image is a \<open>Vec\<close>.\<close>

definition image_ok :: "image \<Rightarrow> bool" where
  "image_ok im \<longleftrightarrow> im_store im + im_store_size im \<le> length (im_bytes im)
     \<and> STORE_HEADER_SIZE \<le> im_store_size im \<and> im_store_size im < 2 ^ 32
     \<and> 4 dvd im_store im \<and> 22 \<le> im_store im \<and> length (im_bytes im) < 2 ^ 63"

lemma list_all2_records:
  "map f vs = map Some rs \<Longrightarrow> list_all2 (\<lambda>v r. f v = Some r) vs rs"
  by (induction vs arbitrary: rs) (auto simp: Cons_eq_map_conv map_eq_Cons_conv)

lemma image_write_eq:
  assumes "image_ok im"
  shows "image_write im st =
    (case write_records (erased (image_capacity im) []) 0 (filter non_volatile (vars st)) of
       (e, area) \<Rightarrow> (e, im\<lparr>im_bytes := splice (im_bytes im) (im_store im + STORE_HEADER_SIZE) area\<rparr>))"
proof -
  have "length (take (im_store_size im - STORE_HEADER_SIZE) (drop (im_store im + STORE_HEADER_SIZE) (im_bytes im)))
      = image_capacity im"
    using assms by (auto simp: image_ok_def image_capacity_def saturating_sub_def min_def)
  then show ?thesis
    using assms by (simp add: image_write_def image_ok_def checked_add_def slice_get_def usize_max_def
        erased_def)
qed

lemma write_records_length: "write_records area at vs = (e, area') \<Longrightarrow> length area' = length area"
  by (induction vs arbitrary: area at)
    (auto simp: length_codec_put split: option.splits if_splits)

text \<open>A write keeps every byte outside the store's records, and its geometry, errors included.\<close>

lemma image_write_frame:
  assumes "image_ok im" and "image_write im st = (e, im')"
  shows "im_store im' = im_store im" and "im_store_size im' = im_store_size im"
    and "length (im_bytes im') = length (im_bytes im)"
    and "take (im_store im + STORE_HEADER_SIZE) (im_bytes im')
      = take (im_store im + STORE_HEADER_SIZE) (im_bytes im)"
    and "drop (im_store im + im_store_size im) (im_bytes im')
      = drop (im_store im + im_store_size im) (im_bytes im)"
proof -
  let ?at = "im_store im + STORE_HEADER_SIZE"
  obtain area where area: "write_records (erased (image_capacity im) []) 0 (filter non_volatile (vars st)) = (e, area)"
    and im': "im' = im\<lparr>im_bytes := splice (im_bytes im) ?at area\<rparr>"
    using assms(2) unfolding image_write_eq [OF assms(1)] by (auto split: prod.splits)
  have len: "?at + length area = im_store im + im_store_size im"
    using write_records_length [OF area] assms(1)
    by (simp add: image_ok_def image_capacity_def saturating_sub_def)
  have le: "?at + length area \<le> length (im_bytes im)" using len assms(1) by (simp add: image_ok_def)
  show "im_store im' = im_store im" "im_store_size im' = im_store_size im" using im' by simp_all
  show "length (im_bytes im') = length (im_bytes im)" using im' le by (simp add: length_splice)
  show "take ?at (im_bytes im') = take ?at (im_bytes im)" using im' le by (simp add: splice_def)
  show "drop (im_store im + im_store_size im) (im_bytes im')
      = drop (im_store im + im_store_size im) (im_bytes im)"
    unfolding len [symmetric] using im' le by (simp add: splice_def)
qed

lemma fold_store_set_fresh:
  "distinct (map v_key (vars st @ vs)) \<Longrightarrow> fold store_set vs st = st\<lparr>vars := vars st @ vs\<rparr>"
proof (induction vs arbitrary: st)
  case (Cons v vs)
  have "store_position st (v_guid v) (v_name v) = None"
    using Cons.prems by (auto simp: store_position_None)
  then have "store_set v st = st\<lparr>vars := vars st @ [v]\<rparr>" by (simp add: store_set_def store_put_def)
  with Cons show ?case by simp
qed simp

lemma image_write_variables:
  assumes im: "image_ok im" and w: "image_write im st = (None, im')"
    and ok: "store_ok st" "list_all variable_ok (vars st)"
  shows "image_variables im' = Inr \<lparr>vars = filter non_volatile (vars st)\<rparr>"
proof -
  let ?vs = "filter non_volatile (vars st)"
  let ?at = "im_store im + STORE_HEADER_SIZE" and ?e = "im_store im + im_store_size im"
  let ?n = "image_capacity im"
  obtain area where area: "write_records (erased ?n []) 0 ?vs = (None, area)"
    and im': "im' = im\<lparr>im_bytes := splice (im_bytes im) ?at area\<rparr>"
    using w unfolding image_write_eq [OF im] by (auto split: prod.splits)
  from write_records_layout [of ?n "[]" ?vs area] area obtain rs where
    rs: "map edk2_record ?vs = map Some rs" and fits: "layout_fits ?n 0 rs"
    and areq: "area = erased ?n (concat (map pad4 rs))" by auto
  have e: "?at + ?n = ?e" using im by (simp add: image_ok_def image_capacity_def saturating_sub_def)
  have le: "?e \<le> length (im_bytes im)" "length (im_bytes im) + 3 \<le> usize_max"
    using im by (simp_all add: image_ok_def usize_max_def)
  have fits': "layout_fits (a + n) (a + k) rs" if "layout_fits n k rs" for a n k
    using that by (induction rs arbitrary: k) (auto simp: add.assoc)
  have b: "take (?e - ?at) (drop ?at (im_bytes im')) = erased ?n (concat (map pad4 rs))"
  proof -
    have "length (take ?at (im_bytes im)) = ?at" using e le by simp
    then show ?thesis using e le by (simp add: im' areq splice_def)
  qed
  have "scan_variables (im_bytes im') ?e ?at store_default = Inr (fold store_set ?vs store_default)"
  proof (rule scan_layout)
    show "list_all2 (\<lambda>v r. edk2_record v = Some r) ?vs rs" by (rule list_all2_records [OF rs])
    show "list_all variable_ok ?vs" using ok(2) by (simp add: list_all_iff)
    show "layout_fits ?e ?at rs" using fits' [OF fits, of ?at] e by simp
    show "4 dvd ?at" using im by (simp add: image_ok_def STORE_HEADER_SIZE_def)
    show "?e \<le> length (im_bytes im')" using image_write_frame(3) [OF im w] le by simp
    show "?e + 3 \<le> usize_max" using le by simp
    show "take (?e - ?at) (drop ?at (im_bytes im')) = erased (?e - ?at) (concat (map pad4 rs))"
      using b e by (metis add_diff_cancel_left')
  qed
  also have "fold store_set ?vs store_default = \<lparr>vars = ?vs\<rparr>"
    using ok(1) by (subst fold_store_set_fresh) (auto simp: store_default_def store_ok_def distinct_map_filter)
  finally show ?thesis
    using im im' le by (simp add: image_variables_def checked_add_def image_ok_def)
qed

section \<open>Room enough\<close>

lemma stored_size_record:
  assumes "stored_size v < 2 ^ 32" and "variable_ok v"
  shows "\<exists>r. edk2_record v = Some r \<and> align4 (length r) = stored_size v"
proof -
  have le: "65 + 2 * length (v_name v) + length (v_data v) \<le> usize_max"
  proof (rule ccontr)
    assume "\<not> ?thesis"
    then have "stored_size v = usize_max div 4 * 4"
      by (auto simp: stored_size_def nat_and_3 saturating_add_def saturating_mul_def
          AUTH_VARIABLE_HEADER_SIZE_def Let_def min_def)
    then show False using assms(1) by (simp add: usize_max_def)
  qed
  note sz = stored_size_eq [OF le]
  have "2 * length (v_name v) + 2 < 4294967296" "length (v_data v) < 4294967296"
    using assms(1) align4_ge [of "62 + 2 * length (v_name v) + length (v_data v)"]
    by (auto simp: sz align4_def)
  then obtain r where "edk2_record v = Some r"
    by (auto simp: edk2_record_def u32_try_from_def)
  with edk2_record_length [OF this assms(2)] sz show ?thesis by (simp add: align4_def)
qed

lemma layout_fits_sum: "at + sum_list (map (\<lambda>r. align4 (length r)) rs) \<le> n \<Longrightarrow> layout_fits n at rs"
proof (induction rs arbitrary: at)
  case (Cons r rs)
  then show ?case using align4_ge [of "length r"] by (simp add: add.assoc)
qed simp

lemma records_of_stored_size:
  assumes "list_all variable_ok vs" and "sum_list (map stored_size vs) < 2 ^ 32"
  shows "\<exists>rs. list_all2 (\<lambda>v r. edk2_record v = Some r) vs rs
    \<and> sum_list (map (\<lambda>r. align4 (length r)) rs) = sum_list (map stored_size vs)"
  using assms
proof (induction vs)
  case (Cons v vs)
  then obtain rs where rs: "list_all2 (\<lambda>v r. edk2_record v = Some r) vs rs"
    "sum_list (map (\<lambda>r. align4 (length r)) rs) = sum_list (map stored_size vs)" by auto
  obtain r where "edk2_record v = Some r" "align4 (length r) = stored_size v"
    using stored_size_record [of v] Cons.prems by auto
  with rs show ?case by (intro exI [of _ "r # rs"]) simp
qed simp

text \<open>\<open>used(true)\<close> within the capacity is room for every record: the write succeeds.\<close>

lemma image_write_succeeds:
  assumes im: "image_ok im" and ok: "list_all variable_ok (vars st)"
    and used: "store_used st True \<le> image_capacity im"
  shows "\<exists>im'. image_write im st = (None, im')"
proof -
  let ?vs = "filter non_volatile (vars st)" and ?n = "image_capacity im"
  have n: "?n < 2 ^ 32" "?n + 3 \<le> usize_max"
    using im by (auto simp: image_ok_def image_capacity_def saturating_sub_def usize_max_def)
  have "store_used st True = min usize_max (sum_list (map stored_size ?vs))"
    by (simp add: store_used_def foldl_saturating)
  then have sum: "sum_list (map stored_size ?vs) \<le> ?n" using used n by (auto simp: min_def split: if_splits)
  have "list_all variable_ok ?vs" using ok by (simp add: list_all_iff)
  from records_of_stored_size [OF this] sum n obtain rs where
    rs: "list_all2 (\<lambda>v r. edk2_record v = Some r) ?vs rs"
    "sum_list (map (\<lambda>r. align4 (length r)) rs) = sum_list (map stored_size ?vs)" by auto
  then have "layout_fits ?n 0 rs" using sum by (intro layout_fits_sum) simp
  then have "fst (write_records (erased ?n []) 0 ?vs) = None"
    using write_records_succeeds [OF rs(1), of "[]" ?n] n by simp
  then show ?thesis
    unfolding image_write_eq [OF im] by (cases "write_records (erased ?n []) 0 ?vs") auto
qed

section \<open>An image written is an image read\<close>

lemma image_parse_Inr:
  assumes "image_parse b = Inr im"
  shows "im_bytes im = b" and "im_store im + im_store_size im \<le> length b"
    and "im_store_size im < 2 ^ 32" and "im_store im < 2 ^ 16"
  using assms
  by (auto simp: image_parse_def fv_header_def store_header_def sum_bind_eq_Inr bind_eq_Some_conv
      unat_lt_u32 unat_lt_u16 split: if_splits option.splits)

lemma fv_header_prefix:
  assumes "fv_header b = Some x" and "take 50 b' = take 50 b"
  shows "fv_header b' = Some x"
proof -
  from assms(1) obtain fs len signature hl zero attrs r where
    x: "x = (fs, len, signature, unat (hl :: u16))" and l: "length zero = 16" "guid_ok fs"
    and b: "b = (zero @ guid_bytes fs @ to_le_bytes len @ to_le_bytes signature
      @ to_le_bytes (attrs :: u32) @ to_le_bytes hl) @ r"
    by (auto simp: fv_header_def bind_eq_Some_conv reader_eq_Some)
  from l have "length (zero @ guid_bytes fs @ to_le_bytes len @ to_le_bytes signature
      @ to_le_bytes attrs @ to_le_bytes hl) = 50" by (simp add: guid_ok_def)
  then have "take 50 b = zero @ guid_bytes fs @ to_le_bytes len @ to_le_bytes signature
      @ to_le_bytes attrs @ to_le_bytes hl"
    unfolding b by (metis append_eq_conv_conj)
  then obtain r' where "b' = (zero @ guid_bytes fs @ to_le_bytes len @ to_le_bytes signature
      @ to_le_bytes attrs @ to_le_bytes hl) @ r'"
    using assms(2) append_take_drop_id [of 50 b'] by metis
  then show ?thesis
    using l by (simp add: x fv_header_def reader_simps)
qed

lemma store_header_cong:
  assumes "take STORE_HEADER_SIZE (drop h b') = take STORE_HEADER_SIZE (drop h b)"
    and "length b' = length b"
  shows "store_header b' h = store_header b h"
proof -
  have "codec_get b' h STORE_HEADER_SIZE = codec_get b h STORE_HEADER_SIZE"
    using assms by (auto simp: codec_get_def slice_get_def split: Option.bind_splits)
  then show ?thesis by (simp add: store_header_def)
qed

lemma image_parse_cong:
  assumes "image_parse b = Inr im" and "length b' = length b" and "take 50 b' = take 50 b"
    and "take STORE_HEADER_SIZE (drop (im_store im) b') = take STORE_HEADER_SIZE (drop (im_store im) b)"
  shows "image_parse b' = Inr (im\<lparr>im_bytes := b'\<rparr>)"
proof -
  from assms(1) obtain fs len sig where x: "fv_header b = Some (fs, len, sig, im_store im)"
    by (auto simp: image_parse_def sum_bind_eq_Inr split: if_splits)
  show ?thesis
    using assms(1,2) x fv_header_prefix [OF x assms(3)] store_header_cong [OF assms(4,2)]
    by (cases im; cases "store_header b (im_store im)")
      (auto simp: image_parse_def split: if_splits option.splits)
qed

text \<open>A write, even one that failed, leaves an image that parses, at the same place.\<close>

lemma image_write_parse:
  assumes "image_parse (im_bytes im) = Inr im" and "image_ok im" and "image_write im st = (e, im')"
  shows "image_parse (im_bytes im') = Inr im'" and "image_ok im'"
proof -
  note f = image_write_frame [OF assms(2,3)]
  have "im_store im + STORE_HEADER_SIZE \<ge> 50" using assms(2) by (simp add: image_ok_def STORE_HEADER_SIZE_def)
  then have 1: "take 50 (im_bytes im') = take 50 (im_bytes im)"
    using f(4) by (metis min.absorb1 take_take)
  have 2: "take STORE_HEADER_SIZE (drop (im_store im) (im_bytes im'))
      = take STORE_HEADER_SIZE (drop (im_store im) (im_bytes im))"
    using f(4) by (metis drop_take diff_add_inverse)
  have "im' = im\<lparr>im_bytes := im_bytes im'\<rparr>" using f(1,2) by simp
  with image_parse_cong [OF assms(1) f(3) 1 2] show "image_parse (im_bytes im') = Inr im'" by simp
  show "image_ok im'" using assms(2) f by (simp add: image_ok_def)
qed

end
