(* ===== verification/Uefi_Service.thy ===== *)
theory Uefi_Service
  imports Uefi_Auth Uefi_Policy Uefi_Edk2
begin

text \<open>
  \<^verbatim>\<open>vk-uefi-vars/src/lib.rs\<close>, the variable service itself: its state, the variables it keeps up
  to date, and GetVariable, GetNextVariableName, QueryVariableInfo and SetVariable on it. The
  messages that carry them are in \<open>Uefi_Communicate\<close>.
\<close>

definition SETUP_MODE :: string where "SETUP_MODE = ''SetupMode''"
definition SECURE_BOOT :: string where "SECURE_BOOT = ''SecureBoot''"
definition AUDIT_MODE :: string where "AUDIT_MODE = ''AuditMode''"
definition DEPLOYED_MODE :: string where "DEPLOYED_MODE = ''DeployedMode''"
definition SIGNATURE_SUPPORT :: string where "SIGNATURE_SUPPORT = ''SignatureSupport''"
definition VENDOR_KEYS :: string where "VENDOR_KEYS = ''VendorKeys''"
definition DEFAULTS :: "string list" where
  "DEFAULTS = [''PKDefault'', ''KEKDefault'', ''dbDefault'', ''dbxDefault'', ''dbtDefault'', ''dbrDefault'']"
definition SIGNERS :: string where "SIGNERS = ''VkAuthVarSigners''"

lemmas name_defs =
  SETUP_MODE_def SECURE_BOOT_def AUDIT_MODE_def DEPLOYED_MODE_def SIGNATURE_SUPPORT_def
  VENDOR_KEYS_def SIGNERS_def

definition internal_variable :: "guid \<Rightarrow> string \<Rightarrow> u32 \<Rightarrow> bytes \<Rightarrow> variable" where
  "internal_variable guid name attributes data =
     \<lparr>v_guid = guid, v_name = utf16 name, v_attributes = attributes, v_data = data,
      v_timestamp = time_default\<rparr>"

section \<open>Signer records\<close>

type_synonym signer_record = "guid \<times> u16 list \<times> bytes"

definition encode_signer_record :: "signer_record \<Rightarrow> bytes" where
  "encode_signer_record r = (case r of (guid, name, signer) \<Rightarrow>
     let bytes = ucs2_bytes name in
     case u16_try_from (length bytes) of
       None \<Rightarrow> []
     | Some len \<Rightarrow> guid_bytes guid @ to_le_bytes len @ bytes @ signer)"

definition encode_signer_records :: "signer_record list \<Rightarrow> bytes" where
  "encode_signer_records records = concat (map encode_signer_record records)"

definition read_signer_record :: "reader \<Rightarrow> (signer_record \<times> reader) option" where
  "read_signer_record r = do {
     (guid, r) \<leftarrow> reader_guid r;
     (len, r) \<leftarrow> reader_u16 r;
     (b, r) \<leftarrow> reader_take (unat len) r;
     name \<leftarrow> ucs2_name b;
     (signer, r) \<leftarrow> reader_take 32 r;
     Some ((guid, name, signer), r) }"

lemma read_signer_record_consumes:
  "read_signer_record r = Some (rec, r') \<Longrightarrow> length r' < length r"
  by (auto simp: read_signer_record_def bind_eq_Some_conv reader_eq_Some)

function read_signer_records :: "reader \<Rightarrow> signer_record list" where
  "read_signer_records r =
     (if r = [] then []
      else case read_signer_record r of
        None \<Rightarrow> []
      | Some (record, r) \<Rightarrow> record # read_signer_records r)"
  by pat_completeness auto
termination
  by (relation "measure length") (auto dest: read_signer_record_consumes)

declare read_signer_records.simps [simp del]

section \<open>The service\<close>

record service =
  sv_store :: store
  sv_image :: image
  sv_policies :: policies
  sv_locks :: "(guid \<times> u16 list) list"
  sv_end_of_dxe :: bool
  sv_runtime :: bool
  sv_nv_changes :: u64
  sv_nv_written :: u64

definition mark_written :: "service \<Rightarrow> service" where
  "mark_written sv = sv\<lparr>sv_nv_written := sv_nv_changes sv\<rparr>"

definition changed :: "bool \<Rightarrow> service \<Rightarrow> service" where
  "changed nv sv = (if nv then sv\<lparr>sv_nv_changes := sv_nv_changes sv + 1\<rparr> else sv)"

definition sv_data :: "service \<Rightarrow> guid \<Rightarrow> string \<Rightarrow> bytes option" where
  "sv_data sv guid name = map_option v_data (store_find (sv_store sv) guid (utf16 name))"

definition put_variable :: "variable \<Rightarrow> service \<Rightarrow> service" where
  "put_variable v sv =
     (let index = store_position (sv_store sv) (v_guid v) (v_name v);
          sv = changed (non_volatile v) sv
      in sv\<lparr>sv_store := store_put index v (sv_store sv)\<rparr>)"

definition put_internal :: "guid \<Rightarrow> string \<Rightarrow> u32 \<Rightarrow> bytes \<Rightarrow> service \<Rightarrow> service" where
  "put_internal guid name attributes data sv =
     put_variable (internal_variable guid name attributes data) sv"

definition signer_records :: "service \<Rightarrow> signer_record list" where
  "signer_records sv =
     (case sv_data sv CERT_DB SIGNERS of None \<Rightarrow> [] | Some data \<Rightarrow> read_signer_records data)"

definition put_signer_records :: "signer_record list \<Rightarrow> service \<Rightarrow> service" where
  "put_signer_records records sv =
     (if records = [] then
        (case store_position (sv_store sv) CERT_DB (utf16 SIGNERS) of
           Some i \<Rightarrow> changed True (sv\<lparr>sv_store := snd (store_remove i (sv_store sv))\<rparr>)
         | None \<Rightarrow> sv)
      else put_internal CERT_DB SIGNERS (NON_VOLATILE OR BOOTSERVICE_ACCESS)
        (encode_signer_records records) sv)"

definition signer_position :: "signer_record list \<Rightarrow> guid \<Rightarrow> u16 list \<Rightarrow> nat option" where
  "signer_position records guid name = position (\<lambda>(g, n, _). g = guid \<and> n = name) records"

definition forget_signer :: "guid \<Rightarrow> u16 list \<Rightarrow> service \<Rightarrow> service" where
  "forget_signer guid name sv =
     (let records = signer_records sv in
      case signer_position records guid name of
        None \<Rightarrow> sv
      | Some i \<Rightarrow> put_signer_records (list_remove i records) sv)"

definition bool_u8 :: "bool \<Rightarrow> u8" where
  "bool_u8 b = (if b then 1 else 0)"

definition first_byte :: "bytes \<Rightarrow> u8 option" where
  "first_byte data = map_option fst (split_first data)"

definition refresh_modes :: "service \<Rightarrow> service" where
  "refresh_modes sv =
     (let rt = BOOTSERVICE_ACCESS OR RUNTIME_ACCESS;
          pk = store_find (sv_store sv) GLOBAL_VARIABLE (utf16 ''PK'') \<noteq> None;
          enabled = (case store_find (sv_store sv) SECURE_BOOT_ENABLE_DISABLE (utf16 ''SecureBootEnable'') of
              None \<Rightarrow> True | Some v \<Rightarrow> first_byte (v_data v) \<noteq> Some 0);
          vendor = (case store_find (sv_store sv) VENDOR_KEYS_NV (utf16 ''VendorKeysNv'') of
              None \<Rightarrow> 1
            | Some v \<Rightarrow> (case first_byte (v_data v) of None \<Rightarrow> 1 | Some b \<Rightarrow> b));
          support = concat (map guid_bytes
            [CERT_SHA1, CERT_SHA256, CERT_SHA384, CERT_SHA512, CERT_RSA2048, CERT_X509]);
          sv = put_internal GLOBAL_VARIABLE SETUP_MODE rt [bool_u8 (\<not> pk)] sv;
          sv = put_internal GLOBAL_VARIABLE SECURE_BOOT rt [bool_u8 (pk \<and> enabled)] sv;
          sv = put_internal GLOBAL_VARIABLE AUDIT_MODE rt [0] sv;
          sv = put_internal GLOBAL_VARIABLE DEPLOYED_MODE rt [0] sv;
          sv = put_internal GLOBAL_VARIABLE SIGNATURE_SUPPORT rt support sv
      in put_internal GLOBAL_VARIABLE VENDOR_KEYS rt [vendor] sv)"

definition after_key_change :: "service \<Rightarrow> service" where
  "after_key_change sv =
     refresh_modes
       (case store_find (sv_store sv) VENDOR_KEYS_NV (utf16 ''VendorKeysNv'') of
          Some v \<Rightarrow> put_internal VENDOR_KEYS_NV ''VendorKeysNv'' (v_attributes v) [0] sv
        | None \<Rightarrow> sv)"

definition service_new :: "bytes \<Rightarrow> store_error + service" where
  "service_new bytes =
     sum_bind (image_parse bytes) (\<lambda>image.
     sum_bind (image_variables image) (\<lambda>st.
       let store = fold (store_put None) (filter non_volatile (vars st)) store_default;
           sv = refresh_modes \<lparr>sv_store = store, sv_image = image, sv_policies = policies_default,
             sv_locks = [], sv_end_of_dxe = False, sv_runtime = False, sv_nv_changes = 0,
             sv_nv_written = 0\<rparr>;
           records = signer_records sv;
           live = filter (\<lambda>(g, n, _). store_find (sv_store sv) g n \<noteq> None) records
       in Inr (if length live \<noteq> length records then put_signer_records live sv else sv)))"

text \<open>\<open>Ok(None)\<close> when nothing changed; an error leaves the image as the write left it.\<close>

definition take_image :: "service \<Rightarrow> (store_error + bytes option) \<times> service" where
  "take_image sv =
     (if sv_nv_changes sv = sv_nv_written sv then (Inr None, sv)
      else case image_write (sv_image sv) (sv_store sv) of
        (Some e, im) \<Rightarrow> (Inl e, sv\<lparr>sv_image := im\<rparr>)
      | (None, im) \<Rightarrow> (Inr (Some (im_bytes im)), sv\<lparr>sv_image := im\<rparr>))"

section \<open>Reading variables\<close>

definition visible :: "service \<Rightarrow> variable \<Rightarrow> bool" where
  "visible sv v \<longleftrightarrow> \<not> sv_runtime sv \<or> v_attributes v AND RUNTIME_ACCESS \<noteq> 0"

definition get_variable ::
  "service \<Rightarrow> guid \<Rightarrow> u16 list \<Rightarrow> nat \<Rightarrow> status \<times> u32 option \<times> bytes option"
where
  "get_variable sv guid name rm =
     (if name = [] then (NOT_FOUND, None, None)
      else case store_find (sv_store sv) guid name of
        None \<Rightarrow> (NOT_FOUND, None, None)
      | Some v \<Rightarrow>
          if \<not> visible sv v then (NOT_FOUND, None, None)
          else (if length (v_data v) > rm then BUFFER_TOO_SMALL else SUCCESS,
                Some (v_attributes v), Some (v_data v)))"

definition next_start :: "service \<Rightarrow> guid \<Rightarrow> u16 list \<Rightarrow> status + nat" where
  "next_start sv guid name =
     (if name = [] then Inr 0
      else case store_position (sv_store sv) guid name of
        Some i \<Rightarrow>
          (case store_get (sv_store sv) i of
             Some v \<Rightarrow> if visible sv v then ok_or NOT_FOUND (checked_add i 1) else Inl INVALID_PARAMETER
           | None \<Rightarrow> Inl INVALID_PARAMETER)
      | None \<Rightarrow> Inl INVALID_PARAMETER)"

definition next_variable :: "service \<Rightarrow> guid \<Rightarrow> u16 list \<Rightarrow> status + variable" where
  "next_variable sv guid name =
     sum_bind (next_start sv guid name) (\<lambda>start.
       ok_or NOT_FOUND
         (find (visible sv)
           (List.map_filter (store_get (sv_store sv)) [start ..< store_len (sv_store sv)])))"

definition nv_budget :: "service \<Rightarrow> bool \<Rightarrow> nat" where
  "nv_budget sv nv =
     (if nv then min NV_STORAGE_SIZE (image_capacity (sv_image sv)) else VOLATILE_STORAGE_SIZE)"

definition query :: "service \<Rightarrow> u32 \<Rightarrow> status + u64 \<times> u64 \<times> u64" where
  "query sv attributes =
     (let known = NON_VOLATILE OR BOOTSERVICE_ACCESS OR RUNTIME_ACCESS OR HARDWARE_ERROR_RECORD
            OR AUTHENTICATED_WRITE_ACCESS OR TIME_BASED_AUTHENTICATED_WRITE_ACCESS in
      if attributes AND known = 0
        \<or> attributes AND (RUNTIME_ACCESS OR BOOTSERVICE_ACCESS) = RUNTIME_ACCESS
        \<or> sv_runtime sv \<and> attributes AND RUNTIME_ACCESS = 0
      then Inl INVALID_PARAMETER
      else if attributes AND HARDWARE_ERROR_RECORD \<noteq> 0 \<or> attributes AND AUTHENTICATED_WRITE_ACCESS \<noteq> 0
      then Inl UNSUPPORTED
      else
        let nv = attributes AND NON_VOLATILE \<noteq> 0;
            mx = nv_budget sv nv;
            remaining = saturating_sub mx (store_used (sv_store sv) nv)
        in Inr (word_of_nat mx, word_of_nat remaining, word_of_nat MAX_VARIABLE_SIZE))"

end
