(* ===== verification/Uefi_Set.thy ===== *)
theory Uefi_Set
  imports Uefi_Service
begin

text \<open>
  \<^verbatim>\<open>vk-uefi-vars/src/lib.rs\<close>, SetVariable: the guards of a write in the order the code has them,
  whom an authenticated write must come from, and what an accepted write does to the store, the
  signer records and the variables that describe the Secure Boot state. A write that is refused
  changes nothing.
\<close>

definition read_only :: "service \<Rightarrow> guid \<Rightarrow> u16 list \<Rightarrow> bool" where
  "read_only sv guid name \<longleftrightarrow>
     guid = GLOBAL_VARIABLE
       \<and> (list_ex (\<lambda>n. name = utf16 n)
            [SETUP_MODE, SECURE_BOOT, AUDIT_MODE, DEPLOYED_MODE, SIGNATURE_SUPPORT, VENDOR_KEYS]
          \<or> list_ex (\<lambda>n. name = utf16 n) DEFAULTS)
     \<or> guid = CERT_DB
     \<or> guid = VENDOR_KEYS_NV
     \<or> guid = MEMORY_OVERWRITE_REQUEST_CONTROL_LOCK
     \<or> sv_end_of_dxe sv \<and> list_ex (\<lambda>(g, n). g = guid \<and> n = name) (sv_locks sv)"

definition check_secure_boot ::
  "('u, 'k) crypto \<Rightarrow> service \<Rightarrow> kind \<Rightarrow> guid \<Rightarrow> u16 list \<Rightarrow> u32 \<Rightarrow> authenticated \<Rightarrow> status option"
where
  "check_secure_boot c sv kind guid name attributes a =
     (let expected = NON_VOLATILE OR BOOTSERVICE_ACCESS OR RUNTIME_ACCESS
            OR TIME_BASED_AUTHENTICATED_WRITE_ACCESS in
      if attributes AND STORED_ATTRIBUTES \<noteq> expected then Some INVALID_PARAMETER
      else if \<not> payload_fits kind (a_payload a) then Some INVALID_PARAMETER
      else case sv_data sv GLOBAL_VARIABLE ''PK'' of
        None \<Rightarrow> None
      | Some pk \<Rightarrow>
          let content = signed_content name guid attributes a;
              keys = (case kind of
                  Pk \<Rightarrow> [pk]
                | Kek \<Rightarrow> [pk]
                | Db \<Rightarrow> (case sv_data sv GLOBAL_VARIABLE ''KEK'' of None \<Rightarrow> [] | Some kek \<Rightarrow> [kek]) @ [pk])
          in if signed_by_any c (a_signature a) content keys then None else Some SECURITY_VIOLATION)"

definition check_private ::
  "('u, 'k) crypto \<Rightarrow> service \<Rightarrow> guid \<Rightarrow> u16 list \<Rightarrow> u32 \<Rightarrow> authenticated \<Rightarrow> variable option
     \<Rightarrow> status + bytes option"
where
  "check_private c sv guid name attributes a existing =
     (case private_signer c (a_signature a) (signed_content name guid attributes a) of
        None \<Rightarrow> Inl SECURITY_VIOLATION
      | Some signer \<Rightarrow>
          let records = signer_records sv;
              known = signer_position records guid name
          in case (existing, known) of
               (Some _, Some i) \<Rightarrow>
                 if (case nth_get records i of None \<Rightarrow> True | Some (_, _, s) \<Rightarrow> s \<noteq> signer)
                 then Inl SECURITY_VIOLATION else Inr None
             | (Some _, None) \<Rightarrow> Inl SECURITY_VIOLATION
             | (None, _) \<Rightarrow>
                 let records = (case known of Some i \<Rightarrow> list_remove i records | None \<Rightarrow> records)
                 in Inr (Some (encode_signer_records (records @ [(guid, name, signer)]))))"

definition fits :: "service \<Rightarrow> variable list \<Rightarrow> bool" where
  "fits sv vs =
     list_all (\<lambda>nv.
         foldl (\<lambda>used v.
             saturating_add
               (saturating_sub used
                 (case store_find (sv_store sv) (v_guid v) (v_name v) of
                    None \<Rightarrow> 0 | Some old \<Rightarrow> stored_size old))
               (stored_size v))
           (store_used (sv_store sv) nv) (filter (\<lambda>v. non_volatile v = nv) vs)
         \<le> nv_budget sv nv)
       (filter (\<lambda>nv. list_ex (\<lambda>v. non_volatile v = nv) vs) [True, False])"

section \<open>The guards of a write\<close>

text \<open>The name and the attributes alone.\<close>

definition attributes_check :: "u16 list \<Rightarrow> u32 \<Rightarrow> status option" where
  "attributes_check name attributes =
     (let mask = STORED_ATTRIBUTES OR APPEND_WRITE;
          stored = attributes AND STORED_ATTRIBUTES in
      if name = [] then Some INVALID_PARAMETER
      else if attributes AND NOT (mask OR AUTHENTICATED_WRITE_ACCESS) \<noteq> 0 then Some INVALID_PARAMETER
      else if attributes AND AUTHENTICATED_WRITE_ACCESS \<noteq> 0 then Some UNSUPPORTED
      else if attributes AND (RUNTIME_ACCESS OR BOOTSERVICE_ACCESS) = RUNTIME_ACCESS
        \<or> stored AND NOT TIME_BASED_AUTHENTICATED_WRITE_ACCESS = NON_VOLATILE
        \<or> attributes AND HARDWARE_ERROR_RECORD \<noteq> 0
      then Some INVALID_PARAMETER
      else None)"

definition is_time_based :: "u32 \<Rightarrow> bool" where
  "is_time_based attributes \<longleftrightarrow> attributes AND TIME_BASED_AUTHENTICATED_WRITE_ACCESS \<noteq> 0"

definition is_append :: "u32 \<Rightarrow> bool" where
  "is_append attributes \<longleftrightarrow> attributes AND APPEND_WRITE \<noteq> 0"

definition split_payload :: "u32 \<Rightarrow> bytes \<Rightarrow> status + authenticated option" where
  "split_payload attributes data =
     (if is_time_based attributes then
        (case auth_split data of Inl s \<Rightarrow> Inl s | Inr a \<Rightarrow> Inr (Some a))
      else Inr None)"

definition payload_of :: "authenticated option \<Rightarrow> bytes \<Rightarrow> bytes" where
  "payload_of authenticated data = (case authenticated of None \<Rightarrow> data | Some a \<Rightarrow> a_payload a)"

definition name_size :: "u16 list \<Rightarrow> nat" where
  "name_size name = saturating_mul (saturating_add (length name) 1) 2"

definition existing_check :: "service \<Rightarrow> variable option \<Rightarrow> u32 \<Rightarrow> status option" where
  "existing_check sv existing attributes =
     (let stored = attributes AND STORED_ATTRIBUTES in
      case existing of
        Some v \<Rightarrow>
          if sv_runtime sv \<and> (v_attributes v AND RUNTIME_ACCESS = 0 \<or> \<not> non_volatile v)
          then Some WRITE_PROTECTED
          else if attributes \<noteq> 0 \<and> stored \<noteq> v_attributes v then Some INVALID_PARAMETER
          else None
      | None \<Rightarrow>
          if sv_runtime sv \<and> attributes \<noteq> 0
            \<and> (stored AND RUNTIME_ACCESS = 0 \<or> stored AND NON_VOLATILE = 0)
          then Some INVALID_PARAMETER
          else None)"

definition is_deleting :: "u32 \<Rightarrow> bytes \<Rightarrow> bool" where
  "is_deleting attributes payload \<longleftrightarrow> attributes = 0 \<or> payload = [] \<and> \<not> is_append attributes"

definition secure_boot_enable_bad :: "guid \<Rightarrow> u16 list \<Rightarrow> u32 \<Rightarrow> bytes \<Rightarrow> bool" where
  "secure_boot_enable_bad guid name attributes payload \<longleftrightarrow>
     guid = SECURE_BOOT_ENABLE_DISABLE \<and> name = utf16 ''SecureBootEnable''
     \<and> \<not> is_deleting attributes payload
     \<and> (attributes AND STORED_ATTRIBUTES \<noteq> NON_VOLATILE OR BOOTSERVICE_ACCESS \<or> length payload \<noteq> 1)"

text \<open>From the size of the write to the variable policies.\<close>

definition write_guards ::
  "service \<Rightarrow> guid \<Rightarrow> u16 list \<Rightarrow> u32 \<Rightarrow> bytes \<Rightarrow> variable option \<Rightarrow> status option"
where
  "write_guards sv guid name attributes payload existing =
     (if saturating_add (name_size name) (length payload) > MAX_VARIABLE_SIZE then Some INVALID_PARAMETER
      else case existing_check sv existing attributes of
        Some s \<Rightarrow> Some s
      | None \<Rightarrow>
          if read_only sv guid name then Some WRITE_PROTECTED
          else if secure_boot_enable_bad guid name attributes payload then Some INVALID_PARAMETER
          else
            let checked = policies_check (sv_policies sv) guid name attributes (length payload)
                  (existing \<noteq> None) (\<lambda>g n. map_option v_data (store_find (sv_store sv) g n))
            in if checked \<noteq> SUCCESS then Some checked else None)"

text \<open>The authentication of a write: its timestamp, and the signer records to store with the
  variable when this write gives it an owner.\<close>

definition authorize ::
  "('u, 'k) crypto \<Rightarrow> service \<Rightarrow> guid \<Rightarrow> u16 list \<Rightarrow> u32 \<Rightarrow> authenticated option \<Rightarrow> variable option
     \<Rightarrow> status + efi_time \<times> bytes option"
where
  "authorize c sv guid name attributes authenticated existing =
     (let kind = auth_kind guid name; time_based = is_time_based attributes in
      if kind \<noteq> None \<and> \<not> time_based then Inl INVALID_PARAMETER
      else if \<not> time_based
        \<and> (case existing of None \<Rightarrow> False
             | Some v \<Rightarrow> v_attributes v AND TIME_BASED_AUTHENTICATED_WRITE_ACCESS \<noteq> 0)
      then Inl WRITE_PROTECTED
      else sum_bind
        (case (authenticated, kind) of
           (Some a, Some k) \<Rightarrow>
             (case check_secure_boot c sv k guid name attributes a of
                None \<Rightarrow> Inr (a_timestamp a, None)
              | Some s \<Rightarrow> Inl s)
         | (Some a, None) \<Rightarrow>
             (case check_private c sv guid name attributes a existing of
                Inr records \<Rightarrow> Inr (a_timestamp a, records)
              | Inl s \<Rightarrow> Inl s)
         | (None, _) \<Rightarrow>
             Inr ((case existing of None \<Rightarrow> time_default | Some v \<Rightarrow> v_timestamp v), None))
        (\<lambda>r. case (authenticated, existing) of
           (Some a, Some v) \<Rightarrow>
             if \<not> timestamp_ok (Some v) (a_timestamp a) (is_append attributes)
             then Inl SECURITY_VIOLATION else Inr r
         | _ \<Rightarrow> Inr r))"

section \<open>What an accepted write does\<close>

definition delete_variable :: "guid \<Rightarrow> u16 list \<Rightarrow> service \<Rightarrow> status \<times> service" where
  "delete_variable guid name sv =
     (case store_position (sv_store sv) guid name of
        None \<Rightarrow> (NOT_FOUND, sv)
      | Some i \<Rightarrow>
          let (removed, store) = store_remove i (sv_store sv);
              sv = sv\<lparr>sv_store := store\<rparr>;
              sv = (case removed of Some v \<Rightarrow> changed (non_volatile v) sv | None \<Rightarrow> sv);
              sv = forget_signer guid name sv
          in (SUCCESS, if auth_kind guid name \<noteq> None then after_key_change sv else sv))"

definition new_data :: "guid \<Rightarrow> u16 list \<Rightarrow> u32 \<Rightarrow> bytes \<Rightarrow> variable option \<Rightarrow> bytes option" where
  "new_data guid name attributes payload existing =
     (case existing of
        Some v \<Rightarrow>
          if is_append attributes then
            if auth_kind guid name \<noteq> None then siglist_append (v_data v) payload
            else Some (v_data v @ payload)
          else Some payload
      | None \<Rightarrow> Some payload)"

definition new_variable ::
  "guid \<Rightarrow> u16 list \<Rightarrow> u32 \<Rightarrow> bytes \<Rightarrow> efi_time \<Rightarrow> variable option \<Rightarrow> variable"
where
  "new_variable guid name attributes data timestamp existing =
     \<lparr>v_guid = guid, v_name = name,
      v_attributes = (case existing of None \<Rightarrow> attributes AND STORED_ATTRIBUTES | Some v \<Rightarrow> v_attributes v),
      v_data = data,
      v_timestamp = (case existing of
          Some old \<Rightarrow>
            if is_append attributes \<and> later_than (v_timestamp old) timestamp then v_timestamp old
            else timestamp
        | None \<Rightarrow> timestamp)\<rparr>"

definition store_variable ::
  "guid \<Rightarrow> u16 list \<Rightarrow> u32 \<Rightarrow> bytes \<Rightarrow> efi_time \<Rightarrow> bytes option \<Rightarrow> variable option \<Rightarrow> service
     \<Rightarrow> status \<times> service"
where
  "store_variable guid name attributes payload timestamp signers existing sv =
     (case new_data guid name attributes payload existing of
        None \<Rightarrow> (INVALID_PARAMETER, sv)
      | Some data \<Rightarrow>
          if saturating_add (name_size name) (length data) > MAX_VARIABLE_SIZE then (OUT_OF_RESOURCES, sv)
          else
            let v = new_variable guid name attributes data timestamp existing;
                signers = map_option
                  (internal_variable CERT_DB SIGNERS (NON_VOLATILE OR BOOTSERVICE_ACCESS)) signers in
            if (case signers of None \<Rightarrow> False
                  | Some s \<Rightarrow> saturating_add (name_size (v_name s)) (length (v_data s)) > MAX_VARIABLE_SIZE)
            then (OUT_OF_RESOURCES, sv)
            else if \<not> fits sv (v # (case signers of None \<Rightarrow> [] | Some s \<Rightarrow> [s])) then (OUT_OF_RESOURCES, sv)
            else
              let sv = changed (non_volatile v) sv;
                  sv = sv\<lparr>sv_store := store_put (store_position (sv_store sv) guid name) v (sv_store sv)\<rparr>;
                  sv = (case signers of Some s \<Rightarrow> put_variable s sv | None \<Rightarrow> sv)
              in (SUCCESS, if auth_kind guid name \<noteq> None then after_key_change sv else sv))"

definition set_variable ::
  "('u, 'k) crypto \<Rightarrow> guid \<Rightarrow> u16 list \<Rightarrow> u32 \<Rightarrow> bytes \<Rightarrow> service \<Rightarrow> status \<times> service"
where
  "set_variable c guid name attributes data sv =
     (case attributes_check name attributes of
        Some s \<Rightarrow> (s, sv)
      | None \<Rightarrow>
          (case split_payload attributes data of
             Inl s \<Rightarrow> (s, sv)
           | Inr authenticated \<Rightarrow>
               let payload = payload_of authenticated data;
                   existing = store_find (sv_store sv) guid name in
               (case write_guards sv guid name attributes payload existing of
                  Some s \<Rightarrow> (s, sv)
                | None \<Rightarrow>
                    (case authorize c sv guid name attributes authenticated existing of
                       Inl s \<Rightarrow> (s, sv)
                     | Inr (timestamp, signers) \<Rightarrow>
                         if is_append attributes \<and> payload = [] \<and> existing = None then (SUCCESS, sv)
                         else if is_deleting attributes payload then delete_variable guid name sv
                         else store_variable guid name attributes payload timestamp signers existing sv))))"

end
