(* ===== verification/Uefi_Communicate.thy ===== *)
theory Uefi_Communicate
  imports Uefi_Set
begin

text \<open>
  \<^verbatim>\<open>vk-uefi-vars/src/lib.rs\<close>, the MM communication messages: one buffer in, handled in place,
  the same buffer out. A handler's buffer is the slice of the message it works on, returned as the
  handler left it; \<open>None\<close> as a status means the handler gave up without an answer.
\<close>

definition MM_HEADER :: nat where "MM_HEADER = 24"
definition VAR_HEADER :: nat where "VAR_HEADER = 16"
definition ACCESS_NAME :: nat where "ACCESS_NAME = 36"
definition NEXT_NAME :: nat where "NEXT_NAME = 24"
definition POLICY_HEADER :: nat where "POLICY_HEADER = 24"
definition POLICY_SIGNATURE :: u32 where
  "POLICY_SIGNATURE = from_le_bytes [0x56, 0x43, 0x50, 0x43]"
definition POLICY_REVISION :: u32 where "POLICY_REVISION = 1"
definition PAYLOAD_SIZE :: nat where "PAYLOAD_SIZE = MAX_VARIABLE_SIZE + 0x400"

datatype mm_error = Malformed | Unsupported

text \<open>\<open>put(p, offset, v).ok()?\<close> and the rest of the handler.\<close>

definition put_then ::
  "bytes \<Rightarrow> nat \<Rightarrow> bytes \<Rightarrow> (bytes \<Rightarrow> status option \<times> bytes) \<Rightarrow> status option \<times> bytes"
where
  "put_then p offset v k = (case codec_put p offset v of None \<Rightarrow> (None, p) | Some p \<Rightarrow> k p)"

definition access_header :: "bytes \<Rightarrow> status + guid \<times> nat \<times> u16 list" where
  "access_header p =
     sum_bind (ok_or ACCESS_DENIED (do {
       (guid, r) \<leftarrow> reader_guid p;
       (data_size, r) \<leftarrow> reader_u64 r;
       (nsize, r) \<leftarrow> reader_u64 r;
       Some (guid, unat data_size, unat nsize) })) (\<lambda>(guid, data_size, nsize).
     sum_bind (ok_or ACCESS_DENIED (do {
       s \<leftarrow> checked_add ACCESS_NAME data_size; checked_add s nsize })) (\<lambda>info.
     if info > length p \<or> nsize < 2 then Inl ACCESS_DENIED
     else
       sum_bind (ok_or ACCESS_DENIED (codec_get p ACCESS_NAME nsize)) (\<lambda>b.
       sum_bind (ok_or ACCESS_DENIED (ucs2_name b)) (\<lambda>name.
       Inr (guid, data_size, name)))))"

definition mm_get_variable :: "service \<Rightarrow> bytes \<Rightarrow> status option \<times> bytes" where
  "mm_get_variable sv p =
     (case access_header p of
        Inl s \<Rightarrow> (Some s, p)
      | Inr (guid, data_size, name) \<Rightarrow>
          (case do { w \<leftarrow> get_u64 p 24; checked_add ACCESS_NAME (unat w) } of
             None \<Rightarrow> (None, p)
           | Some data_at \<Rightarrow>
               (case get_variable sv guid name data_size of (status, attributes, data) \<Rightarrow>
                  let tail = (\<lambda>p. case data of
                      None \<Rightarrow> (Some status, p)
                    | Some data \<Rightarrow>
                        put_then p 16 (to_le_bytes (word_of_nat (length data) :: u64)) (\<lambda>p.
                          if status = SUCCESS then put_then p data_at data (\<lambda>p. (Some status, p))
                          else (Some status, p)))
                  in case attributes of
                       None \<Rightarrow> tail p
                     | Some attributes \<Rightarrow> put_then p 32 (to_le_bytes attributes) tail)))"

definition mm_get_next :: "service \<Rightarrow> bytes \<Rightarrow> status option \<times> bytes" where
  "mm_get_next sv p =
     (case do {
        (guid, _) \<leftarrow> reader_guid p;
        w \<leftarrow> get_u64 p 16;
        rm \<leftarrow> checked_sub (length p) NEXT_NAME;
        Some (guid, unat w, rm) } of
        None \<Rightarrow> (None, p)
      | Some (guid, nsize, rm) \<Rightarrow>
          if nsize > rm then (Some ACCESS_DENIED, p)
          else (case slice_from p NEXT_NAME of
              None \<Rightarrow> (None, p)
            | Some name_buf \<Rightarrow>
                let current = takeWhile (\<lambda>u. u \<noteq> 0) (u16_chunks name_buf) in
                if saturating_mul (length current) 2 \<ge> rm then (Some ACCESS_DENIED, p)
                else (case next_variable sv guid current of
                    Inl s \<Rightarrow> (Some s, p)
                  | Inr v \<Rightarrow>
                      let bytes = ucs2_bytes (v_name v) in
                      put_then p 16 (to_le_bytes (word_of_nat (length bytes) :: u64)) (\<lambda>p.
                        if length bytes > nsize then (Some BUFFER_TOO_SMALL, p)
                        else put_then p 0 (guid_bytes (v_guid v)) (\<lambda>p.
                          put_then p NEXT_NAME bytes (\<lambda>p. (Some SUCCESS, p)))))))"

definition mm_set_variable ::
  "('u, 'k) crypto \<Rightarrow> bytes \<Rightarrow> service \<Rightarrow> status option \<times> service"
where
  "mm_set_variable c p sv =
     (case access_header p of
        Inl s \<Rightarrow> (Some s, sv)
      | Inr (guid, data_size, name) \<Rightarrow>
          (case do {
             w \<leftarrow> get_u64 p 24;
             attributes \<leftarrow> get_u32 p 32;
             data_at \<leftarrow> checked_add ACCESS_NAME (unat w);
             data \<leftarrow> codec_get p data_at data_size;
             Some (attributes, data) } of
             None \<Rightarrow> (None, sv)
           | Some (attributes, data) \<Rightarrow>
               (case set_variable c guid name attributes data sv of (s, sv) \<Rightarrow> (Some s, sv))))"

definition mm_query :: "service \<Rightarrow> bytes \<Rightarrow> status option \<times> bytes" where
  "mm_query sv p =
     (case get_u32 p 24 of
        None \<Rightarrow> (None, p)
      | Some attributes \<Rightarrow>
          (case query sv attributes of
             Inl s \<Rightarrow> (Some s, p)
           | Inr (mx, remaining, max_var) \<Rightarrow>
               put_then p 0 (to_le_bytes mx) (\<lambda>p.
               put_then p 8 (to_le_bytes remaining) (\<lambda>p.
               put_then p 16 (to_le_bytes max_var) (\<lambda>p. (Some SUCCESS, p))))))"

definition mm_lock :: "bytes \<Rightarrow> service \<Rightarrow> status option \<times> service" where
  "mm_lock p sv =
     (if sv_end_of_dxe sv then (Some ACCESS_DENIED, sv)
      else case do {
          (guid, _) \<leftarrow> reader_guid p;
          w \<leftarrow> get_u64 p 16;
          b \<leftarrow> codec_get p NEXT_NAME (unat w);
          Some (guid, b) } of
        None \<Rightarrow> (None, sv)
      | Some (guid, b) \<Rightarrow>
          (case ucs2_name b of
             None \<Rightarrow> (Some INVALID_PARAMETER, sv)
           | Some name \<Rightarrow>
               (Some SUCCESS,
                if (guid, name) \<in> set (sv_locks sv) then sv
                else sv\<lparr>sv_locks := sv_locks sv @ [(guid, name)]\<rparr>)))"

definition ready_to_boot :: "service \<Rightarrow> status option \<times> service" where
  "ready_to_boot sv =
     (if sv_runtime sv then (Some UNSUPPORTED, sv)
      else (Some SUCCESS, sv\<lparr>sv_end_of_dxe := True, sv_policies := policies_lock (sv_policies sv)\<rparr>))"

text \<open>The handler of each SMM_VARIABLE_FUNCTION on the payload.\<close>

definition variable_function ::
  "('u, 'k) crypto \<Rightarrow> u64 \<Rightarrow> bytes \<Rightarrow> service \<Rightarrow> status option \<times> service \<times> bytes"
where
  "variable_function c function payload sv =
     (let reading = (\<lambda>(s, p). (s, sv, p)); writing = (\<lambda>(s, sv). (s, sv, payload)) in
      if function = 1 then reading (mm_get_variable sv payload)
      else if function = 2 then reading (mm_get_next sv payload)
      else if function = 3 then writing (mm_set_variable c payload sv)
      else if function = 4 then reading (mm_query sv payload)
      else if function = 5 then writing (ready_to_boot sv)
      else if function = 6 then (Some SUCCESS, sv\<lparr>sv_runtime := True\<rparr>, payload)
      else if function = 8 then writing (mm_lock payload sv)
      else if function = 9 then
        (Some (if sv_end_of_dxe sv then ACCESS_DENIED else SUCCESS), sv, payload)
      else if function = 10 then (Some NOT_FOUND, sv, payload)
      else if function = 11 then
        reading (put_then payload 0 (to_le_bytes (word_of_nat PAYLOAD_SIZE :: u64)) (\<lambda>p. (Some SUCCESS, p)))
      else (Some UNSUPPORTED, sv, payload))"

definition variable_message ::
  "('u, 'k) crypto \<Rightarrow> bytes \<Rightarrow> service \<Rightarrow> (mm_error + unit) \<times> service \<times> bytes"
where
  "variable_message c msg sv =
     (case get_u64 msg 0 of
        None \<Rightarrow> (Inl Malformed, sv, msg)
      | Some function \<Rightarrow>
          (case checked_sub (length msg) VAR_HEADER of
             None \<Rightarrow> (Inl Malformed, sv, msg)
           | Some payload_size \<Rightarrow>
               if payload_size > PAYLOAD_SIZE then (Inr (), sv, msg)
               else (case slice_from msg VAR_HEADER of
                   None \<Rightarrow> (Inl Malformed, sv, msg)
                 | Some payload \<Rightarrow>
                     (case variable_function c function payload sv of
                        (status, sv, payload) \<Rightarrow>
                          let msg = splice msg VAR_HEADER payload in
                          (case status of
                             None \<Rightarrow> (Inr (), sv, msg)
                           | Some s \<Rightarrow>
                               (case codec_put msg 8 (to_le_bytes (status_bits s)) of
                                  None \<Rightarrow> (Inl Malformed, sv, msg)
                                | Some msg \<Rightarrow> (Inr (), sv, msg)))))))"

text \<open>The commands of the VarCheckPolicy handler: the status, or the message refused.\<close>

definition policy_command ::
  "u32 \<Rightarrow> bytes \<Rightarrow> service \<Rightarrow> status option \<times> service \<times> bytes"
where
  "policy_command command msg sv =
     (if command = 1 then (Some (policies_disable (sv_policies sv)), sv, msg)
      else if command = 2 then
        (case codec_put msg POLICY_HEADER [bool_u8 (ps_enabled (sv_policies sv))] of
           None \<Rightarrow> (None, sv, msg)
         | Some msg \<Rightarrow> (Some SUCCESS, sv, msg))
      else if command = 3 \<and> ps_locked (sv_policies sv) then (Some WRITE_PROTECTED, sv, msg)
      else if command = 3 then
        (case Option.bind (slice_from msg POLICY_HEADER) policy_parse of
           Some p \<Rightarrow>
             (case policies_register p (sv_policies sv) of
                (s, ps) \<Rightarrow> (Some s, sv\<lparr>sv_policies := ps\<rparr>, msg))
         | None \<Rightarrow> (Some INVALID_PARAMETER, sv, msg))
      else if command = 4 then
        (case codec_put msg POLICY_HEADER (replicate 13 0) of
           None \<Rightarrow> (None, sv, msg)
         | Some msg \<Rightarrow> (Some SUCCESS, sv, msg))
      else if command = 5 then (Some SUCCESS, sv\<lparr>sv_policies := policies_lock (sv_policies sv)\<rparr>, msg)
      else (Some UNSUPPORTED, sv, msg))"

definition policy_message :: "bytes \<Rightarrow> service \<Rightarrow> (mm_error + unit) \<times> service \<times> bytes" where
  "policy_message msg sv =
     (case do {
        (signature, r) \<leftarrow> reader_u32 msg;
        (revision, r) \<leftarrow> reader_u32 r;
        (command, r) \<leftarrow> reader_u32 r;
        Some (signature, revision, command) } of
        None \<Rightarrow> (Inl Malformed, sv, msg)
      | Some (signature, revision, command) \<Rightarrow>
          if signature \<noteq> POLICY_SIGNATURE \<or> revision \<noteq> POLICY_REVISION then (Inr (), sv, msg)
          else if length msg < POLICY_HEADER then (Inl Malformed, sv, msg)
          else (case policy_command command msg sv of
              (None, sv, msg) \<Rightarrow> (Inl Malformed, sv, msg)
            | (Some s, sv, msg) \<Rightarrow>
                (case codec_put msg 16 (to_le_bytes (status_bits s)) of
                   None \<Rightarrow> (Inl Malformed, sv, msg)
                 | Some msg \<Rightarrow> (Inr (), sv, msg))))"

definition communicate ::
  "('u, 'k) crypto \<Rightarrow> bytes \<Rightarrow> service \<Rightarrow> (mm_error + unit) \<times> service \<times> bytes"
where
  "communicate c buf sv =
     (case do {
        (handler, r) \<leftarrow> reader_guid buf;
        (len, r) \<leftarrow> reader_u64 r;
        e \<leftarrow> checked_add MM_HEADER (unat len);
        message \<leftarrow> slice_get buf MM_HEADER e;
        Some (handler, message) } of
        None \<Rightarrow> (Inl Malformed, sv, buf)
      | Some (handler, message) \<Rightarrow>
          let back = (\<lambda>(r, sv, message). (r, sv, splice buf MM_HEADER message)) in
          if handler = SMM_VARIABLE_PROTOCOL then back (variable_message c message sv)
          else if handler = VAR_CHECK_POLICY_MMI then back (policy_message message sv)
          else (Inl Unsupported, sv, buf))"

end
