(* ===== verification/Uefi_Frame.thy ===== *)
theory Uefi_Frame
  imports Uefi_Communicate
begin

text \<open>
  What a write can touch. Every operation of the service changes the variables under a known set
  of keys and nothing else of the store; a refused one changes nothing. The keys the service writes
  on its own account (the signer records, the vendor-keys flag, the Secure Boot modes) are all
  read-only to the guest.
\<close>

section \<open>Names\<close>

lemma of_char_u16_inj: "(of_char a :: u16) = of_char b \<Longrightarrow> a = b"
proof -
  assume "(of_char a :: u16) = of_char b"
  then have "word_of_nat (of_char a) = (word_of_nat (of_char b) :: u16)"
    by (simp only: of_nat_of_char)
  moreover have "of_char x < (65536 :: nat)" for x :: char
    using nat_of_char_less_256 [of x] by linarith
  ultimately have "(of_char a :: nat) = of_char b" by (metis unat_u16_of_nat)
  then show "a = b" by simp
qed

lemma utf16_eq [simp]: "utf16 s = utf16 t \<longleftrightarrow> s = t"
  unfolding utf16_def by (rule inj_map_eq_map) (auto intro: injI of_char_u16_inj)

lemma utf16_Nil [simp]: "utf16 s = [] \<longleftrightarrow> s = []"
  by (simp add: utf16_def)

section \<open>Keys\<close>

abbreviation look :: "service \<Rightarrow> var_key \<Rightarrow> variable option" where
  "look sv k \<equiv> store_lookup (sv_store sv) k"

definition PK_KEY :: var_key where "PK_KEY = (GLOBAL_VARIABLE, utf16 ''PK'')"
definition KEK_KEY :: var_key where "KEK_KEY = (GLOBAL_VARIABLE, utf16 ''KEK'')"
definition SIGNERS_KEY :: var_key where "SIGNERS_KEY = (CERT_DB, utf16 SIGNERS)"
definition VENDOR_KEY :: var_key where "VENDOR_KEY = (VENDOR_KEYS_NV, utf16 ''VendorKeysNv'')"
definition ENABLE_KEY :: var_key where
  "ENABLE_KEY = (SECURE_BOOT_ENABLE_DISABLE, utf16 ''SecureBootEnable'')"

definition mode_keys :: "var_key set" where
  "mode_keys = (\<lambda>n. (GLOBAL_VARIABLE, utf16 n)) `
     {SETUP_MODE, SECURE_BOOT, AUDIT_MODE, DEPLOYED_MODE, SIGNATURE_SUPPORT, VENDOR_KEYS}"

definition internal_keys :: "var_key set" where
  "internal_keys = insert SIGNERS_KEY (insert VENDOR_KEY mode_keys)"

lemmas key_defs = PK_KEY_def KEK_KEY_def SIGNERS_KEY_def VENDOR_KEY_def ENABLE_KEY_def

lemma internal_read_only: "(g, n) \<in> internal_keys \<Longrightarrow> read_only sv g n"
  by (auto simp: internal_keys_def mode_keys_def key_defs read_only_def)

lemma auth_kind_not_internal: "auth_kind g n \<noteq> None \<Longrightarrow> (g, n) \<notin> internal_keys"
  by (auto simp: auth_kind_def internal_keys_def mode_keys_def key_defs name_defs split: if_splits)

lemma PK_not_internal [simp]: "PK_KEY \<notin> internal_keys" "KEK_KEY \<notin> internal_keys" "ENABLE_KEY \<notin> internal_keys"
  by (auto simp: internal_keys_def mode_keys_def key_defs name_defs)

section \<open>What an operation touches\<close>

definition touches :: "var_key set \<Rightarrow> service \<Rightarrow> service \<Rightarrow> bool" where
  "touches K sv sv' \<longleftrightarrow>
     store_ok (sv_store sv')
     \<and> (\<forall>k. k \<notin> K \<longrightarrow> look sv' k = look sv k)
     \<and> sv_image sv' = sv_image sv \<and> sv_policies sv' = sv_policies sv \<and> sv_locks sv' = sv_locks sv
     \<and> sv_end_of_dxe sv' = sv_end_of_dxe sv \<and> sv_runtime sv' = sv_runtime sv
     \<and> sv_nv_written sv' = sv_nv_written sv"

lemma touches_refl: "store_ok (sv_store sv) \<Longrightarrow> touches K sv sv"
  by (simp add: touches_def)

lemma touches_trans: "touches K a b \<Longrightarrow> touches L b c \<Longrightarrow> touches (K \<union> L) a c"
  by (auto simp: touches_def)

lemma touches_mono: "touches K a b \<Longrightarrow> K \<subseteq> L \<Longrightarrow> touches L a b"
  by (auto simp: touches_def)

lemma touches_then: "touches K a b \<Longrightarrow> touches K b c \<Longrightarrow> touches K a c"
  using touches_trans by fastforce

lemma touches_ok: "touches K a b \<Longrightarrow> store_ok (sv_store b)"
  by (simp add: touches_def)

lemma touches_look: "touches K a b \<Longrightarrow> k \<notin> K \<Longrightarrow> look b k = look a k"
  unfolding touches_def by blast

lemma changed_simps [simp]:
  "sv_store (changed nv sv) = sv_store sv" "sv_image (changed nv sv) = sv_image sv"
  "sv_policies (changed nv sv) = sv_policies sv" "sv_locks (changed nv sv) = sv_locks sv"
  "sv_end_of_dxe (changed nv sv) = sv_end_of_dxe sv" "sv_runtime (changed nv sv) = sv_runtime sv"
  "sv_nv_written (changed nv sv) = sv_nv_written sv"
  by (simp_all add: changed_def)

lemma sv_data_look: "sv_data sv g n = map_option v_data (look sv (g, utf16 n))"
  by (simp add: sv_data_def store_lookup_def)

lemma put_variable_store: "sv_store (put_variable v sv) = store_set v (sv_store sv)"
  by (simp add: put_variable_def store_set_def)

lemma put_variable_look:
  "store_ok (sv_store sv) \<Longrightarrow> look (put_variable v sv) k = (if k = v_key v then Some v else look sv k)"
  by (simp add: put_variable_store kv.look_upd)

lemma put_variable_simps [simp]:
  "sv_image (put_variable v sv) = sv_image sv" "sv_policies (put_variable v sv) = sv_policies sv"
  "sv_locks (put_variable v sv) = sv_locks sv" "sv_end_of_dxe (put_variable v sv) = sv_end_of_dxe sv"
  "sv_runtime (put_variable v sv) = sv_runtime sv" "sv_nv_written (put_variable v sv) = sv_nv_written sv"
  by (simp_all add: put_variable_def)

lemma put_variable_touches: "store_ok (sv_store sv) \<Longrightarrow> touches {v_key v} sv (put_variable v sv)"
  by (auto simp: touches_def put_variable_store kv.look_upd kv.ok_upd)

lemma put_internal_touches:
  "store_ok (sv_store sv) \<Longrightarrow> touches {(g, utf16 n)} sv (put_internal g n a d sv)"
  using put_variable_touches [of sv "internal_variable g n a d"]
  by (simp add: put_internal_def internal_variable_def)

lemma put_internal_look:
  "store_ok (sv_store sv) \<Longrightarrow> look (put_internal g n a d sv) k =
     (if k = (g, utf16 n) then Some (internal_variable g n a d) else look sv k)"
  by (simp add: put_internal_def put_variable_look) (simp add: internal_variable_def)

lemma put_internal_ok:
  "store_ok (sv_store sv) \<Longrightarrow> store_ok (sv_store (put_internal g n a d sv))"
  using put_internal_touches touches_ok by blast

lemma put_signer_records_touches:
  assumes "store_ok (sv_store sv)"
  shows "touches {SIGNERS_KEY} sv (put_signer_records rs sv)"
proof (cases "rs = []")
  case True
  then show ?thesis
  proof (cases "store_position (sv_store sv) CERT_DB (utf16 SIGNERS)")
    case None
    then show ?thesis using True assms by (simp add: put_signer_records_def touches_refl)
  next
    case (Some i)
    then have "snd (store_remove i (sv_store sv)) = store_delete SIGNERS_KEY (sv_store sv)"
      by (simp add: store_delete_def SIGNERS_KEY_def)
    then show ?thesis
      using True Some assms
      by (auto simp: put_signer_records_def touches_def kv.look_del kv.ok_del)
  qed
next
  case False
  then show ?thesis
    using put_internal_touches [OF assms] by (simp add: put_signer_records_def SIGNERS_KEY_def)
qed

lemma forget_signer_touches:
  "store_ok (sv_store sv) \<Longrightarrow> touches {SIGNERS_KEY} sv (forget_signer g n sv)"
  by (auto simp: forget_signer_def Let_def touches_refl put_signer_records_touches split: option.splits)

section \<open>The modes\<close>

text \<open>The values \<open>refresh_modes\<close> writes.\<close>

definition pk_enrolled :: "service \<Rightarrow> bool" where
  "pk_enrolled sv \<longleftrightarrow> look sv PK_KEY \<noteq> None"

abbreviation rt_attributes :: u32 where
  "rt_attributes \<equiv> BOOTSERVICE_ACCESS OR RUNTIME_ACCESS"

definition secure_boot_enabled :: "service \<Rightarrow> bool" where
  "secure_boot_enabled sv =
     (case look sv ENABLE_KEY of None \<Rightarrow> True | Some v \<Rightarrow> first_byte (v_data v) \<noteq> Some 0)"

definition vendor_value :: "service \<Rightarrow> u8" where
  "vendor_value sv =
     (case look sv VENDOR_KEY of
        None \<Rightarrow> 1
      | Some v \<Rightarrow> (case first_byte (v_data v) of None \<Rightarrow> 1 | Some b \<Rightarrow> b))"

definition signature_support :: bytes where
  "signature_support = concat (map guid_bytes
     [CERT_SHA1, CERT_SHA256, CERT_SHA384, CERT_SHA512, CERT_RSA2048, CERT_X509])"

definition mode_values :: "service \<Rightarrow> (string \<times> bytes) list" where
  "mode_values sv =
     [(SETUP_MODE, [bool_u8 (\<not> pk_enrolled sv)]),
      (SECURE_BOOT, [bool_u8 (pk_enrolled sv \<and> secure_boot_enabled sv)]),
      (AUDIT_MODE, [0]), (DEPLOYED_MODE, [0]),
      (SIGNATURE_SUPPORT, signature_support), (VENDOR_KEYS, [vendor_value sv])]"

lemma refresh_modes_eq:
  "refresh_modes sv =
     fold (\<lambda>(n, d). put_internal GLOBAL_VARIABLE n rt_attributes d) (mode_values sv) sv"
  by (simp add: refresh_modes_def Let_def mode_values_def pk_enrolled_def secure_boot_enabled_def
      vendor_value_def signature_support_def store_lookup_def key_defs)

lemma fold_put_internal_touches:
  assumes "store_ok (sv_store sv)"
  shows "touches ((\<lambda>(n, d). (g, utf16 n)) ` set nds) sv (fold (\<lambda>(n, d). put_internal g n a d) nds sv)"
  using assms
proof (induction nds arbitrary: sv)
  case Nil
  then show ?case by (simp add: touches_refl)
next
  case (Cons nd nds)
  obtain n d where nd: "nd = (n, d)" by force
  let ?sv = "put_internal g n a d sv"
  have t: "touches {(g, utf16 n)} sv ?sv" using put_internal_touches [OF Cons.prems] .
  from touches_trans [OF t Cons.IH [OF touches_ok [OF t]]]
  show ?case by (simp add: nd)
qed

lemma fold_put_internal_look:
  assumes "store_ok (sv_store sv)" and "distinct (map fst nds)" and "(n, d) \<in> set nds"
  shows "look (fold (\<lambda>(n, d). put_internal g n a d) nds sv) (g, utf16 n) = Some (internal_variable g n a d)"
  using assms
proof (induction nds arbitrary: sv)
  case (Cons nd nds)
  obtain m e where nd: "nd = (m, e)" by force
  let ?sv = "put_internal g m a e sv"
  have ok: "store_ok (sv_store ?sv)" using put_internal_ok [OF Cons.prems(1)] .
  show ?case
  proof (cases "(n, d) = (m, e)")
    case True
    then have "(g, utf16 n) \<notin> (\<lambda>(n, d). (g, utf16 n)) ` set nds"
      using Cons.prems(2) nd by (force simp: image_iff)
    with True show ?thesis
      using touches_look [OF fold_put_internal_touches [OF ok]] put_internal_look [OF Cons.prems(1)] nd
      by simp
  next
    case False
    then show ?thesis using Cons.IH [OF ok] Cons.prems nd by auto
  qed
qed simp

lemma mode_values_keys: "(\<lambda>(n, d). (GLOBAL_VARIABLE, utf16 n)) ` set (mode_values sv) = mode_keys"
  by (auto simp: mode_values_def mode_keys_def)

lemma mode_values_distinct: "distinct (map fst (mode_values sv))"
  by (simp add: mode_values_def name_defs)

lemma refresh_modes_touches: "store_ok (sv_store sv) \<Longrightarrow> touches mode_keys sv (refresh_modes sv)"
  unfolding refresh_modes_eq using fold_put_internal_touches mode_values_keys by metis

lemma refresh_modes_look:
  "store_ok (sv_store sv) \<Longrightarrow> (n, d) \<in> set (mode_values sv) \<Longrightarrow>
     look (refresh_modes sv) (GLOBAL_VARIABLE, utf16 n) = Some (internal_variable GLOBAL_VARIABLE n rt_attributes d)"
  unfolding refresh_modes_eq by (rule fold_put_internal_look [OF _ mode_values_distinct])

lemma after_key_change_touches:
  assumes "store_ok (sv_store sv)"
  shows "touches (insert VENDOR_KEY mode_keys) sv (after_key_change sv)"
proof -
  let ?sv = "case store_find (sv_store sv) VENDOR_KEYS_NV (utf16 ''VendorKeysNv'') of
          Some v \<Rightarrow> put_internal VENDOR_KEYS_NV ''VendorKeysNv'' (v_attributes v) [0] sv
        | None \<Rightarrow> sv"
  have t: "touches {VENDOR_KEY} sv ?sv"
    using put_internal_touches [OF assms] touches_refl [OF assms]
    by (auto simp: VENDOR_KEY_def split: option.splits)
  from touches_trans [OF t refresh_modes_touches [OF touches_ok [OF t]]]
  show ?thesis by (simp add: after_key_change_def)
qed

end
