(* ===== verification/Uefi_Write.thy ===== *)
theory Uefi_Write
  imports Uefi_Frame
begin

text \<open>
  SetVariable's behaviour on every branch: a refused write changes nothing, an accepted one
  touches its own variable and the service's internal ones, and what each guard lets through.
\<close>

lemma status_distinct [simp]:
  "SUCCESS \<noteq> INVALID_PARAMETER" "SUCCESS \<noteq> UNSUPPORTED" "SUCCESS \<noteq> BUFFER_TOO_SMALL"
  "SUCCESS \<noteq> WRITE_PROTECTED" "SUCCESS \<noteq> OUT_OF_RESOURCES" "SUCCESS \<noteq> NOT_FOUND"
  "SUCCESS \<noteq> ACCESS_DENIED" "SUCCESS \<noteq> ALREADY_STARTED" "SUCCESS \<noteq> SECURITY_VIOLATION"
  "INVALID_PARAMETER \<noteq> SUCCESS" "UNSUPPORTED \<noteq> SUCCESS" "BUFFER_TOO_SMALL \<noteq> SUCCESS"
  "WRITE_PROTECTED \<noteq> SUCCESS" "OUT_OF_RESOURCES \<noteq> SUCCESS" "NOT_FOUND \<noteq> SUCCESS"
  "ACCESS_DENIED \<noteq> SUCCESS" "ALREADY_STARTED \<noteq> SUCCESS" "SECURITY_VIOLATION \<noteq> SUCCESS"
  by (simp_all add: status_defs)

section \<open>Deleting\<close>

lemma delete_variable_SUCCESS:
  assumes "delete_variable g n sv = (s, sv')"
  shows "s = SUCCESS \<or> s = NOT_FOUND \<and> sv' = sv"
  using assms by (auto simp: delete_variable_def Let_def split: option.splits prod.splits)

text \<open>The service once the variable is out of the store, before the records follow.\<close>

definition removed :: "guid \<Rightarrow> u16 list \<Rightarrow> service \<Rightarrow> service" where
  "removed g n sv =
     (case look sv (g, n) of
        Some v \<Rightarrow> changed (non_volatile v) (sv\<lparr>sv_store := store_delete (g, n) (sv_store sv)\<rparr>)
      | None \<Rightarrow> sv)"

lemma removed_store: "sv_store (removed g n sv) = store_delete (g, n) (sv_store sv)"
  by (auto simp: removed_def store_delete_def store_lookup_def store_find_None split: option.splits)

lemma removed_touches: "store_ok (sv_store sv) \<Longrightarrow> touches {(g, n)} sv (removed g n sv)"
  by (auto simp: touches_def removed_store kv.look_del kv.ok_del)
    (auto simp: removed_def split: option.splits)

lemma delete_variable_eq:
  assumes "look sv (g, n) = Some v"
  shows "delete_variable g n sv =
    (SUCCESS, let sv = forget_signer g n (removed g n sv)
              in if auth_kind g n \<noteq> None then after_key_change sv else sv)"
proof -
  from assms obtain i where i: "store_position (sv_store sv) g n = Some i" "i < length (vars (sv_store sv))"
    "v = vars (sv_store sv) ! i"
    by (auto simp: store_lookup_def dest: store_find_Some)
  then have "store_remove i (sv_store sv) = (Some v, store_delete (g, n) (sv_store sv))"
    by (simp add: store_remove_def store_delete_def)
  with i assms show ?thesis by (simp add: delete_variable_def removed_def Let_def)
qed

lemma delete_variable_found:
  "delete_variable g n sv = (SUCCESS, sv') \<Longrightarrow> \<exists>v. look sv (g, n) = Some v"
  by (auto simp: delete_variable_def store_lookup_def dest: store_find_position split: option.splits)

lemma after_key_change_internal:
  "store_ok (sv_store sv) \<Longrightarrow> touches internal_keys sv (after_key_change sv)"
  by (rule touches_mono [OF after_key_change_touches]) (auto simp: internal_keys_def)

lemma forget_signer_internal:
  "store_ok (sv_store sv) \<Longrightarrow> touches internal_keys sv (forget_signer g n sv)"
  by (rule touches_mono [OF forget_signer_touches]) (auto simp: internal_keys_def)

text \<open>Whatever follows the removal touches internal variables only.\<close>

lemma delete_variable_touches:
  assumes ok: "store_ok (sv_store sv)" and d: "delete_variable g n sv = (SUCCESS, sv')"
  shows "touches internal_keys (removed g n sv) sv'"
proof -
  obtain v where "look sv (g, n) = Some v" using delete_variable_found [OF d] ..
  from delete_variable_eq [OF this] d
  have sv': "sv' = (let sv = forget_signer g n (removed g n sv)
              in if auth_kind g n \<noteq> None then after_key_change sv else sv)" by simp
  have ok1: "store_ok (sv_store (removed g n sv))" using removed_touches [OF ok] touches_ok by blast
  note f = forget_signer_internal [OF ok1, of g n]
  show ?thesis
    using f touches_then [OF f after_key_change_internal [OF touches_ok [OF f]]]
    by (simp add: sv' Let_def)
qed

section \<open>Storing\<close>

text \<open>The variable and the signer records a write stores.\<close>

definition stored_variables ::
  "guid \<Rightarrow> u16 list \<Rightarrow> u32 \<Rightarrow> bytes \<Rightarrow> efi_time \<Rightarrow> bytes option \<Rightarrow> variable option \<Rightarrow> variable list"
where
  "stored_variables g n at data ts signers existing =
     new_variable g n at data ts existing
       # (case signers of
            None \<Rightarrow> []
          | Some d \<Rightarrow> [internal_variable CERT_DB SIGNERS (NON_VOLATILE OR BOOTSERVICE_ACCESS) d])"

lemma new_variable_key [simp]:
  "v_guid (new_variable g n at d ts e) = g" "v_name (new_variable g n at d ts e) = n"
  "v_data (new_variable g n at d ts e) = d"
  by (simp_all add: new_variable_def)

lemma store_variable_SUCCESS:
  assumes "store_variable g n at payload ts signers existing sv = (s, sv')"
  shows "s = SUCCESS \<or> sv' = sv"
  using assms by (auto simp: store_variable_def Let_def split: option.splits if_splits)

lemma put_variable_stored:
  "(changed (non_volatile v) sv)\<lparr>sv_store := store_put (store_position (sv_store sv) (v_guid v) (v_name v)) v
      (sv_store (changed (non_volatile v) sv))\<rparr> = put_variable v sv"
  by (simp add: put_variable_def Let_def)

lemma store_variable_found:
  assumes "store_variable g n at payload ts signers existing sv = (SUCCESS, sv')"
  shows "\<exists>data. new_data g n at payload existing = Some data
    \<and> saturating_add (name_size n) (length data) \<le> MAX_VARIABLE_SIZE
    \<and> (\<forall>d. signers = Some d \<longrightarrow> saturating_add (name_size (utf16 SIGNERS)) (length d) \<le> MAX_VARIABLE_SIZE)
    \<and> fits sv (stored_variables g n at data ts signers existing)
    \<and> sv' = (let sv = fold put_variable (stored_variables g n at data ts signers existing) sv
            in if auth_kind g n \<noteq> None then after_key_change sv else sv)"
proof -
  from assms obtain data where d: "new_data g n at payload existing = Some data"
    by (auto simp: store_variable_def split: option.splits)
  let ?v = "new_variable g n at data ts existing"
  have put: "(changed (non_volatile ?v) sv)\<lparr>sv_store := store_put (store_position (sv_store sv) g n) ?v
      (sv_store sv)\<rparr> = put_variable ?v sv"
    using put_variable_stored [of sv ?v] by simp
  show ?thesis
    using assms put
    by (auto simp: store_variable_def d Let_def stored_variables_def internal_variable_def
        split: option.splits if_splits)
qed

lemma fold_put_variable_touches:
  assumes "store_ok (sv_store sv)"
  shows "touches (v_key ` set vs) sv (fold put_variable vs sv)"
  using assms
proof (induction vs arbitrary: sv)
  case Nil
  then show ?case by (simp add: touches_refl)
next
  case (Cons v vs)
  note t = put_variable_touches [OF Cons.prems, of v]
  from touches_trans [OF t Cons.IH [OF touches_ok [OF t]]] show ?case by simp
qed

text \<open>The service with the variable in place, and the rest of the write.\<close>

lemma store_variable_touches:
  assumes ok: "store_ok (sv_store sv)"
    and d: "store_variable g n at payload ts signers existing sv = (SUCCESS, sv')"
  shows "\<exists>data. new_data g n at payload existing = Some data
    \<and> touches internal_keys (put_variable (new_variable g n at data ts existing) sv) sv'"
proof -
  obtain data where data: "new_data g n at payload existing = Some data"
    and sv': "sv' = (let sv = fold put_variable (stored_variables g n at data ts signers existing) sv
            in if auth_kind g n \<noteq> None then after_key_change sv else sv)"
    using store_variable_found [OF d] by blast
  let ?v = "new_variable g n at data ts existing"
  let ?rest = "case signers of None \<Rightarrow> []
          | Some d \<Rightarrow> [internal_variable CERT_DB SIGNERS (NON_VOLATILE OR BOOTSERVICE_ACCESS) d]"
  have ok1: "store_ok (sv_store (put_variable ?v sv))"
    using put_variable_touches [OF ok] touches_ok by blast
  have "v_key ` set ?rest \<subseteq> internal_keys"
    by (auto simp: internal_keys_def SIGNERS_KEY_def internal_variable_def split: option.splits)
  then have f: "touches internal_keys (put_variable ?v sv) (fold put_variable ?rest (put_variable ?v sv))"
    by (rule touches_mono [OF fold_put_variable_touches [OF ok1]])
  have "touches internal_keys (put_variable ?v sv) sv'"
    using f touches_then [OF f after_key_change_internal [OF touches_ok [OF f]]]
    by (simp add: sv' stored_variables_def Let_def)
  with data show ?thesis by blast
qed

section \<open>SetVariable\<close>

text \<open>What let a write through: its authentication descriptor, its timestamp and the signer
  records to store with it.\<close>

definition accepted ::
  "('u, 'k) crypto \<Rightarrow> service \<Rightarrow> guid \<Rightarrow> u16 list \<Rightarrow> u32 \<Rightarrow> bytes \<Rightarrow> authenticated option \<Rightarrow> efi_time
     \<Rightarrow> bytes option \<Rightarrow> bool"
where
  "accepted c sv g n at d auth ts signers \<longleftrightarrow>
     attributes_check n at = None \<and> split_payload at d = Inr auth
     \<and> write_guards sv g n at (payload_of auth d) (look sv (g, n)) = None
     \<and> authorize c sv g n at auth (look sv (g, n)) = Inr (ts, signers)"

lemma set_variable_cases:
  assumes "set_variable c g n at d sv = (s, sv')"
  obtains (unchanged) "sv' = sv"
  | (deleted) auth ts signers where "s = SUCCESS" "accepted c sv g n at d auth ts signers"
      "is_deleting at (payload_of auth d)" "delete_variable g n sv = (SUCCESS, sv')"
  | (stored) auth ts signers where "s = SUCCESS" "accepted c sv g n at d auth ts signers"
      "\<not> is_deleting at (payload_of auth d)"
      "store_variable g n at (payload_of auth d) ts signers (look sv (g, n)) sv = (SUCCESS, sv')"
  using assms unfolding set_variable_def accepted_def store_lookup_def Let_def
  by (auto split: option.splits sum.splits prod.splits if_splits
      dest: delete_variable_SUCCESS store_variable_SUCCESS)

lemma set_variable_refused:
  assumes "set_variable c g n at d sv = (s, sv')" and "s \<noteq> SUCCESS"
  shows "sv' = sv"
  using assms by (cases rule: set_variable_cases) auto

lemma accepted_writable:
  assumes "accepted c sv g n at d auth ts signers"
  shows "\<not> read_only sv g n" and "(g, n) \<notin> internal_keys" and "n \<noteq> []"
proof -
  show "\<not> read_only sv g n"
    using assms by (auto simp: accepted_def write_guards_def split: if_splits option.splits)
  then show "(g, n) \<notin> internal_keys" using internal_read_only by blast
  show "n \<noteq> []" using assms by (auto simp: accepted_def attributes_check_def Let_def split: if_splits)
qed

text \<open>An accepted write touches its own variable and the internal ones.\<close>

lemma set_variable_touches:
  assumes ok: "store_ok (sv_store sv)" and s: "set_variable c g n at d sv = (s, sv')"
  shows "touches (insert (g, n) internal_keys) sv sv'"
  using s
proof (cases rule: set_variable_cases)
  case unchanged
  then show ?thesis using ok by (simp add: touches_refl)
next
  case (deleted auth ts signers)
  then show ?thesis
    using touches_trans [OF removed_touches [OF ok] delete_variable_touches [OF ok]] by simp
next
  case (stored auth ts signers)
  then obtain data where "touches internal_keys (put_variable (new_variable g n at data ts (look sv (g, n))) sv) sv'"
    using store_variable_touches [OF ok] by blast
  from touches_trans [OF put_variable_touches [OF ok] this] show ?thesis by simp
qed

lemma set_variable_other:
  assumes "store_ok (sv_store sv)" and "set_variable c g n at d sv = (s, sv')"
    and "k \<noteq> (g, n)" and "k \<notin> internal_keys"
  shows "look sv' k = look sv k"
  using touches_look [OF set_variable_touches [OF assms(1,2)]] assms(3,4) by blast

text \<open>What its own variable is afterwards.\<close>

lemma set_variable_self:
  assumes ok: "store_ok (sv_store sv)" and s: "set_variable c g n at d sv = (s, sv')"
    and ch: "look sv' (g, n) \<noteq> look sv (g, n)"
  shows "s = SUCCESS \<and> (\<exists>auth ts signers. accepted c sv g n at d auth ts signers
    \<and> (if is_deleting at (payload_of auth d) then look sv' (g, n) = None
       else \<exists>data. new_data g n at (payload_of auth d) (look sv (g, n)) = Some data
         \<and> look sv' (g, n) = Some (new_variable g n at data ts (look sv (g, n)))))"
  using s
proof (cases rule: set_variable_cases)
  case unchanged
  then show ?thesis using ch by simp
next
  case (deleted auth ts signers)
  have "look sv' (g, n) = look (removed g n sv) (g, n)"
    using touches_look [OF delete_variable_touches [OF ok deleted(4)]] accepted_writable(2) [OF deleted(2)]
    by blast
  also have "\<dots> = None" using ok by (simp add: removed_store kv.look_del)
  finally show ?thesis using deleted by auto
next
  case (stored auth ts signers)
  obtain data where data: "new_data g n at (payload_of auth d) (look sv (g, n)) = Some data"
    and t: "touches internal_keys (put_variable (new_variable g n at data ts (look sv (g, n))) sv) sv'"
    using store_variable_touches [OF ok stored(4)] by blast
  have "look sv' (g, n) = look (put_variable (new_variable g n at data ts (look sv (g, n))) sv) (g, n)"
    using touches_look [OF t] accepted_writable(2) [OF stored(2)] by blast
  also have "\<dots> = Some (new_variable g n at data ts (look sv (g, n)))"
    using put_variable_look [OF ok] by simp
  finally show ?thesis using stored data by auto
qed

end
