(* ===== verification/Vk_Machine.thy ===== *)
theory Vk_Machine
  imports Main
begin

text \<open>
  State machines: a set of start states and a step relation. The two interfaces say what a proof
  about a machine has to supply, an invariant or a guarded view, and give what holds over whole runs.
\<close>

text \<open>An invariant holds wherever the machine can get: proved once for any machine, and
  instantiated with each invariant of the variable service and of the TPM.\<close>

locale machine_invariant =
  fixes start :: "'s \<Rightarrow> bool" and step :: "'s \<Rightarrow> 's \<Rightarrow> bool" and inv :: "'s \<Rightarrow> bool"
  assumes inv_start: "start s \<Longrightarrow> inv s"
    and inv_step: "inv s \<Longrightarrow> step s s' \<Longrightarrow> inv s'"
begin

lemma steps_inv: "step\<^sup>*\<^sup>* s s' \<Longrightarrow> inv s \<Longrightarrow> inv s'"
  by (induction rule: rtranclp_induct) (auto intro: inv_step)

lemma reach_inv: "start s \<Longrightarrow> step\<^sup>*\<^sup>* s s' \<Longrightarrow> inv s'"
  using steps_inv inv_start by blast

text \<open>A relation between a state and the states after it, kept by every step.\<close>

lemma steps_mono:
  assumes "step\<^sup>*\<^sup>* s s'" and "inv s" and "\<And>s. R s s"
    and "\<And>s t. inv s \<Longrightarrow> step s t \<Longrightarrow> R s t" and "\<And>s t u. R s t \<Longrightarrow> R t u \<Longrightarrow> R s u"
  shows "R s s'"
  using assms(1)
proof (induction rule: rtranclp_induct)
  case base
  show ?case by (rule assms(3))
next
  case (step t u)
  have "inv t" using steps_inv [OF step.hyps(1) assms(2)] .
  then show ?case using assms(4) [OF _ step.hyps(2)] assms(5) [OF step.IH] by blast
qed

end

locale machine_run = machine_invariant start step inv
  for start :: "'s \<Rightarrow> bool" and step :: "'s \<Rightarrow> 's \<Rightarrow> bool" and inv :: "'s \<Rightarrow> bool" +
  fixes guard :: "'s \<Rightarrow> bool" and view :: "'s \<Rightarrow> 'v"
  assumes guard_step: "inv s \<Longrightarrow> guard s \<Longrightarrow> step s s' \<Longrightarrow> guard s' \<and> view s' = view s"
begin

text \<open>What a guard, once it holds, keeps for good.\<close>

lemma view_kept:
  assumes "step\<^sup>*\<^sup>* s s'" and "inv s" and "guard s"
  shows "guard s' \<and> view s' = view s"
  using assms(1)
proof (induction rule: rtranclp_induct)
  case base
  then show ?case using assms(3) by simp
next
  case (step t u)
  have "inv t" by (rule steps_inv [OF step.hyps(1) assms(2)])
  with guard_step [OF _ _ step.hyps(2)] step.IH show ?case by simp
qed

end

end
