(* ===== verification/Uefi_Step.thy ===== *)
theory Uefi_Step
  imports Uefi_Write Vk_Machine
begin

text \<open>
  The service as a state machine. \<open>guest_step\<close> is the abstract contract of a message: what any
  buffer the guest sends can do to the service. \<open>communicate\<close> refines it, and the device's own
  calls (\<open>take_image\<close>, \<open>mark_written\<close>) complete the machine whose reachable states the
  invariants are about.
\<close>

inductive guest_step :: "('u, 'k) crypto \<Rightarrow> service \<Rightarrow> service \<Rightarrow> bool" for c where
  nothing: "guest_step c sv sv"
| set_var: "guid_ok g \<Longrightarrow> 0 \<notin> set n \<Longrightarrow> set_variable c g n at d sv = (s, sv')
    \<Longrightarrow> guest_step c sv sv'"
| boot: "\<not> sv_runtime sv \<Longrightarrow>
    guest_step c sv (sv\<lparr>sv_end_of_dxe := True, sv_policies := policies_lock (sv_policies sv)\<rparr>)"
| exit_boot: "guest_step c sv (sv\<lparr>sv_runtime := True\<rparr>)"
| lock_var: "\<not> sv_end_of_dxe sv \<Longrightarrow> guid_ok g \<Longrightarrow> 0 \<notin> set n \<Longrightarrow>
    guest_step c sv (sv\<lparr>sv_locks := sv_locks sv @ [(g, n)]\<rparr>)"
| register: "\<not> ps_locked (sv_policies sv) \<Longrightarrow> policy_parse b = Some p \<Longrightarrow>
    guest_step c sv (sv\<lparr>sv_policies := snd (policies_register p (sv_policies sv))\<rparr>)"
| lock_policies: "guest_step c sv (sv\<lparr>sv_policies := policies_lock (sv_policies sv)\<rparr>)"

inductive_cases guest_stepE: "guest_step c sv sv'"

section \<open>The handlers\<close>

lemma access_header_Inr:
  "access_header p = Inr (g, k, n) \<Longrightarrow> guid_ok g \<and> 0 \<notin> set n"
  by (auto simp: access_header_def sum_bind_eq_Inr bind_eq_Some_conv reader_eq_Some ucs2_name_eq_Some
      split: if_splits)

lemma mm_set_variable_step: "mm_set_variable c p sv = (s, sv') \<Longrightarrow> guest_step c sv sv'"
  by (auto simp: mm_set_variable_def intro: guest_step.nothing guest_step.set_var dest!: access_header_Inr
      split: sum.splits option.splits prod.splits)

lemma mm_lock_step: "mm_lock p sv = (s, sv') \<Longrightarrow> guest_step c sv sv'"
  by (auto simp: mm_lock_def bind_eq_Some_conv reader_eq_Some ucs2_name_eq_Some intro: guest_step.nothing guest_step.lock_var
      split: if_splits option.splits prod.splits)

lemma ready_to_boot_step: "ready_to_boot sv = (s, sv') \<Longrightarrow> guest_step c sv sv'"
  by (auto simp: ready_to_boot_def intro: guest_step.nothing guest_step.boot split: if_splits)

lemma variable_function_step:
  "variable_function c f p sv = (s, sv', p') \<Longrightarrow> guest_step c sv sv'"
  by (auto simp: variable_function_def Let_def intro: guest_step.nothing guest_step.exit_boot mm_set_variable_step mm_lock_step
      ready_to_boot_step split: if_splits prod.splits)

lemma policies_register_locked:
  "ps_locked ps \<Longrightarrow> policies_register p ps = (WRITE_PROTECTED, ps)"
  by (simp add: policies_register_def)

lemma policy_command_step:
  "policy_command f msg sv = (s, sv', msg') \<Longrightarrow> guest_step c sv sv'"
  unfolding policy_command_def
  by (auto simp: bind_eq_Some_conv intro: guest_step.nothing guest_step.lock_policies
      dest: guest_step.register [where c = c] split: if_splits option.splits prod.splits)

section \<open>Messages\<close>

lemma variable_message_step:
  assumes "variable_message c msg sv = (r, sv', msg')"
  shows "guest_step c sv sv'"
  using assms unfolding variable_message_def Let_def
  by (auto intro: guest_step.nothing variable_function_step split: if_splits option.splits prod.splits)

lemma policy_message_step:
  assumes "policy_message msg sv = (r, sv', msg')"
  shows "guest_step c sv sv'"
  using assms unfolding policy_message_def Let_def
  by (auto intro: guest_step.nothing policy_command_step split: if_splits option.splits prod.splits)

lemma communicate_step:
  assumes "communicate c buf sv = (r, sv', buf')"
  shows "guest_step c sv sv'"
  using assms unfolding communicate_def Let_def
  by (auto intro: guest_step.nothing variable_message_step policy_message_step
      split: if_splits option.splits prod.splits)

text \<open>The status of a handled message always fits the message, so a message reported as an
  error changed nothing.\<close>

lemma put_then_length:
  assumes "put_then p off v k = (s, p')" and "\<And>p s p'. k p = (s, p') \<Longrightarrow> length p' = length p"
  shows "length p' = length p"
  using assms by (auto simp: put_then_def dest: length_codec_put split: option.splits)

lemma mm_get_variable_length: "mm_get_variable sv p = (s, p') \<Longrightarrow> length p' = length p"
  by (auto simp: mm_get_variable_def Let_def elim!: put_then_length
      split: sum.splits option.splits prod.splits if_splits)

lemma mm_get_next_length: "mm_get_next sv p = (s, p') \<Longrightarrow> length p' = length p"
  by (auto simp: mm_get_next_def Let_def elim!: put_then_length
      split: sum.splits option.splits prod.splits if_splits)

lemma mm_query_length: "mm_query sv p = (s, p') \<Longrightarrow> length p' = length p"
  by (auto simp: mm_query_def elim!: put_then_length split: sum.splits option.splits prod.splits)

lemma variable_function_length: "variable_function c f p sv = (s, sv', p') \<Longrightarrow> length p' = length p"
  by (auto simp: variable_function_def Let_def mm_get_variable_length mm_get_next_length mm_query_length
      elim!: put_then_length split: if_splits prod.splits)

lemma splice_same: "a + length v \<le> length b \<Longrightarrow> v = take (length v) (drop a b) \<Longrightarrow> splice b a v = b"
  by (metis append_take_drop_id drop_drop splice_def add.commute)

lemma length_status [simp]: "length (to_le_bytes (status_bits s)) = 8"
  by simp

lemma variable_message_error:
  assumes "variable_message c msg sv = (Inl e, sv', msg')"
  shows "sv' = sv \<and> msg' = msg"
proof (rule ccontr)
  assume n: "\<not> ?thesis"
  from assms n obtain f payload s p' where
    len: "VAR_HEADER \<le> length msg" and payload: "payload = drop VAR_HEADER msg"
    and vf: "variable_function c f payload sv = (Some s, sv', p')"
    and none: "codec_put (splice msg VAR_HEADER p') 8 (to_le_bytes (status_bits s)) = None"
    unfolding variable_message_def Let_def
    by (auto simp: slice_from_eq_Some split: if_splits option.splits prod.splits)
  have "length p' = length msg - VAR_HEADER" using variable_function_length [OF vf] payload by simp
  then have "length (splice msg VAR_HEADER p') = length msg" using len by (simp add: length_splice)
  with len have "codec_put (splice msg VAR_HEADER p') 8 (to_le_bytes (status_bits s)) \<noteq> None"
    by (simp add: codec_put_def checked_add_def VAR_HEADER_def usize_max_def)
  with none show False by simp
qed

lemma policy_command_length: "policy_command f msg sv = (s, sv', msg') \<Longrightarrow> length msg' = length msg"
  by (auto simp: policy_command_def dest: length_codec_put split: if_splits option.splits prod.splits)

lemma policy_command_None: "policy_command f msg sv = (None, sv', msg') \<Longrightarrow> sv' = sv \<and> msg' = msg"
  by (auto simp: policy_command_def split: if_splits option.splits prod.splits)

lemma policy_message_error:
  assumes "policy_message msg sv = (Inl e, sv', msg')"
  shows "sv' = sv \<and> msg' = msg"
proof (rule ccontr)
  assume n: "\<not> ?thesis"
  from assms n obtain f s msg1 where
    len: "POLICY_HEADER \<le> length msg" and pc: "policy_command f msg sv = (Some s, sv', msg1)"
    and none: "codec_put msg1 16 (to_le_bytes (status_bits s)) = None"
    unfolding policy_message_def Let_def
    by (auto dest: policy_command_None split: if_splits option.splits prod.splits)
  from len policy_command_length [OF pc] none show False
    by (simp add: codec_put_def checked_add_def POLICY_HEADER_def usize_max_def)
qed

lemma communicate_error:
  assumes "communicate c buf sv = (Inl e, sv', buf')"
  shows "sv' = sv \<and> buf' = buf"
proof -
  have same: "splice buf MM_HEADER m = buf" if "slice_get buf MM_HEADER k = Some m" for k m
    using that by (intro splice_same) (auto simp: slice_get_eq_Some)
  from assms show ?thesis
    unfolding communicate_def Let_def
    by (auto simp: bind_eq_Some_conv same dest!: variable_message_error policy_message_error
        split: if_splits option.splits prod.splits)
qed

section \<open>The machine\<close>

text \<open>A turn: the guest's message, or the device persisting the store.\<close>

inductive service_step :: "('u, 'k) crypto \<Rightarrow> service \<Rightarrow> service \<Rightarrow> bool" for c where
  message: "communicate c buf sv = (r, sv', buf') \<Longrightarrow> service_step c sv sv'"
| persist: "take_image sv = (r, sv') \<Longrightarrow> service_step c sv sv'"
| written: "service_step c sv (mark_written sv)"

definition reachable :: "('u, 'k) crypto \<Rightarrow> bytes \<Rightarrow> service \<Rightarrow> bool" where
  "reachable c b sv \<longleftrightarrow> (\<exists>sv0. service_new b = Inr sv0 \<and> (service_step c)\<^sup>*\<^sup>* sv0 sv)"

end
