(* ===== verification/Uefi_Security.thy ===== *)
theory Uefi_Security
  imports Uefi_Step
begin

text \<open>
  What protects the Secure Boot keys and the other authenticated variables: once a platform key is
  enrolled, PK, KEK and the signature databases change only by a write signed through a chain that
  ends in the keys above them; a private authenticated variable changes only by its recorded
  signer; timestamps never go back.
\<close>

text \<open>The keys a Secure Boot variable is checked against.\<close>

definition signing_keys :: "service \<Rightarrow> kind \<Rightarrow> bytes list" where
  "signing_keys sv k =
     (case look sv PK_KEY of
        None \<Rightarrow> []
      | Some pk \<Rightarrow>
          (case k of
             Db \<Rightarrow> (case look sv KEK_KEY of None \<Rightarrow> [] | Some kek \<Rightarrow> [v_data kek]) @ [v_data pk]
           | _ \<Rightarrow> [v_data pk]))"

lemma check_secure_boot_signed:
  assumes "check_secure_boot c sv k g n at a = None" and "pk_enrolled sv"
  shows "trusted_signature c (a_signature a) (signed_content n g at a) (signing_keys sv k)"
proof -
  from assms(2) obtain pk where "look sv PK_KEY = Some pk" by (auto simp: pk_enrolled_def)
  with assms(1) have "signed_by_any c (a_signature a) (signed_content n g at a) (signing_keys sv k)"
    by (auto simp: check_secure_boot_def sv_data_look signing_keys_def key_defs Let_def
        split: if_splits kind.splits option.splits)
  then show ?thesis by (rule signed_by_any_trusted)
qed

lemma accepted_authenticated:
  assumes "accepted c sv g n at d auth ts signers"
  shows "is_time_based at \<longleftrightarrow> (\<exists>a. auth = Some a)" and "auth = Some a \<Longrightarrow> auth_split d = Inr a"
  using assms by (auto simp: accepted_def split_payload_def split: if_splits sum.splits)

lemma accepted_kind:
  assumes acc: "accepted c sv g n at d auth ts signers" and k: "auth_kind g n = Some k"
  shows "\<exists>a. auth = Some a \<and> auth_split d = Inr a \<and> ts = a_timestamp a \<and> signers = None
    \<and> check_secure_boot c sv k g n at a = None"
proof -
  from acc k have "is_time_based at"
    by (auto simp: accepted_def authorize_def Let_def split: if_splits)
  then obtain a where a: "auth = Some a" "auth_split d = Inr a"
    using accepted_authenticated [OF acc] by blast
  with acc k show ?thesis
    by (auto simp: accepted_def authorize_def Let_def sum_bind_eq_Inr split: if_splits option.splits)
qed

lemma accepted_timestamp:
  assumes acc: "accepted c sv g n at d (Some a) ts signers" and v: "look sv (g, n) = Some v"
  shows "ts = a_timestamp a" and "is_append at \<or> later_than ts (v_timestamp v)"
  using assms
  by (auto simp: accepted_def authorize_def Let_def sum_bind_eq_Inr timestamp_ok_def
      split: if_splits option.splits sum.splits)

text \<open>A plain write cannot reach a time-based authenticated variable.\<close>

lemma accepted_plain:
  assumes acc: "accepted c sv g n at d None ts signers" and v: "look sv (g, n) = Some v"
  shows "\<not> is_time_based (v_attributes v)" and "auth_kind g n = None" and "ts = v_timestamp v"
    and "signers = None"
  using assms accepted_authenticated(1) [OF acc]
  by (auto simp: accepted_def authorize_def Let_def sum_bind_eq_Inr is_time_based_def
      split: if_splits option.splits)

text \<open>The recorded owner of a private variable.\<close>

definition signer_of :: "service \<Rightarrow> guid \<Rightarrow> u16 list \<Rightarrow> bytes option" where
  "signer_of sv g n =
     (case find (\<lambda>(g', n', _). g' = g \<and> n' = n) (signer_records sv) of
        None \<Rightarrow> None | Some (_, _, s) \<Rightarrow> Some s)"

lemma signer_position_find:
  "signer_position rs g n = Some i \<Longrightarrow> find (\<lambda>(g', n', _). g' = g \<and> n' = n) rs = Some (rs ! i)
     \<and> i < length rs"
  unfolding signer_position_def
  by (auto simp: position_eq_Some find_Some_iff)

lemma accepted_private:
  assumes acc: "accepted c sv g n at d (Some a) ts signers" and v: "look sv (g, n) = Some v"
    and k: "auth_kind g n = None"
  shows "\<exists>signer. private_signer c (a_signature a) (signed_content n g at a) = Some signer
    \<and> signer_of sv g n = Some signer"
proof -
  from acc v k have "check_private c sv g n at a (Some v) = Inr signers"
    by (auto simp: accepted_def authorize_def Let_def sum_bind_eq_Inr split: if_splits sum.splits)
  then obtain signer i g' n' where
    ps: "private_signer c (a_signature a) (signed_content n g at a) = Some signer"
    and pos: "signer_position (signer_records sv) g n = Some i"
    and nth: "nth_get (signer_records sv) i = Some (g', n', signer)"
    by (auto simp: check_private_def Let_def split: option.splits if_splits)
  have "find (\<lambda>(g', n', _). g' = g \<and> n' = n) (signer_records sv) = Some (g', n', signer)"
    using signer_position_find [OF pos] nth by (simp add: nth_get_eq_Some)
  with ps show ?thesis by (simp add: signer_of_def)
qed

section \<open>The keys\<close>

lemma set_variable_secure_boot:
  assumes ok: "store_ok (sv_store sv)" and pk: "pk_enrolled sv"
    and s: "set_variable c g n at d sv = (s, sv')" and k: "auth_kind (fst key) (snd key) = Some k"
    and ch: "look sv' key \<noteq> look sv key"
  shows "key = (g, n) \<and> s = SUCCESS \<and> (\<exists>a. auth_split d = Inr a
    \<and> trusted_signature c (a_signature a) (signed_content n g at a) (signing_keys sv k))"
proof -
  have "key \<notin> internal_keys" using auth_kind_not_internal [of "fst key" "snd key"] k by simp
  with set_variable_other [OF ok s] ch have key: "key = (g, n)" by blast
  with set_variable_self [OF ok s] ch obtain auth ts signers where
    "s = SUCCESS" and acc: "accepted c sv g n at d auth ts signers" by auto
  moreover from accepted_kind [OF acc] key k obtain a where
    "auth_split d = Inr a" "check_secure_boot c sv k g n at a = None" by auto
  ultimately show ?thesis using check_secure_boot_signed [OF _ pk] key by blast
qed

lemma guest_step_store:
  assumes "guest_step c sv sv'" and "sv_store sv' \<noteq> sv_store sv"
  shows "\<exists>g n at d s. guid_ok g \<and> 0 \<notin> set n \<and> set_variable c g n at d sv = (s, sv')"
  using assms by (cases rule: guest_step.cases) (simp_all, blast)

lemma take_image_same:
  assumes "take_image sv = (r, sv')"
  shows "sv_store sv' = sv_store sv" "sv_policies sv' = sv_policies sv" "sv_locks sv' = sv_locks sv"
    "sv_end_of_dxe sv' = sv_end_of_dxe sv" "sv_runtime sv' = sv_runtime sv"
  using assms by (auto simp: take_image_def split: if_splits prod.splits option.splits)

lemma mark_written_same [simp]:
  "sv_store (mark_written sv) = sv_store sv" "sv_policies (mark_written sv) = sv_policies sv"
  "sv_locks (mark_written sv) = sv_locks sv" "sv_end_of_dxe (mark_written sv) = sv_end_of_dxe sv"
  "sv_runtime (mark_written sv) = sv_runtime sv" "sv_image (mark_written sv) = sv_image sv"
  by (simp_all add: mark_written_def)

section \<open>Phases\<close>

text \<open>What a step never undoes: the phases, the locks, the policies once locked.\<close>

definition phase_le :: "service \<Rightarrow> service \<Rightarrow> bool" where
  "phase_le sv sv' \<longleftrightarrow>
     (sv_end_of_dxe sv \<longrightarrow> sv_end_of_dxe sv') \<and> (sv_runtime sv \<longrightarrow> sv_runtime sv')
     \<and> set (sv_locks sv) \<subseteq> set (sv_locks sv')
     \<and> (ps_locked (sv_policies sv) \<longrightarrow> sv_policies sv' = sv_policies sv)
     \<and> set (ps_list (sv_policies sv)) \<subseteq> set (ps_list (sv_policies sv'))
     \<and> ps_enabled (sv_policies sv') = ps_enabled (sv_policies sv)"

lemma phase_le_refl: "phase_le sv sv"
  by (simp add: phase_le_def)

lemma phase_le_trans: "phase_le a b \<Longrightarrow> phase_le b c \<Longrightarrow> phase_le a c"
  unfolding phase_le_def by auto

lemma policies_register_phase:
  "set (ps_list ps) \<subseteq> set (ps_list (snd (policies_register p ps)))
   \<and> ps_enabled (snd (policies_register p ps)) = ps_enabled ps"
  by (auto simp: policies_register_def Let_def)

lemma guest_step_phase:
  assumes "store_ok (sv_store sv)" and "guest_step c sv sv'"
  shows "phase_le sv sv'"
  using assms(2)
proof (cases rule: guest_step.cases)
  case (set_var g n at d s)
  then show ?thesis
    using set_variable_touches [OF assms(1)] by (fastforce simp: touches_def phase_le_def)
next
  case boot
  then show ?thesis by (cases "sv_policies sv") (auto simp: phase_le_def policies_lock_def)
next
  case lock_policies
  then show ?thesis by (cases "sv_policies sv") (auto simp: phase_le_def policies_lock_def)
next
  case (register b p)
  then show ?thesis using policies_register_phase by (auto simp: phase_le_def)
qed (auto simp: phase_le_def)

lemma service_step_phase:
  assumes "store_ok (sv_store sv)" and "service_step c sv sv'"
  shows "phase_le sv sv'"
  using assms(2)
proof (cases rule: service_step.cases)
  case (message buf r buf')
  then show ?thesis using guest_step_phase [OF assms(1) communicate_step] by blast
next
  case (persist r)
  then show ?thesis using take_image_same [OF persist] by (simp add: phase_le_def)
next
  case written
  then show ?thesis by (simp add: phase_le_def)
qed

section \<open>Read-only variables\<close>

lemma guest_step_read_only:
  assumes ok: "store_ok (sv_store sv)" and st: "guest_step c sv sv'"
    and ro: "read_only sv (fst k) (snd k)" and k: "k \<notin> internal_keys"
  shows "look sv' k = look sv k"
proof (rule ccontr)
  assume ch: "look sv' k \<noteq> look sv k"
  then have "sv_store sv' \<noteq> sv_store sv" by metis
  with guest_step_store [OF st] obtain g n at d s where s: "set_variable c g n at d sv = (s, sv')" by blast
  with set_variable_other [OF ok s] ch k have kk: "k = (g, n)" by blast
  with set_variable_self [OF ok s] ch obtain auth ts signers where
    "accepted c sv g n at d auth ts signers" by auto
  from accepted_writable(1) [OF this] ro kk show False by simp
qed

text \<open>At run time the variables without runtime access stand still, the internal ones apart.\<close>

lemma guest_step_runtime:
  assumes ok: "store_ok (sv_store sv)" and st: "guest_step c sv sv'" and rt: "sv_runtime sv"
    and k: "k \<notin> internal_keys"
    and nrt: "\<forall>v. look sv k = Some v \<longrightarrow> v_attributes v AND RUNTIME_ACCESS = 0 \<or> \<not> non_volatile v"
    and ch: "look sv' k \<noteq> look sv k"
  shows "look sv k = None \<and> (\<exists>v. look sv' k = Some v
    \<and> v_attributes v AND RUNTIME_ACCESS \<noteq> 0 \<and> non_volatile v)"
proof -
  from ch have "sv_store sv' \<noteq> sv_store sv" by metis
  with guest_step_store [OF st] obtain g n at d s where s: "set_variable c g n at d sv = (s, sv')" by blast
  with set_variable_other [OF ok s] ch k have kk: "k = (g, n)" by blast
  with set_variable_self [OF ok s] ch obtain auth ts signers where
    acc: "accepted c sv g n at d auth ts signers"
    and r: "if is_deleting at (payload_of auth d) then look sv' (g, n) = None
       else \<exists>data. new_data g n at (payload_of auth d) (look sv (g, n)) = Some data
         \<and> look sv' (g, n) = Some (new_variable g n at data ts (look sv (g, n)))" by auto
  from acc have ex: "existing_check sv (look sv (g, n)) at = None"
    by (auto simp: accepted_def write_guards_def split: if_splits option.splits)
  have none: "look sv (g, n) = None"
    using ex rt nrt kk by (auto simp: existing_check_def Let_def split: option.splits if_splits)
  with r ch kk have nd: "\<not> is_deleting at (payload_of auth d)"
    and v: "look sv' (g, n) = Some (new_variable g n at (payload_of auth d) ts None)"
    by (auto simp: new_data_def split: if_splits)
  from nd have "at \<noteq> 0" by (auto simp: is_deleting_def)
  with ex rt none v kk show ?thesis
    by (auto simp: existing_check_def Let_def new_variable_def non_volatile_def split: if_splits)
qed

end
