(* ===== verification/Uefi_Invariant.thy ===== *)
theory Uefi_Invariant
  imports Uefi_Security
begin

text \<open>
  The invariant of the service, kept by every message: one variable per key, every variable one the
  store file can hold, the Secure Boot modes in step with the enrolled keys, and the non-volatile
  variables within the room of the store file, so that persisting them never fails.
\<close>

section \<open>The shape of a write\<close>

lemma put_variable_mono:
  "store_ok (sv_store sv) \<Longrightarrow> v_key v \<in> K \<Longrightarrow> touches K sv (put_variable v sv)"
  using touches_mono [OF put_variable_touches] by blast

text \<open>Every accepted write is a change to its own variable and to the signer records, then, for a
  Secure Boot variable, the refresh of the modes.\<close>

lemma set_variable_shape:
  assumes ok: "store_ok (sv_store sv)" and s: "set_variable c g n at d sv = (s, sv')"
  obtains "sv' = sv"
  | sv1 auth ts signers where "accepted c sv g n at d auth ts signers"
      "touches {(g, n), SIGNERS_KEY} sv sv1"
      "sv' = (if auth_kind g n \<noteq> None then after_key_change sv1 else sv1)"
      "sv1 = forget_signer g n (removed g n sv)
       \<or> (\<exists>data. new_data g n at (payload_of auth d) (look sv (g, n)) = Some data
            \<and> list_all (\<lambda>v. saturating_add (name_size (v_name v)) (length (v_data v)) \<le> MAX_VARIABLE_SIZE)
                 (stored_variables g n at data ts signers (look sv (g, n)))
            \<and> fits sv (stored_variables g n at data ts signers (look sv (g, n)))
            \<and> sv1 = fold put_variable (stored_variables g n at data ts signers (look sv (g, n))) sv)"
  using s
proof (cases rule: set_variable_cases)
  case unchanged
  then show ?thesis using that by blast
next
  case (deleted auth ts signers)
  obtain v where v: "look sv (g, n) = Some v" using delete_variable_found [OF deleted(4)] ..
  let ?sv1 = "forget_signer g n (removed g n sv)"
  note r = removed_touches [OF ok, of g n]
  have "touches {(g, n), SIGNERS_KEY} sv ?sv1"
    using touches_trans [OF r forget_signer_touches [OF touches_ok [OF r]]] by (simp add: insert_commute)
  moreover have "sv' = (if auth_kind g n \<noteq> None then after_key_change ?sv1 else ?sv1)"
    using delete_variable_eq [OF v] deleted(4) by (simp add: Let_def)
  ultimately show ?thesis using that deleted by blast
next
  case (stored auth ts signers)
  obtain data where data: "new_data g n at (payload_of auth d) (look sv (g, n)) = Some data"
    and fit: "fits sv (stored_variables g n at data ts signers (look sv (g, n)))"
    and sv': "sv' = (let sv = fold put_variable (stored_variables g n at data ts signers (look sv (g, n))) sv
            in if auth_kind g n \<noteq> None then after_key_change sv else sv)"
    and sz: "saturating_add (name_size n) (length data) \<le> MAX_VARIABLE_SIZE"
      "\<And>d. signers = Some d \<Longrightarrow> saturating_add (name_size (utf16 SIGNERS)) (length d) \<le> MAX_VARIABLE_SIZE"
    using store_variable_found [OF stored(4)] by blast
  let ?vs = "stored_variables g n at data ts signers (look sv (g, n))"
  have sizes: "list_all (\<lambda>v. saturating_add (name_size (v_name v)) (length (v_data v)) \<le> MAX_VARIABLE_SIZE) ?vs"
    using sz by (simp add: stored_variables_def internal_variable_def split: option.splits)
  have "v_key ` set ?vs \<subseteq> {(g, n), SIGNERS_KEY}"
    by (auto simp: stored_variables_def SIGNERS_KEY_def internal_variable_def split: option.splits)
  then have "touches {(g, n), SIGNERS_KEY} sv (fold put_variable ?vs sv)"
    by (rule touches_mono [OF fold_put_variable_touches [OF ok]])
  then show ?thesis using that stored(2) data sizes fit sv' by (simp add: Let_def)
qed

section \<open>The modes\<close>

definition mode_var :: "string \<Rightarrow> bytes \<Rightarrow> variable" where
  "mode_var n d = internal_variable GLOBAL_VARIABLE n rt_attributes d"

definition modes_ok :: "service \<Rightarrow> bool" where
  "modes_ok sv \<longleftrightarrow>
     look sv (GLOBAL_VARIABLE, utf16 SETUP_MODE) = Some (mode_var SETUP_MODE [bool_u8 (\<not> pk_enrolled sv)])
     \<and> (\<exists>b. look sv (GLOBAL_VARIABLE, utf16 SECURE_BOOT) = Some (mode_var SECURE_BOOT [bool_u8 b])
           \<and> (b \<longrightarrow> pk_enrolled sv))
     \<and> look sv (GLOBAL_VARIABLE, utf16 AUDIT_MODE) = Some (mode_var AUDIT_MODE [0])
     \<and> look sv (GLOBAL_VARIABLE, utf16 DEPLOYED_MODE) = Some (mode_var DEPLOYED_MODE [0])
     \<and> look sv (GLOBAL_VARIABLE, utf16 SIGNATURE_SUPPORT) = Some (mode_var SIGNATURE_SUPPORT signature_support)
     \<and> (\<exists>b. look sv (GLOBAL_VARIABLE, utf16 VENDOR_KEYS) = Some (mode_var VENDOR_KEYS [b]))"

lemma modes_ok_cong:
  assumes "modes_ok sv" and "\<And>k. k \<in> mode_keys \<Longrightarrow> look sv' k = look sv k"
    and "look sv' PK_KEY = look sv PK_KEY"
  shows "modes_ok sv'"
proof -
  have "look sv' (GLOBAL_VARIABLE, utf16 n) = look sv (GLOBAL_VARIABLE, utf16 n)"
    if "n \<in> {SETUP_MODE, SECURE_BOOT, AUDIT_MODE, DEPLOYED_MODE, SIGNATURE_SUPPORT, VENDOR_KEYS}" for n
    by (rule assms(2)) (use that in \<open>auto simp: mode_keys_def\<close>)
  moreover have "pk_enrolled sv' = pk_enrolled sv" using assms(3) by (simp add: pk_enrolled_def)
  ultimately show ?thesis using assms(1) by (simp add: modes_ok_def)
qed

lemma PK_not_mode: "PK_KEY \<notin> mode_keys"
  using PK_not_internal by (auto simp: internal_keys_def)

lemma refresh_modes_ok:
  assumes "store_ok (sv_store sv)"
  shows "modes_ok (refresh_modes sv)"
proof -
  have "look (refresh_modes sv) PK_KEY = look sv PK_KEY"
    using touches_look [OF refresh_modes_touches [OF assms]] PK_not_mode by blast
  then have pk: "pk_enrolled (refresh_modes sv) = pk_enrolled sv" by (simp add: pk_enrolled_def)
  have l: "look (refresh_modes sv) (GLOBAL_VARIABLE, utf16 n) = Some (mode_var n d)"
    if "(n, d) \<in> set (mode_values sv)" for n d
    using refresh_modes_look [OF assms that] by (simp add: mode_var_def)
  let ?b = "pk_enrolled sv \<and> secure_boot_enabled sv"
  have "look (refresh_modes sv) (GLOBAL_VARIABLE, utf16 SETUP_MODE) = Some (mode_var SETUP_MODE [bool_u8 (\<not> pk_enrolled sv)])"
    "look (refresh_modes sv) (GLOBAL_VARIABLE, utf16 SECURE_BOOT) = Some (mode_var SECURE_BOOT [bool_u8 ?b])"
    "look (refresh_modes sv) (GLOBAL_VARIABLE, utf16 AUDIT_MODE) = Some (mode_var AUDIT_MODE [0])"
    "look (refresh_modes sv) (GLOBAL_VARIABLE, utf16 DEPLOYED_MODE) = Some (mode_var DEPLOYED_MODE [0])"
    "look (refresh_modes sv) (GLOBAL_VARIABLE, utf16 SIGNATURE_SUPPORT)
      = Some (mode_var SIGNATURE_SUPPORT signature_support)"
    "look (refresh_modes sv) (GLOBAL_VARIABLE, utf16 VENDOR_KEYS) = Some (mode_var VENDOR_KEYS [vendor_value sv])"
    by (rule l; simp add: mode_values_def)+
  then show ?thesis unfolding modes_ok_def pk by blast
qed

lemma after_key_change_modes:
  assumes "store_ok (sv_store sv)"
  shows "modes_ok (after_key_change sv)"
proof -
  let ?sv = "case store_find (sv_store sv) VENDOR_KEYS_NV (utf16 ''VendorKeysNv'') of
          Some v \<Rightarrow> put_internal VENDOR_KEYS_NV ''VendorKeysNv'' (v_attributes v) [0] sv
        | None \<Rightarrow> sv"
  have "store_ok (sv_store ?sv)" using assms put_internal_ok by (auto split: option.splits)
  then show ?thesis unfolding after_key_change_def by (rule refresh_modes_ok)
qed

lemma mode_keys_internal: "k \<in> mode_keys \<Longrightarrow> k \<in> internal_keys \<and> k \<noteq> SIGNERS_KEY \<and> k \<noteq> VENDOR_KEY"
  by (auto simp: internal_keys_def mode_keys_def key_defs)

lemma set_variable_modes:
  assumes ok: "store_ok (sv_store sv)" and m: "modes_ok sv"
    and s: "set_variable c g n at d sv = (s, sv')"
  shows "modes_ok sv'"
  using ok s
proof (cases rule: set_variable_shape)
  case 1
  then show ?thesis using m by simp
next
  case (2 sv1 auth ts signers)
  note w = accepted_writable(2) [OF 2(1)]
  show ?thesis
  proof (cases "auth_kind g n")
    case (Some k)
    then show ?thesis using 2(3) after_key_change_modes [OF touches_ok [OF 2(2)]] by simp
  next
    case None
    have "(g, n) \<noteq> PK_KEY" using None by (auto simp: PK_KEY_def auth_kind_def)
    moreover have "SIGNERS_KEY \<noteq> PK_KEY" by (simp add: key_defs)
    ultimately have pk: "look sv1 PK_KEY = look sv PK_KEY" by (intro touches_look [OF 2(2)]) auto
    have "look sv1 k = look sv k" if "k \<in> mode_keys" for k
      by (rule touches_look [OF 2(2)]) (use mode_keys_internal [OF that] w in auto)
    with modes_ok_cong [OF m _ pk] None 2(3) show ?thesis by simp
  qed
qed

section \<open>Every variable one the store file can hold\<close>

definition vars_ok :: "service \<Rightarrow> bool" where
  "vars_ok sv \<longleftrightarrow> (\<forall>k v. look sv k = Some v \<longrightarrow> variable_ok v)"

lemma vars_okD: "vars_ok sv \<Longrightarrow> look sv k = Some v \<Longrightarrow> variable_ok v"
  unfolding vars_ok_def by blast

lemma vars_ok_list: "store_ok (sv_store sv) \<Longrightarrow> vars_ok sv \<longleftrightarrow> list_all variable_ok (vars (sv_store sv))"
  unfolding vars_ok_def list_all_iff store_lookup_def
  using store_find_iff by (metis prod.collapse)

lemma vars_ok_put:
  "store_ok (sv_store sv) \<Longrightarrow> vars_ok sv \<Longrightarrow> variable_ok v \<Longrightarrow> vars_ok (put_variable v sv)"
  by (auto simp: vars_ok_def put_variable_look)

lemma vars_ok_removed:
  "store_ok (sv_store sv) \<Longrightarrow> vars_ok sv \<Longrightarrow> vars_ok (removed g n sv)"
  by (auto simp: vars_ok_def removed_store kv.look_del)

lemma vars_ok_fold:
  "store_ok (sv_store sv) \<Longrightarrow> vars_ok sv \<Longrightarrow> list_all variable_ok vs \<Longrightarrow> vars_ok (fold put_variable vs sv)"
proof (induction vs arbitrary: sv)
  case (Cons v vs)
  then show ?case
    using vars_ok_put [of sv v] touches_ok [OF put_variable_touches [OF Cons.prems(1)]] by simp
qed simp

text \<open>Names the service uses are ASCII, so they hold no NUL.\<close>

definition ascii_name :: "string \<Rightarrow> bool" where
  "ascii_name s \<longleftrightarrow> (0 :: u16) \<notin> set (utf16 s)"

lemma ascii_names:
  "ascii_name SETUP_MODE" "ascii_name SECURE_BOOT" "ascii_name AUDIT_MODE" "ascii_name DEPLOYED_MODE"
  "ascii_name SIGNATURE_SUPPORT" "ascii_name VENDOR_KEYS" "ascii_name SIGNERS" "ascii_name ''VendorKeysNv''"
  by (simp_all add: ascii_name_def utf16_def name_defs)

lemma time_default_ok [simp]: "time_ok time_default"
  by (simp add: time_ok_def time_default_def)

lemma internal_variable_ok:
  "guid_ok g \<Longrightarrow> ascii_name n \<Longrightarrow> a AND STORED_ATTRIBUTES = a \<Longrightarrow> variable_ok (internal_variable g n a d)"
  by (simp add: variable_ok_def internal_variable_def ascii_name_def)

lemma internal_attributes:
  "rt_attributes AND STORED_ATTRIBUTES = rt_attributes"
  "(NON_VOLATILE OR BOOTSERVICE_ACCESS) AND STORED_ATTRIBUTES = NON_VOLATILE OR BOOTSERVICE_ACCESS"
  by (simp_all add: STORED_ATTRIBUTES_def attribute_defs)

lemma signers_variable_ok:
  "variable_ok (internal_variable CERT_DB SIGNERS (NON_VOLATILE OR BOOTSERVICE_ACCESS) d)"
  by (rule internal_variable_ok) (simp_all add: internal_attributes ascii_names)

abbreviation signers_var :: "bytes \<Rightarrow> variable" where
  "signers_var d \<equiv> internal_variable CERT_DB SIGNERS (NON_VOLATILE OR BOOTSERVICE_ACCESS) d"

lemma put_signer_records_store:
  "sv_store (put_signer_records rs sv) =
     (if rs = [] then store_delete SIGNERS_KEY (sv_store sv)
      else store_set (signers_var (encode_signer_records rs)) (sv_store sv))"
  by (auto simp: put_signer_records_def put_internal_def put_variable_store store_delete_def SIGNERS_KEY_def
      split: option.splits)

lemma vars_ok_signer_records:
  "store_ok (sv_store sv) \<Longrightarrow> vars_ok sv \<Longrightarrow> vars_ok (put_signer_records rs sv)"
  using signers_variable_ok
  by (auto simp: vars_ok_def put_signer_records_store kv.look_del kv.look_upd split: if_splits)

lemma vars_ok_forget: "store_ok (sv_store sv) \<Longrightarrow> vars_ok sv \<Longrightarrow> vars_ok (forget_signer g n sv)"
  by (auto simp: forget_signer_def Let_def vars_ok_signer_records split: option.splits)

lemma vars_ok_refresh:
  assumes "store_ok (sv_store sv)" and "vars_ok sv"
  shows "vars_ok (refresh_modes sv)"
proof -
  have all: "vars_ok (fold (\<lambda>(n, d). put_internal GLOBAL_VARIABLE n rt_attributes d) nds sv)"
    if "\<forall>(n, d) \<in> set nds. ascii_name n" for nds
    using assms that
  proof (induction nds arbitrary: sv)
    case (Cons nd nds)
    obtain n d where nd: "nd = (n, d)" by force
    have "variable_ok (internal_variable GLOBAL_VARIABLE n rt_attributes d)"
      by (rule internal_variable_ok) (use Cons.prems nd in \<open>simp_all add: internal_attributes\<close>)
    then have "vars_ok (put_internal GLOBAL_VARIABLE n rt_attributes d sv)"
      using vars_ok_put [OF Cons.prems(1,2)] by (simp add: put_internal_def)
    then show ?case using Cons.IH put_internal_ok [OF Cons.prems(1)] Cons.prems nd by simp
  qed simp
  show ?thesis unfolding refresh_modes_eq
    by (rule all) (simp add: mode_values_def ascii_names)
qed

lemma after_key_change_eq:
  "after_key_change sv =
     refresh_modes (case look sv VENDOR_KEY of
        Some v \<Rightarrow> put_variable (internal_variable VENDOR_KEYS_NV ''VendorKeysNv'' (v_attributes v) [0]) sv
      | None \<Rightarrow> sv)"
  by (simp add: after_key_change_def store_lookup_def VENDOR_KEY_def put_internal_def split: option.split)

lemma vars_ok_after_key_change:
  assumes "store_ok (sv_store sv)" and "vars_ok sv"
  shows "vars_ok (after_key_change sv)"
proof (cases "look sv VENDOR_KEY")
  case None
  then show ?thesis using vars_ok_refresh [OF assms] by (simp add: after_key_change_eq)
next
  case (Some v)
  then have "v_attributes v AND STORED_ATTRIBUTES = v_attributes v"
    using vars_okD [OF assms(2)] by (auto simp: variable_ok_def)
  then have "variable_ok (internal_variable VENDOR_KEYS_NV ''VendorKeysNv'' (v_attributes v) [0])"
    by (intro internal_variable_ok) (simp_all add: ascii_names)
  from vars_ok_put [OF assms this] touches_ok [OF put_variable_touches [OF assms(1)]] Some
  show ?thesis by (simp add: after_key_change_eq vars_ok_refresh)
qed

lemma and_stored_idem: "(a AND STORED_ATTRIBUTES) AND STORED_ATTRIBUTES = a AND STORED_ATTRIBUTES"
  by (simp add: and.assoc)

lemma new_variable_ok:
  assumes "guid_ok g" and "0 \<notin> set n" and "time_ok ts"
    and "\<And>v. existing = Some v \<Longrightarrow> variable_ok v"
  shows "variable_ok (new_variable g n at d ts existing)"
  using assms
  by (cases existing) (auto simp: variable_ok_def new_variable_def and_stored_idem)

lemma accepted_time_ok:
  assumes acc: "accepted c sv g n at d auth ts signers"
    and ok: "\<And>v. look sv (g, n) = Some v \<Longrightarrow> variable_ok v"
  shows "time_ok ts"
proof (cases auth)
  case (Some a)
  then have "auth_split d = Inr a" using accepted_authenticated(2) [OF acc] by simp
  then have "time_ok (a_timestamp a)" by (rule auth_split_Inr)
  moreover have "ts = a_timestamp a"
    using acc Some by (auto simp: accepted_def authorize_def Let_def sum_bind_eq_Inr
        split: if_splits option.splits sum.splits)
  ultimately show ?thesis by simp
next
  case None
  then have "ts = (case look sv (g, n) of None \<Rightarrow> time_default | Some v \<Rightarrow> v_timestamp v)"
    using acc by (auto simp: accepted_def authorize_def Let_def sum_bind_eq_Inr
        split: if_splits option.splits)
  then show ?thesis using ok by (auto simp: variable_ok_def split: option.splits)
qed

lemma set_variable_vars_ok:
  assumes ok: "store_ok (sv_store sv)" and v: "vars_ok sv" and g: "guid_ok g" "0 \<notin> set n"
    and s: "set_variable c g n at d sv = (s, sv')"
  shows "vars_ok sv'"
  using ok s
proof (cases rule: set_variable_shape)
  case 1
  then show ?thesis using v by simp
next
  case (2 sv1 auth ts signers)
  have old: "variable_ok w" if "look sv (g, n) = Some w" for w by (rule vars_okD [OF v that])
  have "vars_ok sv1"
    using 2(4)
  proof (elim disjE exE conjE)
    assume "sv1 = forget_signer g n (removed g n sv)"
    then show ?thesis
      using vars_ok_forget vars_ok_removed [OF ok v] touches_ok [OF removed_touches [OF ok]] by simp
  next
    fix data
    assume sv1: "sv1 = fold put_variable (stored_variables g n at data ts signers (look sv (g, n))) sv"
    have "list_all variable_ok (stored_variables g n at data ts signers (look sv (g, n)))"
      using new_variable_ok [OF g accepted_time_ok [OF 2(1) old] old] signers_variable_ok
      by (simp add: stored_variables_def split: option.splits)
    then show ?thesis unfolding sv1 by (rule vars_ok_fold [OF ok v])
  qed
  then show ?thesis using 2(3) vars_ok_after_key_change [OF touches_ok [OF 2(2)]] by simp
qed

end
