(* ===== verification/Uefi_Budget.thy ===== *)
theory Uefi_Budget
  imports Uefi_Invariant
begin

text \<open>
  The room of the store file. The budget \<open>fits\<close> checks, and the shrinking of everything the service
  writes without checking (the signer records of a deleted variable, the vendor-keys flag), keep the
  non-volatile variables within the image's capacity.
\<close>

section \<open>Room of one change\<close>

abbreviation nv_room :: "service \<Rightarrow> nat" where
  "nv_room sv \<equiv> room (sv_store sv) True"

definition nv_size :: "variable option \<Rightarrow> nat" where
  "nv_size v = (case v of None \<Rightarrow> 0 | Some v \<Rightarrow> if non_volatile v then stored_size v else 0)"

lemma nv_size_simps [simp]:
  "nv_size None = 0" "nv_size (Some v) = (if non_volatile v then stored_size v else 0)"
  by (simp_all add: nv_size_def)

lemma room_set_nv:
  assumes "store_ok s"
  shows "room (store_set v s) True + nv_size (store_lookup s (v_key v)) = room s True + nv_size (Some v)"
  using room_set [OF assms, of v True] room_delete [OF assms, of True "v_key v"]
  by (auto split: option.splits)

lemma room_delete_nv:
  assumes "store_ok s"
  shows "room (store_delete k s) True + nv_size (store_lookup s k) = room s True"
  using room_delete [OF assms, of True k] by (auto split: option.splits)

lemma nv_size_room:
  assumes "store_ok s"
  shows "nv_size (store_lookup s k) \<le> room s True"
  using room_delete_nv [OF assms, of k] by linarith

lemma put_variable_room:
  assumes "store_ok (sv_store sv)" and "nv_size (Some v) \<le> nv_size (look sv (v_key v))"
  shows "nv_room (put_variable v sv) \<le> nv_room sv"
  using room_set_nv [OF assms(1), of v] assms(2) by (simp only: put_variable_store)

lemma stored_size_mono:
  assumes "length (v_name v) = length (v_name w)" and "length (v_data v) \<le> length (v_data w)"
  shows "stored_size v \<le> stored_size w"
proof -
  have "saturating_add a b \<le> saturating_add a' b'" if "a \<le> a'" "b \<le> b'" for a b a' b'
    using that by (auto simp: saturating_add_def)
  moreover have "x - (x AND 3) \<le> y - (y AND 3)" if "x \<le> y" for x y :: nat
    using that by (simp add: nat_and_3 minus_mod_eq_div_mult div_le_mono)
  ultimately show ?thesis
    using assms unfolding stored_size_def Let_def by (simp add: div_le_mono)
qed

text \<open>The six modes are volatile: they take no room in the store file.\<close>

lemma mode_volatile: "\<not> non_volatile (internal_variable GLOBAL_VARIABLE n rt_attributes d)"
  by (simp add: non_volatile_def internal_variable_def attribute_defs)

lemma refresh_modes_room:
  assumes "store_ok (sv_store sv)"
  shows "nv_room (refresh_modes sv) \<le> nv_room sv"
proof -
  have "nv_room (fold (\<lambda>(n, d). put_internal GLOBAL_VARIABLE n rt_attributes d) nds sv) \<le> nv_room sv" for nds
    using assms
  proof (induction nds arbitrary: sv)
    case (Cons nd nds)
    obtain n d where nd: "nd = (n, d)" by force
    have "nv_room (put_internal GLOBAL_VARIABLE n rt_attributes d sv) \<le> nv_room sv"
      unfolding put_internal_def by (rule put_variable_room [OF Cons.prems]) (simp add: mode_volatile)
    from le_trans [OF Cons.IH [OF put_internal_ok [OF Cons.prems]] this] show ?case by (simp add: nd)
  qed simp
  then show ?thesis unfolding refresh_modes_eq by blast
qed

section \<open>Signer records\<close>

lemma u16_try_from_length: "unat (w :: u16) = n \<Longrightarrow> u16_try_from n = Some w"
  using unat_lt_u16 [of w] by (auto simp: u16_try_from_def)

lemma read_signer_record_inv:
  assumes "read_signer_record r = Some (rec, r')"
  shows "r = encode_signer_record rec @ r'"
proof -
  from assms obtain g len name signer where rec: "rec = (g, name, signer)"
    and l: "length (ucs2_bytes name) = unat (len :: u16)"
    and r: "r = guid_bytes g @ to_le_bytes len @ ucs2_bytes name @ signer @ r'"
    by (auto simp: read_signer_record_def bind_eq_Some_conv reader_eq_Some ucs2_name_eq_Some)
  from u16_try_from_length [of len] l have "u16_try_from (length (ucs2_bytes name)) = Some len" by simp
  then show ?thesis unfolding rec r encode_signer_record_def Let_def prod.case by (simp only: option.case append_assoc)
qed

lemma read_signer_records_prefix:
  "\<exists>rest. d = encode_signer_records (read_signer_records d) @ rest"
proof (induction d rule: read_signer_records.induct)
  case (1 r)
  show ?case
  proof (cases "r = [] \<or> read_signer_record r = None")
    case True
    then show ?thesis by (auto simp: read_signer_records.simps [of r] encode_signer_records_def)
  next
    case False
    then obtain rec r' where rr: "read_signer_record r = Some (rec, r')" and ne: "r \<noteq> []" by auto
    from "1.IH" [OF ne rr] obtain rest where "r' = encode_signer_records (read_signer_records r') @ rest"
      by auto
    moreover have "read_signer_records r = rec # read_signer_records r'"
      using rr ne by (simp add: read_signer_records.simps [of r])
    moreover note read_signer_record_inv [OF rr]
    ultimately have "r = encode_signer_records (read_signer_records r) @ rest"
      by (simp add: encode_signer_records_def)
    then show ?thesis ..
  qed
qed

lemma encode_signer_records_subseq:
  "length (encode_signer_records (filter P rs)) \<le> length (encode_signer_records rs)"
  by (induction rs) (auto simp: encode_signer_records_def)

lemma encode_signer_records_remove:
  "length (encode_signer_records (list_remove i rs)) \<le> length (encode_signer_records rs)"
proof -
  have "length (encode_signer_records rs)
    = length (encode_signer_records (take i rs)) + length (encode_signer_records (drop i rs))"
    unfolding encode_signer_records_def
    by (metis append_take_drop_id concat_append length_append map_append)
  moreover have "drop (Suc i) rs = tl (drop i rs)" by (simp add: drop_Suc tl_drop)
  then have "length (encode_signer_records (drop (Suc i) rs)) \<le> length (encode_signer_records (drop i rs))"
    by (cases "drop i rs") (simp_all add: encode_signer_records_def)
  ultimately show ?thesis
    unfolding list_remove_def by (simp add: encode_signer_records_def)
qed

text \<open>Rewriting the records with fewer of them never takes more room.\<close>

definition signers_nv :: "service \<Rightarrow> bool" where
  "signers_nv sv \<longleftrightarrow> (\<forall>v. look sv SIGNERS_KEY = Some v \<longrightarrow> non_volatile v)"

lemma signers_var_nv: "non_volatile (signers_var d)"
  by (simp add: non_volatile_def internal_variable_def attribute_defs)

lemma signers_var_key [simp]: "v_key (signers_var d) = SIGNERS_KEY" "v_guid (signers_var d) = CERT_DB"
  "v_name (signers_var d) = utf16 SIGNERS" "v_data (signers_var d) = d"
  by (simp_all add: internal_variable_def SIGNERS_KEY_def)

lemma put_signer_records_room:
  assumes ok: "store_ok (sv_store sv)" and nv: "signers_nv sv"
    and len: "length (encode_signer_records rs) \<le> length (encode_signer_records (signer_records sv))"
    and ne: "signer_records sv \<noteq> []"
  shows "nv_room (put_signer_records rs sv) \<le> nv_room sv"
proof (cases "rs = []")
  case True
  then show ?thesis
    using room_delete_nv [OF ok, of SIGNERS_KEY] by (simp add: put_signer_records_store)
next
  case False
  from ne obtain w where w: "look sv SIGNERS_KEY = Some w" and rec: "signer_records sv = read_signer_records (v_data w)"
    by (auto simp: signer_records_def sv_data_look SIGNERS_KEY_def split: option.splits)
  obtain rest where "v_data w = encode_signer_records (signer_records sv) @ rest"
    using read_signer_records_prefix [of "v_data w"] rec by auto
  then have l: "length (encode_signer_records rs) \<le> length (v_data w)"
    using len by simp
  have n: "v_name w = utf16 SIGNERS" using kv.look_key [OF w] by (simp add: SIGNERS_KEY_def)
  have "non_volatile w" using nv w by (simp add: signers_nv_def)
  moreover have "stored_size (signers_var (encode_signer_records rs)) \<le> stored_size w"
    by (rule stored_size_mono) (simp_all add: n l)
  ultimately have "nv_size (Some (signers_var (encode_signer_records rs))) \<le> nv_size (look sv SIGNERS_KEY)"
    using w by simp
  then show ?thesis
    using False room_set_nv [OF ok, of "signers_var (encode_signer_records rs)"]
    by (simp add: put_signer_records_store SIGNERS_KEY_def)
qed

lemma forget_signer_room:
  assumes "store_ok (sv_store sv)" and "signers_nv sv"
  shows "nv_room (forget_signer g n sv) \<le> nv_room sv"
proof (cases "signer_position (signer_records sv) g n")
  case None
  then show ?thesis by (simp add: forget_signer_def)
next
  case (Some i)
  then have "signer_records sv \<noteq> []" by (auto simp: signer_position_def)
  with Some show ?thesis
    using put_signer_records_room [OF assms encode_signer_records_remove] by (simp add: forget_signer_def)
qed

section \<open>The budget of a write\<close>

lemma nv_size_le_40000:
  assumes "saturating_add (name_size (v_name v)) (length (v_data v)) \<le> MAX_VARIABLE_SIZE"
  shows "stored_size v \<le> 40000"
proof -
  from assms have "2 * length (v_name v) + 2 + length (v_data v) \<le> MAX_VARIABLE_SIZE"
    by (auto simp: name_size_def saturating_add_def saturating_mul_def MAX_VARIABLE_SIZE_def
        AUTH_VARIABLE_HEADER_SIZE_def usize_max_def min_def split: if_splits)
  then have "65 + 2 * length (v_name v) + length (v_data v) \<le> 34000"
    by (simp add: MAX_VARIABLE_SIZE_def AUTH_VARIABLE_HEADER_SIZE_def)
  then show ?thesis using stored_size_eq [of v] by (auto simp: usize_max_def)
qed

text \<open>The arithmetic of \<open>fits\<close>: what it computes bounds the room the variables will take, when
  each replaces a variable of its own kind.\<close>

lemma fits_fold_room:
  assumes "store_ok s" and "distinct (map v_key vs)"
    and "\<And>v. v \<in> set vs \<Longrightarrow> store_lookup s (v_key v) = store_lookup s0 (v_key v)"
    and "\<And>v w. v \<in> set vs \<Longrightarrow> store_lookup s0 (v_key v) = Some w \<Longrightarrow> non_volatile w = non_volatile v"
    and "\<And>v. v \<in> set vs \<Longrightarrow> stored_size v \<le> 40000"
    and "room s True \<le> U" and "U + 40000 * length vs \<le> usize_max"
  shows "room (fold store_set vs s) True
    \<le> foldl (\<lambda>used v. saturating_add (saturating_sub used
          (case store_lookup s0 (v_key v) of None \<Rightarrow> 0 | Some old \<Rightarrow> stored_size old)) (stored_size v))
        U (filter non_volatile vs)"
  using assms
proof (induction vs arbitrary: s U)
  case (Cons v vs)
  let ?old = "case store_lookup s0 (v_key v) of None \<Rightarrow> 0 | Some old \<Rightarrow> stored_size old"
  let ?s = "store_set v s"
  have look: "store_lookup s (v_key v) = store_lookup s0 (v_key v)" using Cons.prems(3) by simp
  have ok: "store_ok ?s" by (rule kv.ok_upd [OF Cons.prems(1)])
  have fresh: "store_lookup ?s (v_key w) = store_lookup s0 (v_key w)" if "w \<in> set vs" for w
  proof -
    have "v_key w \<noteq> v_key v" using Cons.prems(2) that by (auto simp: image_iff)
    then show ?thesis using Cons.prems(3) [of w] that by (auto simp: kv.look_upd [OF Cons.prems(1)])
  qed
  have sz: "stored_size v \<le> 40000" using Cons.prems(5) by simp
  have rs: "room ?s True + nv_size (store_lookup s0 (v_key v)) = room s True + nv_size (Some v)"
    using room_set_nv [OF Cons.prems(1), of v] look by simp
  show ?case
  proof (cases "non_volatile v")
    case True
    have old: "nv_size (store_lookup s0 (v_key v)) = ?old"
      using Cons.prems(4) [of v] True by (auto split: option.splits)
    have le: "?old \<le> room s True" using nv_size_room [OF Cons.prems(1), of "v_key v"] look old by simp
    let ?U = "saturating_add (saturating_sub U ?old) (stored_size v)"
    have U: "?U = U - ?old + stored_size v"
      using sz Cons.prems(7) by (simp add: saturating_add_def saturating_sub_def)
    have "room ?s True \<le> ?U" using rs old le Cons.prems(6) True U by simp
    moreover have "?U + 40000 * length vs \<le> usize_max" using U sz Cons.prems(7) by simp
    ultimately show ?thesis
      using Cons.IH [OF ok _ fresh, of ?U] Cons.prems True by simp
  next
    case False
    then have "room ?s True \<le> U" using rs Cons.prems(6) by simp
    then show ?thesis
      using Cons.IH [OF ok _ fresh, of U] Cons.prems False by simp
  qed
qed simp

lemma fold_put_variable_store: "sv_store (fold put_variable vs sv) = fold store_set vs (sv_store sv)"
  by (induction vs arbitrary: sv) (simp_all add: put_variable_store)

lemma fits_room:
  assumes ok: "store_ok (sv_store sv)" and fit: "fits sv vs" and d: "distinct (map v_key vs)"
    and old: "\<And>v w. v \<in> set vs \<Longrightarrow> look sv (v_key v) = Some w \<Longrightarrow> non_volatile w = non_volatile v"
    and sz: "\<And>v. v \<in> set vs \<Longrightarrow> stored_size v \<le> 40000" and len: "length vs \<le> 2"
    and cap: "nv_room sv \<le> image_capacity (sv_image sv)" "image_capacity (sv_image sv) < 2 ^ 32"
  shows "nv_room (fold put_variable vs sv) \<le> image_capacity (sv_image sv)"
proof (cases "list_ex non_volatile vs")
  case True
  let ?f = "\<lambda>used v. saturating_add (saturating_sub used
          (case store_lookup (sv_store sv) (v_key v) of None \<Rightarrow> 0 | Some old \<Rightarrow> stored_size old)) (stored_size v)"
  have used: "store_used (sv_store sv) True = nv_room sv"
    using store_used_room [OF ok] cap by (simp add: usize_max_def)
  have "foldl ?f (nv_room sv) (filter non_volatile vs) \<le> nv_budget sv True"
    using fit True used by (simp add: fits_def store_lookup_def)
  moreover have "nv_budget sv True \<le> image_capacity (sv_image sv)" by (simp add: nv_budget_def)
  moreover have "room (fold store_set vs (sv_store sv)) True \<le> foldl ?f (nv_room sv) (filter non_volatile vs)"
  proof (rule fits_fold_room [OF ok d _ _ sz])
    show "nv_room sv + 40000 * length vs \<le> usize_max" using cap len by (simp add: usize_max_def)
    show "non_volatile w = non_volatile v" if "v \<in> set vs" "look sv (v_key v) = Some w" for v w
      by (rule old [OF that])
  qed auto
  ultimately show ?thesis by (simp add: fold_put_variable_store)
next
  case False
  have "nv_room (fold put_variable vs sv) \<le> nv_room sv"
    using False ok
  proof (induction vs arbitrary: sv)
    case (Cons v vs)
    have "nv_room (put_variable v sv) \<le> nv_room sv"
      by (rule put_variable_room [OF Cons.prems(2)]) (use Cons.prems(1) in simp)
    moreover have "nv_room (fold put_variable vs (put_variable v sv)) \<le> nv_room (put_variable v sv)"
      using Cons.IH Cons.prems touches_ok [OF put_variable_touches] by simp
    ultimately show ?case by simp
  qed simp
  then show ?thesis using cap(1) by simp
qed

section \<open>The invariant\<close>

definition vendor_ok :: "service \<Rightarrow> bool" where
  "vendor_ok sv \<longleftrightarrow> (\<forall>v. look sv VENDOR_KEY = Some v \<longrightarrow> v_data v \<noteq> [])"

definition budget_ok :: "service \<Rightarrow> bool" where
  "budget_ok sv \<longleftrightarrow> nv_room sv \<le> image_capacity (sv_image sv) \<and> signers_nv sv \<and> vendor_ok sv"

lemma after_key_change_room:
  assumes ok: "store_ok (sv_store sv)" and v: "vendor_ok sv"
  shows "nv_room (after_key_change sv) \<le> nv_room sv"
proof (cases "look sv VENDOR_KEY")
  case None
  then show ?thesis using refresh_modes_room [OF ok] by (simp add: after_key_change_eq)
next
  case (Some w)
  let ?v = "internal_variable VENDOR_KEYS_NV ''VendorKeysNv'' (v_attributes w) [0]"
  have key: "v_key ?v = VENDOR_KEY" by (simp add: internal_variable_def VENDOR_KEY_def)
  have "v_data w \<noteq> []" using v Some by (simp add: vendor_ok_def)
  then have "length (v_data ?v) \<le> length (v_data w)"
    by (cases "v_data w") (simp_all add: internal_variable_def)
  moreover have "length (v_name ?v) = length (v_name w)"
    using kv.look_key [OF Some] by (simp add: internal_variable_def VENDOR_KEY_def)
  ultimately have "stored_size ?v \<le> stored_size w" by (rule stored_size_mono [rotated])
  then have "nv_size (Some ?v) \<le> nv_size (look sv (v_key ?v))"
    unfolding key Some by (simp add: non_volatile_def internal_variable_def)
  from put_variable_room [OF ok this]
    refresh_modes_room [OF touches_ok [OF put_variable_touches [OF ok, of ?v]]]
  show ?thesis by (simp add: after_key_change_eq Some)
qed

lemma signers_nv_cong: "signers_nv sv \<Longrightarrow> look sv' SIGNERS_KEY = look sv SIGNERS_KEY \<Longrightarrow> signers_nv sv'"
  by (simp add: signers_nv_def)

lemma put_signer_records_nv:
  assumes "store_ok (sv_store sv)" and "signers_nv sv"
  shows "signers_nv (put_signer_records rs sv)"
  using assms signers_var_nv
  by (auto simp: signers_nv_def put_signer_records_store kv.look_del kv.look_upd SIGNERS_KEY_def)

lemma forget_signer_nv:
  assumes "store_ok (sv_store sv)" and "signers_nv sv"
  shows "signers_nv (forget_signer g n sv)"
  using put_signer_records_nv [OF assms] assms(2) by (auto simp: forget_signer_def Let_def split: option.splits)

lemma internal_distinct [simp]: "SIGNERS_KEY \<noteq> VENDOR_KEY" "VENDOR_KEY \<noteq> SIGNERS_KEY" "SIGNERS_KEY \<notin> mode_keys" "VENDOR_KEY \<notin> mode_keys"
  by (auto simp: key_defs mode_keys_def)

lemma after_key_change_signers:
  "store_ok (sv_store sv) \<Longrightarrow> signers_nv sv \<Longrightarrow> signers_nv (after_key_change sv)"
  by (erule signers_nv_cong) (rule touches_look [OF after_key_change_touches], auto)

lemma after_key_change_vendor:
  assumes ok: "store_ok (sv_store sv)" and v: "vendor_ok sv"
  shows "vendor_ok (after_key_change sv)"
proof (cases "look sv VENDOR_KEY")
  case None
  then have "look (after_key_change sv) VENDOR_KEY = None"
    using touches_look [OF refresh_modes_touches [OF ok], of VENDOR_KEY] by (simp add: after_key_change_eq)
  then show ?thesis by (simp add: vendor_ok_def)
next
  case (Some w)
  let ?v = "internal_variable VENDOR_KEYS_NV ''VendorKeysNv'' (v_attributes w) [0]"
  have key: "v_key ?v = VENDOR_KEY" by (simp add: internal_variable_def VENDOR_KEY_def)
  have "look (after_key_change sv) VENDOR_KEY = look (put_variable ?v sv) VENDOR_KEY"
    using touches_look [OF refresh_modes_touches [OF touches_ok [OF put_variable_touches [OF ok]]], of VENDOR_KEY]
    by (simp add: after_key_change_eq Some)
  also have "\<dots> = Some ?v" using put_variable_look [OF ok, of ?v VENDOR_KEY] key by simp
  finally show ?thesis by (simp add: vendor_ok_def internal_variable_def)
qed

text \<open>The write before the modes are refreshed.\<close>

lemma stored_budget:
  assumes ok: "store_ok (sv_store sv)" and b: "budget_ok sv" and w: "(g, n) \<notin> internal_keys"
    and cap: "image_capacity (sv_image sv) < 2 ^ 32"
    and sz: "list_all (\<lambda>v. saturating_add (name_size (v_name v)) (length (v_data v)) \<le> MAX_VARIABLE_SIZE)
      (stored_variables g n at data ts signers (look sv (g, n)))"
    and fit: "fits sv (stored_variables g n at data ts signers (look sv (g, n)))"
  shows "budget_ok (fold put_variable (stored_variables g n at data ts signers (look sv (g, n))) sv)"
proof -
  let ?v = "new_variable g n at data ts (look sv (g, n))"
  let ?vs = "stored_variables g n at data ts signers (look sv (g, n))"
  let ?sv = "fold put_variable ?vs sv"
  from w have ne: "(g, n) \<noteq> SIGNERS_KEY" "(g, n) \<noteq> VENDOR_KEY" by (auto simp: internal_keys_def)
  have vs: "set ?vs \<subseteq> {?v} \<union> range signers_var"
    by (auto simp: stored_variables_def split: option.splits)
  have t: "touches {(g, n), SIGNERS_KEY} sv ?sv"
    by (rule touches_mono [OF fold_put_variable_touches [OF ok]]) (use vs in \<open>auto simp: SIGNERS_KEY_def\<close>)
  have "nv_room ?sv \<le> image_capacity (sv_image sv)"
  proof (rule fits_room [OF ok fit])
    show "distinct (map v_key ?vs)"
      using ne(1) by (auto simp: stored_variables_def SIGNERS_KEY_def split: option.splits)
    show "non_volatile w = non_volatile v" if "v \<in> set ?vs" "look sv (v_key v) = Some w" for v w
      using vs that b signers_var_nv
      by (auto simp: new_variable_def non_volatile_def budget_ok_def signers_nv_def SIGNERS_KEY_def)
    show "stored_size v \<le> 40000" if "v \<in> set ?vs" for v
      using sz that nv_size_le_40000 by (auto simp: list_all_iff)
    show "length ?vs \<le> 2" by (simp add: stored_variables_def split: option.splits)
  qed (use b cap in \<open>simp_all add: budget_ok_def\<close>)
  moreover have "sv_image ?sv = sv_image sv" using t by (simp add: touches_def)
  moreover have "look ?sv VENDOR_KEY = look sv VENDOR_KEY"
    by (rule touches_look [OF t]) (use ne in auto)
  moreover have "signers_nv ?sv"
  proof (cases signers)
    case None
    then have "look ?sv SIGNERS_KEY = look sv SIGNERS_KEY"
      using ne put_variable_look [OF ok, of ?v SIGNERS_KEY] by (auto simp: stored_variables_def)
    then show ?thesis using b signers_nv_cong by (auto simp: budget_ok_def)
  next
    case (Some d)
    have ok2: "store_ok (sv_store (put_variable ?v sv))" by (rule touches_ok [OF put_variable_touches [OF ok]])
    have "look (put_variable (signers_var d) (put_variable ?v sv)) SIGNERS_KEY = Some (signers_var d)"
      using put_variable_look [OF ok2, of "signers_var d" SIGNERS_KEY]
      by (simp add: SIGNERS_KEY_def)
    then show ?thesis using Some signers_var_nv by (simp add: stored_variables_def signers_nv_def)
  qed
  ultimately show ?thesis using b by (simp add: budget_ok_def vendor_ok_def)
qed

lemma removed_budget:
  assumes ok: "store_ok (sv_store sv)" and b: "budget_ok sv" and w: "(g, n) \<notin> internal_keys"
  shows "budget_ok (forget_signer g n (removed g n sv))"
proof -
  from w have ne: "(g, n) \<noteq> SIGNERS_KEY" "(g, n) \<noteq> VENDOR_KEY" by (auto simp: internal_keys_def)
  note t = removed_touches [OF ok, of g n]
  note ok1 = touches_ok [OF t]
  have nv: "signers_nv (removed g n sv)"
    by (rule signers_nv_cong [of sv]) (use b touches_look [OF t] ne in \<open>auto simp: budget_ok_def\<close>)
  have "nv_room (removed g n sv) \<le> nv_room sv"
    using room_delete_nv [OF ok, of "(g, n)"] by (simp add: removed_store)
  then have "nv_room (forget_signer g n (removed g n sv)) \<le> nv_room sv"
    using forget_signer_room [OF ok1 nv, of g n] by simp
  moreover note forget_signer_nv [OF ok1 nv, of g n]
  moreover have t2: "touches {(g, n), SIGNERS_KEY} sv (forget_signer g n (removed g n sv))"
    using touches_trans [OF t forget_signer_touches [OF ok1]] by (simp add: insert_commute)
  moreover have "sv_image (forget_signer g n (removed g n sv)) = sv_image sv"
    using t2 by (simp add: touches_def)
  moreover have "look (forget_signer g n (removed g n sv)) VENDOR_KEY = look sv VENDOR_KEY"
    by (rule touches_look [OF t2]) (use ne in auto)
  ultimately show ?thesis using b by (simp add: budget_ok_def vendor_ok_def)
qed

lemma set_variable_budget:
  assumes ok: "store_ok (sv_store sv)" and b: "budget_ok sv"
    and cap: "image_capacity (sv_image sv) < 2 ^ 32" and s: "set_variable c g n at d sv = (s, sv')"
  shows "budget_ok sv'"
  using ok s
proof (cases rule: set_variable_shape)
  case 1
  then show ?thesis using b by simp
next
  case (2 sv1 auth ts signers)
  note w = accepted_writable(2) [OF 2(1)]
  have b1: "budget_ok sv1"
    using 2(4) removed_budget [OF ok b w] stored_budget [OF ok b w cap] by blast
  note ok1 = touches_ok [OF 2(2)]
  have "budget_ok (after_key_change sv1)"
    using b1 after_key_change_room [OF ok1] after_key_change_signers [OF ok1] after_key_change_vendor [OF ok1]
      after_key_change_touches [OF ok1]
    by (auto simp: budget_ok_def touches_def)
  then show ?thesis using 2(3) b1 by simp
qed

end
