(* ===== verification/Uefi_Machine.thy ===== *)
theory Uefi_Machine
  imports Uefi_Budget
begin

text \<open>
  The invariant of the whole service: it holds of the service a store file starts, every message
  and every write-back keeps it, and so it holds wherever the machine can get. What follows from it:
  persisting never fails, and a service started on what was persisted has the same variables.
\<close>

section \<open>What a store file holds\<close>

lemma read_var_header_ok:
  "read_var_header h = Some x \<Longrightarrow> guid_ok (h_vendor x) \<and> length (h_timestamp x) = 16"
  by (auto simp: read_var_header_def bind_eq_Some_conv reader_eq_Some)

lemma scan_variable_var:
  assumes "scan_variable b e (at + 60) h = Inr (v, at')" and "4 dvd at"
    and "guid_ok (h_vendor h)" "length (h_timestamp h) = 16"
  shows "4 dvd at' \<and> at \<le> at' \<and> (4 dvd e \<longrightarrow> at' \<le> e)
    \<and> (\<forall>w. v = Some w \<longrightarrow> variable_ok w \<and> stored_size w + at = at')"
proof -
  from assms(1) obtain var_end where ve: "var_end = at + 60 + h_name_size h + h_data_size h"
    and le: "var_end \<le> e" and al: "align_up var_end 4 = Some at'"
    and v: "v = None \<or> (\<exists>name. codec_get b (at + 60) (h_name_size h) = Some (ucs2_bytes name) \<and> 0 \<notin> set name
      \<and> (\<exists>data. codec_get b (at + 60 + h_name_size h) (h_data_size h) = Some data
      \<and> v = Some \<lparr>v_guid = h_vendor h, v_name = name,
            v_attributes = h_attributes h AND STORED_ATTRIBUTES, v_data = data,
            v_timestamp = EfiTime (h_timestamp h)\<rparr>))"
    by (auto simp: scan_variable_def sum_bind_eq_Inr ucs2_name_eq_Some split: if_splits)
  have at': "at' = align4 var_end" and um: "var_end + 3 \<le> usize_max"
    using al by (auto simp: align_up_4 align4_def split: if_splits)
  have "4 dvd at'" "at \<le> at'" using at' align4_dvd align4_ge [of var_end] ve by auto
  moreover have "at' \<le> e" if "4 dvd e"
    using that le unfolding at' align4_def by (auto elim!: dvdE)
  moreover have "variable_ok w \<and> stored_size w + at = at'" if w: "v = Some w" for w
  proof -
    obtain name data where n: "codec_get b (at + 60) (h_name_size h) = Some (ucs2_bytes name)" "0 \<notin> set name"
      and d: "codec_get b (at + 60 + h_name_size h) (h_data_size h) = Some data"
      and w: "w = \<lparr>v_guid = h_vendor h, v_name = name, v_attributes = h_attributes h AND STORED_ATTRIBUTES,
            v_data = data, v_timestamp = EfiTime (h_timestamp h)\<rparr>"
      using v w by auto
    have ns: "h_name_size h = 2 * length name + 2"
    proof -
      have "length (ucs2_bytes name) = h_name_size h" using n(1) by (auto simp: codec_get_eq_Some)
      then show ?thesis by simp
    qed
    have ds: "h_data_size h = length data" using d by (auto simp: codec_get_eq_Some)
    have "stored_size w = align4 (60 + h_name_size h + h_data_size h)"
      using um by (subst stored_size_eq) (simp_all add: w ve ns ds align4_def)
    then have "stored_size w + at = at'"
      using align4_add [OF assms(2), of "60 + h_name_size h + h_data_size h"] by (simp add: at' ve add.assoc)
    moreover have "variable_ok w"
      using assms(3,4) n(2) by (simp add: w variable_ok_def time_ok_def and_stored_idem)
    ultimately show ?thesis by blast
  qed
  ultimately show ?thesis by blast
qed

lemma scan_step_var:
  assumes "scan_step b e at = Inr (Some (v, at'))" and "4 dvd at"
  shows "4 dvd at' \<and> at \<le> at' \<and> (4 dvd e \<longrightarrow> at' \<le> e)
    \<and> (\<forall>w. v = Some w \<longrightarrow> variable_ok w \<and> stored_size w + at = at')"
proof -
  from assms(1) obtain h h' where "read_var_header h' = Some h" "scan_variable b e (at + 60) h = Inr (v, at')"
    by (auto simp: scan_step_def sum_bind_eq_Inr AUTH_VARIABLE_HEADER_SIZE_def split: option.splits if_splits)
  with scan_variable_var [OF _ assms(2)] read_var_header_ok show ?thesis by blast
qed

text \<open>The store a scan gives: one variable per key, each one the file can hold, all of them in the
  room they were read from.\<close>

definition scanned :: "nat \<Rightarrow> nat \<Rightarrow> store \<Rightarrow> bool" where
  "scanned start at st \<longleftrightarrow>
     store_ok st \<and> list_all variable_ok (vars st) \<and> start + room st True \<le> at"

lemma scanned_set:
  assumes "scanned start at st" and "variable_ok v" and "stored_size v + at = at'"
  shows "scanned start at' (store_set v st)"
proof -
  have ok: "store_ok st" using assms(1) by (simp add: scanned_def)
  have "room (store_set v st) True \<le> room st True + stored_size v"
    using room_set_nv [OF ok, of v] by (auto split: if_splits)
  moreover have "set (vars (store_set v st)) \<subseteq> insert v (set (vars st))"
    using set_store_set [OF ok] by auto
  ultimately show ?thesis
    using assms kv.ok_upd [OF ok] by (auto simp: scanned_def list_all_iff)
qed

lemma scan_variables_scanned:
  assumes "scan_variables b e at st = Inr st'" and "scanned start at st" and "4 dvd at" and "4 dvd e"
    and "at \<le> e"
  shows "scanned start e st'"
  using assms
proof (induction b e at st rule: scan_variables.induct)
  case (1 b e at st)
  show ?case
  proof (cases "scan_step b e at")
    case (Inl x)
    then show ?thesis using "1.prems"(1) by (subst (asm) scan_variables.simps) simp
  next
    case (Inr x)
    show ?thesis
    proof (cases x)
      case None
      then show ?thesis using "1.prems" Inr by (subst (asm) scan_variables.simps) (auto simp: scanned_def)
    next
      case (Some y)
      obtain v at' where y: "y = (v, at')" by force
      let ?st = "case v of None \<Rightarrow> st | Some v \<Rightarrow> store_set v st"
      have go: "scan_variables b e at' ?st = Inr st'"
        using "1.prems"(1) Inr Some y by (subst (asm) scan_variables.simps) simp
      note s = scan_step_var [OF Inr [unfolded Some y] "1.prems"(3)]
      have "scanned start at' ?st"
        using "1.prems"(2) s scanned_set [OF "1.prems"(2)] by (auto simp: scanned_def split: option.splits)
      then show ?thesis using "1.IH" [OF Inr Some y [symmetric] go] s "1.prems"(4) by blast
    qed
  qed
qed

lemma image_variables_ok:
  assumes "image_ok im" and "4 dvd im_store_size im" and "image_variables im = Inr st"
  shows "store_ok st" and "list_all variable_ok (vars st)" and "room st True \<le> image_capacity im"
proof -
  let ?s = "im_store im + STORE_HEADER_SIZE" and ?e = "im_store im + im_store_size im"
  have scan: "scan_variables (im_bytes im) ?e ?s store_default = Inr st"
    using assms(1,3) by (auto simp: image_variables_def sum_bind_eq_Inr)
  have "scanned ?s ?e st"
  proof (rule scan_variables_scanned [OF scan])
    show "scanned ?s ?s store_default" by (simp add: scanned_def room_def store_default_def store_ok_def)
    show "4 dvd ?s" "4 dvd ?e" "?s \<le> ?e" using assms(1,2) by (auto simp: image_ok_def STORE_HEADER_SIZE_def)
  qed
  then show "store_ok st" "list_all variable_ok (vars st)" "room st True \<le> image_capacity im"
    by (auto simp: scanned_def image_capacity_def saturating_sub_def)
qed

section \<open>The invariant\<close>

definition locks_ok :: "service \<Rightarrow> bool" where
  "locks_ok sv \<longleftrightarrow> (\<forall>(g, n) \<in> set (sv_locks sv). guid_ok g \<and> 0 \<notin> set n)"

definition file_ok :: "service \<Rightarrow> bool" where
  "file_ok sv \<longleftrightarrow> image_ok (sv_image sv) \<and> 4 dvd im_store_size (sv_image sv)
     \<and> image_parse (im_bytes (sv_image sv)) = Inr (sv_image sv)"

definition service_inv :: "service \<Rightarrow> bool" where
  "service_inv sv \<longleftrightarrow> store_ok (sv_store sv) \<and> vars_ok sv \<and> modes_ok sv \<and> budget_ok sv
     \<and> policies_ok (sv_policies sv) \<and> locks_ok sv \<and> file_ok sv"

lemma inv_store: "service_inv sv \<Longrightarrow> store_ok (sv_store sv)"
  by (simp add: service_inv_def)

lemma inv_capacity: "service_inv sv \<Longrightarrow> image_capacity (sv_image sv) < 2 ^ 32"
  by (auto simp: service_inv_def file_ok_def image_ok_def image_capacity_def saturating_sub_def)

lemma set_variable_inv:
  assumes i: "service_inv sv" and g: "guid_ok g" "0 \<notin> set n" and s: "set_variable c g n at d sv = (s, sv')"
  shows "service_inv sv'"
proof -
  note ok = inv_store [OF i]
  have t: "touches (insert (g, n) internal_keys) sv sv'" by (rule set_variable_touches [OF ok s])
  have "vars_ok sv'" by (rule set_variable_vars_ok [OF ok _ g s]) (use i in \<open>simp add: service_inv_def\<close>)
  moreover have "modes_ok sv'" by (rule set_variable_modes [OF ok _ s]) (use i in \<open>simp add: service_inv_def\<close>)
  moreover have "budget_ok sv'"
    by (rule set_variable_budget [OF ok _ inv_capacity [OF i] s]) (use i in \<open>simp add: service_inv_def\<close>)
  ultimately show ?thesis
    using i t by (simp add: service_inv_def touches_def locks_ok_def file_ok_def)
qed

text \<open>The state the store and the image do not see.\<close>

lemma service_inv_cong:
  assumes "service_inv sv" and "sv_store sv' = sv_store sv" and "sv_image sv' = sv_image sv"
    and "policies_ok (sv_policies sv')" and "locks_ok sv'"
  shows "service_inv sv'"
  using assms
  by (simp add: service_inv_def vars_ok_def modes_ok_def pk_enrolled_def budget_ok_def signers_nv_def
      vendor_ok_def file_ok_def)

lemma guest_step_inv:
  assumes i: "service_inv sv" and st: "guest_step c sv sv'"
  shows "service_inv sv'"
proof -
  have p: "policies_ok (sv_policies sv)" and l: "\<forall>(g, n) \<in> set (sv_locks sv). guid_ok g \<and> 0 \<notin> set n"
    using i by (simp_all add: service_inv_def locks_ok_def)
  from st show ?thesis
  proof (cases rule: guest_step.cases)
    case (set_var g n at d s)
    then show ?thesis using set_variable_inv [OF i] by blast
  next
    case (register b q)
    then show ?thesis
      using l policies_register_ok [OF p] by (intro service_inv_cong [OF i]) (auto simp: locks_ok_def)
  qed (use p l in \<open>auto intro!: service_inv_cong [OF i] simp: locks_ok_def\<close>)
qed

lemma budget_used:
  assumes "service_inv sv"
  shows "store_used (sv_store sv) True \<le> image_capacity (sv_image sv)"
  using assms store_used_room [OF inv_store [OF assms], of True]
  by (simp add: service_inv_def budget_ok_def min.coboundedI2)

lemma take_image_write:
  assumes i: "service_inv sv"
  obtains "take_image sv = (Inr None, sv)"
  | im where "image_write (sv_image sv) (sv_store sv) = (None, im)"
      "take_image sv = (Inr (Some (im_bytes im)), sv\<lparr>sv_image := im\<rparr>)"
proof -
  have "list_all variable_ok (vars (sv_store sv))" using i vars_ok_list by (auto simp: service_inv_def)
  moreover have "image_ok (sv_image sv)" using i by (simp add: service_inv_def file_ok_def)
  ultimately obtain im where "image_write (sv_image sv) (sv_store sv) = (None, im)"
    using image_write_succeeds budget_used [OF i] by blast
  then show ?thesis using that by (cases "sv_nv_changes sv = sv_nv_written sv") (auto simp: take_image_def)
qed

lemma take_image_inv:
  assumes i: "service_inv sv" and t: "take_image sv = (r, sv')"
  shows "service_inv sv'"
  using i
proof (cases rule: take_image_write)
  case 1
  then show ?thesis using i t by simp
next
  case (2 im)
  have ok: "image_ok (sv_image sv)" "image_parse (im_bytes (sv_image sv)) = Inr (sv_image sv)"
    using i by (simp_all add: service_inv_def file_ok_def)
  note p = image_write_parse [OF ok(2,1) 2(1)] and f = image_write_frame [OF ok(1) 2(1)]
  have sv': "sv' = sv\<lparr>sv_image := im\<rparr>" using t 2(2) by simp
  have "image_capacity im = image_capacity (sv_image sv)" using f(2) by (simp add: image_capacity_def)
  then show ?thesis
    using i p f(2) unfolding sv'
    by (simp add: service_inv_def vars_ok_def modes_ok_def pk_enrolled_def budget_ok_def signers_nv_def
        vendor_ok_def file_ok_def locks_ok_def)
qed

lemma service_step_inv:
  assumes "service_inv sv" and "service_step c sv sv'"
  shows "service_inv sv'"
  using assms(2)
proof (cases rule: service_step.cases)
  case (message buf r buf')
  then show ?thesis using guest_step_inv [OF assms(1) communicate_step] by blast
next
  case (persist r)
  then show ?thesis using take_image_inv [OF assms(1)] by blast
next
  case written
  have "policies_ok (sv_policies sv)" "locks_ok sv" using assms(1) by (simp_all add: service_inv_def)
  with written show ?thesis by (intro service_inv_cong [OF assms(1)]) (auto simp: locks_ok_def)
qed

section \<open>The start\<close>

text \<open>A store file the service can start on: an image whose store is aligned on 4 bytes, and whose
  vendor-keys flag, if there is one, is not empty.\<close>

definition store_file_ok :: "bytes \<Rightarrow> bool" where
  "store_file_ok b \<longleftrightarrow> (\<exists>im st. image_parse b = Inr im \<and> image_ok im \<and> 4 dvd im_store_size im
     \<and> image_variables im = Inr st
     \<and> (\<forall>v. store_lookup st VENDOR_KEY = Some v \<longrightarrow> v_data v \<noteq> []))"

lemma fold_put_None: "fold (store_put None) vs s = s\<lparr>vars := vars s @ vs\<rparr>"
  by (induction vs arbitrary: s) (simp_all add: store_put_def)

lemma store_ok_filter: "store_ok st \<Longrightarrow> store_ok \<lparr>vars = filter P (vars st)\<rparr>"
  by (simp add: store_ok_def distinct_map_filter)

lemma look_filter:
  assumes "store_ok st"
  shows "store_lookup \<lparr>vars = filter P (vars st)\<rparr> k =
    (case store_lookup st k of Some v \<Rightarrow> if P v then Some v else None | None \<Rightarrow> None)"
proof -
  have "store_lookup \<lparr>vars = filter P (vars st)\<rparr> k = Some v \<longleftrightarrow> store_lookup st k = Some v \<and> P v" for v
    unfolding store_lookup_def store_find_iff [OF assms] store_find_iff [OF store_ok_filter [OF assms]]
    by auto
  then show ?thesis by (intro option_eqI) (auto split: option.splits)
qed

lemma room_filter: "room \<lparr>vars = filter non_volatile (vars st)\<rparr> True = room st True"
  unfolding room_def by (rule sum.cong) auto

text \<open>The service before the modes are written, and the signer records kept.\<close>

definition loaded :: "image \<Rightarrow> store \<Rightarrow> service" where
  "loaded im st = \<lparr>sv_store = \<lparr>vars = filter non_volatile (vars st)\<rparr>, sv_image = im,
     sv_policies = policies_default, sv_locks = [], sv_end_of_dxe = False, sv_runtime = False,
     sv_nv_changes = 0, sv_nv_written = 0\<rparr>"

definition live_records :: "service \<Rightarrow> signer_record list" where
  "live_records sv = filter (\<lambda>(g, n, _). look sv (g, n) \<noteq> None) (signer_records sv)"

lemma service_new_eq:
  assumes "image_parse b = Inr im" and "image_variables im = Inr st"
  shows "service_new b = Inr (let sv = refresh_modes (loaded im st) in
    if length (live_records sv) \<noteq> length (signer_records sv) then put_signer_records (live_records sv) sv else sv)"
proof -
  have "fold (store_put None) (filter non_volatile (vars st)) store_default = \<lparr>vars = filter non_volatile (vars st)\<rparr>"
    by (simp add: fold_put_None store_default_def)
  then show ?thesis
    using assms by (simp add: service_new_def loaded_def live_records_def store_lookup_def Let_def)
qed

lemma loaded_simps [simp]:
  "sv_store (loaded im st) = \<lparr>vars = filter non_volatile (vars st)\<rparr>" "sv_image (loaded im st) = im"
  "sv_policies (loaded im st) = policies_default" "sv_locks (loaded im st) = []"
  "sv_end_of_dxe (loaded im st) = False" "sv_runtime (loaded im st) = False"
  by (simp_all add: loaded_def)

text \<open>What a service holds when it starts: the file's non-volatile variables, the modes and the
  signer records apart.\<close>

lemma service_new_touches:
  assumes p: "image_parse b = Inr im" and v: "image_variables im = Inr st" and ok: "store_ok st"
    and s: "service_new b = Inr sv"
  shows "touches (insert SIGNERS_KEY mode_keys) (loaded im st) sv"
proof -
  let ?sv = "refresh_modes (loaded im st)"
  have ok0: "store_ok (sv_store (loaded im st))" using store_ok_filter [OF ok] by simp
  note t = refresh_modes_touches [OF ok0]
  note ok1 = touches_ok [OF t]
  have "touches (insert SIGNERS_KEY mode_keys) (loaded im st) ?sv"
    by (rule touches_mono [OF t]) blast
  moreover have "touches (insert SIGNERS_KEY mode_keys) (loaded im st) (put_signer_records rs ?sv)" for rs
    using touches_trans [OF t put_signer_records_touches [OF ok1]] by simp
  ultimately show ?thesis
    using s unfolding service_new_eq [OF p v] Let_def by (auto split: if_splits)
qed

lemma service_new_inv:
  assumes "store_file_ok b"
  shows "\<exists>sv. service_new b = Inr sv \<and> service_inv sv"
proof -
  from assms obtain im st where p: "image_parse b = Inr im" and im: "image_ok im" "4 dvd im_store_size im"
    and v: "image_variables im = Inr st" and vend: "\<forall>v. store_lookup st VENDOR_KEY = Some v \<longrightarrow> v_data v \<noteq> []"
    unfolding store_file_ok_def by blast
  note iv = image_variables_ok [OF im v]
  let ?ld = "loaded im st"
  let ?sv = "refresh_modes ?ld"
  have ok0: "store_ok (sv_store ?ld)" using store_ok_filter [OF iv(1)] by simp
  note t = refresh_modes_touches [OF ok0]
  note ok = touches_ok [OF t]
  have vars0: "vars_ok ?ld" unfolding vars_ok_list [OF ok0] using iv(2) by (simp add: list_all_iff)
  have nv: "signers_nv ?sv"
    using touches_look [OF t, of SIGNERS_KEY] by (simp add: signers_nv_def look_filter [OF iv(1)] split: option.splits if_splits)
  have vendor: "vendor_ok ?sv"
    using touches_look [OF t, of VENDOR_KEY] vend
    by (auto simp: vendor_ok_def look_filter [OF iv(1)] split: option.splits if_splits)
  have "room (sv_store ?ld) True \<le> image_capacity im" using iv(3) by (simp add: room_filter)
  then have room: "nv_room ?sv \<le> image_capacity im" using refresh_modes_room [OF ok0] by simp
  have img: "sv_image ?sv = im" "sv_policies ?sv = policies_default" "sv_locks ?sv = []"
    using t by (simp_all add: touches_def)
  have inv: "service_inv ?sv"
    using ok vars_ok_refresh [OF ok0 vars0] refresh_modes_ok [OF ok0] room nv vendor im p image_parse_Inr(1) [OF p]
    by (simp add: service_inv_def budget_ok_def locks_ok_def file_ok_def img)
  let ?live = "live_records ?sv"
  let ?sv' = "put_signer_records ?live ?sv"
  have "service_inv ?sv'" if ne: "length ?live \<noteq> length (signer_records ?sv)"
  proof -
    have "signer_records ?sv \<noteq> []" using ne by (auto simp: live_records_def)
    then have "nv_room ?sv' \<le> nv_room ?sv"
      by (intro put_signer_records_room [OF ok nv]) (simp_all add: live_records_def encode_signer_records_subseq)
    moreover have t': "touches {SIGNERS_KEY} ?sv ?sv'" by (rule put_signer_records_touches [OF ok])
    moreover have same: "look ?sv' k = look ?sv k" if "k \<noteq> SIGNERS_KEY" for k
      by (rule touches_look [OF t']) (use that in simp)
    moreover have "look ?sv' VENDOR_KEY = look ?sv VENDOR_KEY" by (rule same) simp
    moreover have "modes_ok ?sv'"
    proof (rule modes_ok_cong)
      show "modes_ok ?sv" using inv by (simp add: service_inv_def)
      show "look ?sv' k = look ?sv k" if "k \<in> mode_keys" for k
        by (rule same) (use that internal_distinct in blast)
      show "look ?sv' PK_KEY = look ?sv PK_KEY" by (rule same) (simp add: key_defs)
    qed
    ultimately show ?thesis
      using inv vars_ok_signer_records [OF ok] put_signer_records_nv [OF ok nv]
      by (auto simp: service_inv_def budget_ok_def vendor_ok_def locks_ok_def file_ok_def touches_def)
  qed
  with inv show ?thesis unfolding service_new_eq [OF p v] Let_def by auto
qed

interpretation uefi: machine_invariant "\<lambda>sv. \<exists>b. store_file_ok b \<and> service_new b = Inr sv"
  "service_step c" service_inv for c :: "('u, 'k) crypto"
  by unfold_locales (use service_new_inv service_step_inv in \<open>fastforce+\<close>)

lemma reachable_inv:
  assumes "store_file_ok b" and "reachable c b sv"
  shows "service_inv sv"
  using assms uefi.reach_inv unfolding reachable_def by blast

end
