(* ===== verification/Uefi_Message.thy ===== *)
theory Uefi_Message
  imports Uefi_Machine
begin

text \<open>
  The messages a guest driver builds, and what the service does with a well-formed one: the
  SetVariable buffer is exactly one SetVariable call, its status written in the header it came
  with.
\<close>

definition name_len :: "u16 list \<Rightarrow> u64" where
  "name_len n = word_of_nat (2 * length n + 2)"

definition access_payload :: "guid \<Rightarrow> u64 \<Rightarrow> u32 \<Rightarrow> u16 list \<Rightarrow> bytes \<Rightarrow> bytes" where
  "access_payload g data_size at n rest =
     guid_bytes g @ to_le_bytes data_size @ to_le_bytes (name_len n)
       @ to_le_bytes at @ ucs2_bytes n @ rest"

definition variable_call :: "u64 \<Rightarrow> u64 \<Rightarrow> bytes \<Rightarrow> bytes" where
  "variable_call function status payload =
     guid_bytes SMM_VARIABLE_PROTOCOL @ to_le_bytes (word_of_nat (16 + length payload) :: u64)
       @ to_le_bytes function @ to_le_bytes status @ payload"

definition set_message :: "guid \<Rightarrow> u16 list \<Rightarrow> u32 \<Rightarrow> bytes \<Rightarrow> u64 \<Rightarrow> bytes" where
  "set_message g n at d status =
     variable_call 3 status (access_payload g (word_of_nat (length d)) at n d)"

lemma unat_u64_of_nat: "n \<le> usize_max \<Longrightarrow> unat (word_of_nat n :: u64) = n"
  by (simp add: unat_of_nat usize_max_def)

lemma length_access_payload [simp]:
  "guid_ok g \<Longrightarrow> length (access_payload g k at n rest) = 38 + 2 * length n + length rest"
  by (simp add: access_payload_def guid_ok_def)

lemma codec_get_append:
  "length p = off \<Longrightarrow> length v = k \<Longrightarrow> off + k \<le> usize_max \<Longrightarrow> codec_get (p @ v @ r) off k = Some v"
  by (auto simp: codec_get_eq_Some)

lemma access_payload_fields:
  assumes "guid_ok g"
  shows "get_u64 (access_payload g k at n rest) 24 = Some (name_len n)"
    and "get_u32 (access_payload g k at n rest) 32 = Some at"
proof -
  have "codec_get ((guid_bytes g @ to_le_bytes k) @ to_le_bytes (name_len n)
      @ to_le_bytes at @ ucs2_bytes n @ rest) 24 8 = Some (to_le_bytes (name_len n))"
    using assms by (intro codec_get_append) (simp_all add: guid_ok_def usize_max_def)
  then show "get_u64 (access_payload g k at n rest) 24 = Some (name_len n)"
    using reader_u64_append [of _ "[]"] by (simp add: get_u64_def access_payload_def)
  have "codec_get ((guid_bytes g @ to_le_bytes k @ to_le_bytes (name_len n))
      @ to_le_bytes at @ ucs2_bytes n @ rest) 32 4 = Some (to_le_bytes at)"
    using assms by (intro codec_get_append) (simp_all add: guid_ok_def usize_max_def)
  then show "get_u32 (access_payload g k at n rest) 32 = Some at"
    using reader_u32_append [of _ "[]"] by (simp add: get_u32_def access_payload_def)
qed

lemma access_header_payload:
  assumes g: "guid_ok g" and n: "0 \<notin> set n" and k: "unat k \<le> length rest"
    and small: "38 + 2 * length n + length rest \<le> usize_max"
  shows "access_header (access_payload g k at n rest) = Inr (g, unat k, n)"
proof -
  have N: "unat (name_len n) = 2 * length n + 2" using small by (simp only: name_len_def, intro unat_u64_of_nat) simp
  have "codec_get ((guid_bytes g @ to_le_bytes k @ to_le_bytes (name_len n) @ to_le_bytes at) @ ucs2_bytes n @ rest)
      36 (2 * length n + 2) = Some (ucs2_bytes n)"
    using g small by (intro codec_get_append) (simp_all add: guid_ok_def)
  then have name: "codec_get (access_payload g k at n rest) 36 (2 * length n + 2) = Some (ucs2_bytes n)"
    by (simp add: access_payload_def)
  have "do { (guid, r) \<leftarrow> reader_guid (access_payload g k at n rest);
       (data_size, r) \<leftarrow> reader_u64 r;
       (nsize, r) \<leftarrow> reader_u64 r;
       Some (guid, unat data_size, unat nsize) } = Some (g, unat k, 2 * length n + 2)"
    using g by (simp only: access_payload_def) (simp add: reader_simps N)
  moreover have "checked_add ACCESS_NAME (unat k) \<bind> (\<lambda>s. checked_add s (2 * length n + 2))
      = Some (38 + 2 * length n + unat k)"
    using small k by (simp add: ACCESS_NAME_def checked_add_def)
  ultimately show ?thesis
    using g k name n by (simp add: access_header_def ACCESS_NAME_def ucs2_name_bytes)
qed

lemma mm_set_variable_payload:
  assumes g: "guid_ok g" and n: "0 \<notin> set n" and small: "38 + 2 * length n + length d \<le> usize_max"
  shows "mm_set_variable c (access_payload g (word_of_nat (length d)) at n d) sv =
    (Some (fst (set_variable c g n at d sv)), snd (set_variable c g n at d sv))"
proof -
  let ?p = "access_payload g (word_of_nat (length d)) at n d"
  have k: "unat (word_of_nat (length d) :: u64) = length d" using small by (intro unat_u64_of_nat) simp
  have N: "unat (name_len n) = 2 * length n + 2" using small by (simp only: name_len_def, intro unat_u64_of_nat) simp
  have "codec_get ((guid_bytes g @ to_le_bytes (word_of_nat (length d) :: u64)
      @ to_le_bytes (name_len n) @ to_le_bytes at @ ucs2_bytes n) @ d @ [])
      (38 + 2 * length n) (length d) = Some d"
    using g small by (intro codec_get_append) (simp_all add: guid_ok_def)
  then have data: "codec_get ?p (38 + 2 * length n) (length d) = Some d"
    by (simp add: access_payload_def)
  show ?thesis
    using access_header_payload [OF g n, of "word_of_nat (length d)" d at] access_payload_fields [OF g] data small
    by (simp add: mm_set_variable_def k N ACCESS_NAME_def checked_add_def split: prod.split)
qed

text \<open>The header of a message read back, and the status written into it.\<close>

lemma splice_middle:
  "length p = off \<Longrightarrow> length v = length w \<Longrightarrow> splice (p @ w @ r) off v = p @ v @ r"
  by (simp add: splice_def)

lemma guid_smm [simp]: "guid_ok SMM_VARIABLE_PROTOCOL" "length (guid_bytes SMM_VARIABLE_PROTOCOL) = 16"
proof -
  show "guid_ok SMM_VARIABLE_PROTOCOL" by (simp add: guid_consts guid_new_ok)
  then show "length (guid_bytes SMM_VARIABLE_PROTOCOL) = 16" by (simp add: guid_ok_def)
qed

lemma communicate_variable_call:
  assumes len: "length payload \<le> PAYLOAD_SIZE"
    and f: "variable_function c function payload sv = (Some s, sv', payload')"
  shows "communicate c (variable_call function status payload) sv =
    (Inr (), sv', variable_call function (status_bits s) payload')"
proof -
  have ps: "PAYLOAD_SIZE \<le> 100000"
    by (simp add: PAYLOAD_SIZE_def MAX_VARIABLE_SIZE_def AUTH_VARIABLE_HEADER_SIZE_def)
  have same: "length payload' = length payload" by (rule variable_function_length [OF f])
  define L :: u64 where "L = word_of_nat (16 + length payload)"
  have L: "unat L = 16 + length payload" unfolding L_def using len ps by (intro unat_u64_of_nat) (simp add: usize_max_def)
  define head where "head = guid_bytes SMM_VARIABLE_PROTOCOL @ to_le_bytes L"
  have head: "length head = 24" by (simp add: head_def)
  let ?msg = "to_le_bytes function @ to_le_bytes status @ payload"
  have call: "variable_call function st p = head @ to_le_bytes function @ to_le_bytes st @ p"
    if "length p = length payload" for st p
    using that by (simp only: variable_call_def head_def L_def append.assoc)
  have "reader_guid (head @ ?msg) = Some (SMM_VARIABLE_PROTOCOL, to_le_bytes L @ ?msg)"
    using reader_guid_append by (simp add: head_def)
  moreover have "slice_get (head @ ?msg) 24 (40 + length payload) = Some ?msg"
    using head by (simp add: slice_get_def)
  moreover have "40 + length payload \<le> usize_max"
    using len ps by (simp add: usize_max_def)
  ultimately have "communicate c (head @ ?msg) sv =
      (case variable_message c ?msg sv of (r, sv, message) \<Rightarrow> (r, sv, splice (head @ ?msg) 24 message))"
    by (simp add: communicate_def reader_u64_append MM_HEADER_def L checked_add_def)
  moreover have "variable_message c ?msg sv = (Inr (), sv', to_le_bytes function @ to_le_bytes (status_bits s) @ payload')"
  proof -
    have f0: "get_u64 ?msg 0 = Some function"
      using codec_get_append [of "[]" 0 "to_le_bytes function" 8 "to_le_bytes status @ payload"]
        reader_u64_append [of "function" "[]"] by (simp add: get_u64_def usize_max_def)
    have st: "codec_put (to_le_bytes function @ to_le_bytes status @ payload') 8 (to_le_bytes (status_bits s))
      = Some (to_le_bytes function @ to_le_bytes (status_bits s) @ payload')"
      by (simp add: codec_put_def checked_add_def usize_max_def splice_middle)
    have sp: "splice ?msg 16 payload' = to_le_bytes function @ to_le_bytes status @ payload'"
      using splice_middle [of "to_le_bytes function @ to_le_bytes status" 16 payload' payload "[]"] same by simp
    show ?thesis
      using f0 st sp f len
      by (simp add: variable_message_def VAR_HEADER_def slice_from_def checked_sub_def Let_def)
  qed
  moreover have "splice (head @ ?msg) 24 m = head @ m" if "length m = length ?msg" for m
    using splice_middle [of head 24 m ?msg "[]"] head that by simp
  ultimately show ?thesis using same call [of payload status] call [OF same] by simp
qed

lemma communicate_set_message:
  assumes g: "guid_ok g" and n: "0 \<notin> set n" and len: "38 + 2 * length n + length d \<le> PAYLOAD_SIZE"
    and s: "set_variable c g n at d sv = (s, sv')"
  shows "communicate c (set_message g n at d status) sv = (Inr (), sv', set_message g n at d (status_bits s))"
  unfolding set_message_def
proof (rule communicate_variable_call)
  let ?p = "access_payload g (word_of_nat (length d)) at n d"
  have "PAYLOAD_SIZE \<le> usize_max"
    by (simp add: PAYLOAD_SIZE_def MAX_VARIABLE_SIZE_def AUTH_VARIABLE_HEADER_SIZE_def usize_max_def)
  then show "variable_function c 3 ?p sv = (Some s, sv', ?p)"
    using mm_set_variable_payload [OF g n, of d c at sv] len s by (simp add: variable_function_def)
  show "length ?p \<le> PAYLOAD_SIZE" using g len by simp
qed

text \<open>The messages of the phases, and the lock of a variable.\<close>

definition lock_message :: "guid \<Rightarrow> u16 list \<Rightarrow> u64 \<Rightarrow> bytes" where
  "lock_message g n status =
     variable_call 8 status (guid_bytes g @ to_le_bytes (name_len n) @ ucs2_bytes n)"

lemma communicate_lock_message:
  assumes g: "guid_ok g" and n: "0 \<notin> set n" and len: "26 + 2 * length n \<le> PAYLOAD_SIZE"
    and dxe: "\<not> sv_end_of_dxe sv" and new: "(g, n) \<notin> set (sv_locks sv)"
  shows "communicate c (lock_message g n status) sv =
    (Inr (), sv\<lparr>sv_locks := sv_locks sv @ [(g, n)]\<rparr>, lock_message g n (status_bits SUCCESS))"
  unfolding lock_message_def
proof (rule communicate_variable_call)
  let ?p = "guid_bytes g @ to_le_bytes (name_len n) @ ucs2_bytes n"
  have small: "26 + 2 * length n \<le> usize_max"
    using len by (simp add: PAYLOAD_SIZE_def MAX_VARIABLE_SIZE_def AUTH_VARIABLE_HEADER_SIZE_def usize_max_def)
  have N: "unat (name_len n) = 2 * length n + 2" using small by (simp only: name_len_def, intro unat_u64_of_nat) simp
  have "codec_get (guid_bytes g @ to_le_bytes (name_len n) @ ucs2_bytes n) 16 8 = Some (to_le_bytes (name_len n))"
    using g by (intro codec_get_append) (simp_all add: guid_ok_def usize_max_def)
  then have "get_u64 ?p 16 = Some (name_len n)"
    using reader_u64_append [of _ "[]"] by (simp add: get_u64_def)
  moreover have "codec_get ((guid_bytes g @ to_le_bytes (name_len n)) @ ucs2_bytes n @ []) 24 (2 * length n + 2)
      = Some (ucs2_bytes n)"
    using g small by (intro codec_get_append) (simp_all add: guid_ok_def)
  ultimately show "variable_function c 8 ?p sv = (Some SUCCESS, sv\<lparr>sv_locks := sv_locks sv @ [(g, n)]\<rparr>, ?p)"
    using g n dxe new
    by (simp add: variable_function_def mm_lock_def reader_guid_append NEXT_NAME_def N ucs2_name_bytes)
  show "length ?p \<le> PAYLOAD_SIZE" using g len by (simp add: guid_ok_def)
qed

lemma communicate_ready_to_boot:
  assumes "\<not> sv_runtime sv"
  shows "communicate c (variable_call 5 status []) sv =
    (Inr (), sv\<lparr>sv_end_of_dxe := True, sv_policies := policies_lock (sv_policies sv)\<rparr>,
     variable_call 5 (status_bits SUCCESS) [])"
  by (rule communicate_variable_call) (simp_all add: variable_function_def ready_to_boot_def assms)

lemma communicate_exit_boot:
  "communicate c (variable_call 6 status []) sv =
    (Inr (), sv\<lparr>sv_runtime := True\<rparr>, variable_call 6 (status_bits SUCCESS) [])"
  by (rule communicate_variable_call) (simp_all add: variable_function_def)

section \<open>Reading by message\<close>

text \<open>A GetVariable buffer: the room for the data follows the name.\<close>

definition get_message :: "guid \<Rightarrow> u16 list \<Rightarrow> u64 \<Rightarrow> u32 \<Rightarrow> bytes \<Rightarrow> u64 \<Rightarrow> bytes" where
  "get_message g n data_size at rm status = variable_call 1 status (access_payload g data_size at n rm)"

lemma put_access:
  assumes g: "guid_ok g" and small: "38 + 2 * length n + length rm \<le> usize_max"
  shows "codec_put (access_payload g k at n rm) 32 (to_le_bytes (at' :: u32)) = Some (access_payload g k at' n rm)"
    and "codec_put (access_payload g k at n rm) 16 (to_le_bytes (k' :: u64)) = Some (access_payload g k' at n rm)"
    and "length d \<le> length rm \<Longrightarrow> codec_put (access_payload g k at n rm) (38 + 2 * length n) d
      = Some (access_payload g k at n (d @ drop (length d) rm))"
proof -
  have len: "length (guid_bytes g) = 16" using g by (simp add: guid_ok_def)
  have "splice ((guid_bytes g @ to_le_bytes k @ to_le_bytes (name_len n)) @ to_le_bytes at @ ucs2_bytes n @ rm) 32
      (to_le_bytes at') = (guid_bytes g @ to_le_bytes k @ to_le_bytes (name_len n)) @ to_le_bytes at' @ ucs2_bytes n @ rm"
    using len by (intro splice_middle) simp_all
  then show "codec_put (access_payload g k at n rm) 32 (to_le_bytes at') = Some (access_payload g k at' n rm)"
    using len by (simp add: codec_put_def checked_add_def usize_max_def access_payload_def)
  have "splice (guid_bytes g @ to_le_bytes k @ to_le_bytes (name_len n) @ to_le_bytes at @ ucs2_bytes n @ rm) 16
      (to_le_bytes k') = guid_bytes g @ to_le_bytes k' @ to_le_bytes (name_len n) @ to_le_bytes at @ ucs2_bytes n @ rm"
    using len by (intro splice_middle) simp_all
  then show "codec_put (access_payload g k at n rm) 16 (to_le_bytes k') = Some (access_payload g k' at n rm)"
    using len by (simp add: codec_put_def checked_add_def usize_max_def access_payload_def)
  show "codec_put (access_payload g k at n rm) (38 + 2 * length n) d
      = Some (access_payload g k at n (d @ drop (length d) rm))" if d: "length d \<le> length rm"
  proof -
    let ?h = "guid_bytes g @ to_le_bytes k @ to_le_bytes (name_len n) @ to_le_bytes at @ ucs2_bytes n"
    have "splice (?h @ take (length d) rm @ drop (length d) rm) (38 + 2 * length n) d = ?h @ d @ drop (length d) rm"
      using len d by (intro splice_middle) simp_all
    then have "splice (access_payload g k at n rm) (38 + 2 * length n) d = access_payload g k at n (d @ drop (length d) rm)"
      by (simp add: access_payload_def)
    then show ?thesis using d small g by (simp add: codec_put_def checked_add_def)
  qed
qed

lemma communicate_get_message:
  assumes g: "guid_ok g" and n: "0 \<notin> set n" and len: "38 + 2 * length n + length rm \<le> PAYLOAD_SIZE"
    and get: "get_variable sv g n (length rm) = (SUCCESS, Some at', Some d)"
  shows "communicate c (get_message g n (word_of_nat (length rm)) at rm status) sv =
    (Inr (), sv, get_message g n (word_of_nat (length d)) at' (d @ drop (length d) rm) (status_bits SUCCESS))"
  unfolding get_message_def
proof (rule communicate_variable_call)
  let ?p = "access_payload g (word_of_nat (length rm)) at n rm"
  have small: "38 + 2 * length n + length rm \<le> usize_max"
    using len by (simp add: PAYLOAD_SIZE_def MAX_VARIABLE_SIZE_def AUTH_VARIABLE_HEADER_SIZE_def usize_max_def)
  have k: "unat (word_of_nat (length rm) :: u64) = length rm" using small by (intro unat_u64_of_nat) simp
  have N: "unat (name_len n) = 2 * length n + 2" using small by (simp only: name_len_def, intro unat_u64_of_nat) simp
  have d: "length d \<le> length rm"
    using get by (auto simp: get_variable_def split: option.splits if_splits)
  have "mm_get_variable sv ?p = (Some SUCCESS, access_payload g (word_of_nat (length d)) at' n (d @ drop (length d) rm))"
    using access_header_payload [OF g n, of "word_of_nat (length rm)" rm at] access_payload_fields(1) [OF g]
      put_access [OF g small] d small get
    by (simp add: mm_get_variable_def k N ACCESS_NAME_def checked_add_def put_then_def)
  then show "variable_function c 1 ?p sv =
      (Some SUCCESS, sv, access_payload g (word_of_nat (length d)) at' n (d @ drop (length d) rm))"
    by (simp add: variable_function_def)
  show "length ?p \<le> PAYLOAD_SIZE" using g len by simp
qed

end
