(* ===== verification/Uefi_Read.thy ===== *)
theory Uefi_Read
  imports Uefi_Message
begin

text \<open>
  What a guest reads: GetVariable returns what the last accepted SetVariable stored, and the walk
  of GetNextVariableName visits every visible variable once, in the store's order.
\<close>

section \<open>The walk of GetNextVariableName\<close>

text \<open>A caller asks for the variable after the one it was given last, starting with the empty name,
  until the service reports an error.\<close>

fun walk_variables :: "nat \<Rightarrow> service \<Rightarrow> guid \<Rightarrow> u16 list \<Rightarrow> variable list \<times> status" where
  "walk_variables 0 sv g n = ([], SUCCESS)"
| "walk_variables (Suc k) sv g n =
     (case next_variable sv g n of
        Inl s \<Rightarrow> ([], s)
      | Inr v \<Rightarrow> (case walk_variables k sv (v_guid v) (v_name v) of (vs, s) \<Rightarrow> (v # vs, s)))"

lemma map_filter_get: "List.map_filter (nth_get xs) [start ..< length xs] = drop start xs"
proof -
  have "List.map_filter (nth_get xs) ks = map ((!) xs) ks" if "\<forall>k \<in> set ks. k < length xs" for ks
    using that by (induction ks) (auto simp: List.map_filter_def nth_get_def)
  then have "List.map_filter (nth_get xs) [start ..< length xs] = map ((!) xs) [start ..< length xs]" by simp
  also have "\<dots> = drop start xs" by (rule nth_equalityI) simp_all
  finally show ?thesis .
qed

lemma next_variable_find:
  assumes "next_start sv g n = Inr start"
  shows "next_variable sv g n = ok_or NOT_FOUND (find (visible sv) (drop start (vars (sv_store sv))))"
  using assms map_filter_get [of "vars (sv_store sv)" start]
  by (simp add: next_variable_def store_len_def store_get_def [abs_def])

lemma find_filter_split:
  "find P xs = Some x \<Longrightarrow> \<exists>pre post. xs = pre @ x # post \<and> filter P xs = x # filter P post \<and> P x"
proof (induction xs)
  case (Cons y ys)
  show ?case
  proof (cases "P y")
    case True
    then show ?thesis using Cons.prems by (intro exI [of _ "[]"] exI [of _ ys]) auto
  next
    case False
    then obtain pre post where "ys = pre @ x # post" "filter P ys = x # filter P post" "P x"
      using Cons by auto
    then show ?thesis using False by (intro exI [of _ "y # pre"] exI [of _ post]) simp
  qed
qed simp

lemma walk_from:
  assumes ok: "store_ok (sv_store sv)" and names: "\<forall>v \<in> set (vars (sv_store sv)). v_name v \<noteq> []"
    and len: "length (vars (sv_store sv)) \<le> usize_max"
  shows "next_start sv g n = Inr start \<Longrightarrow> length (filter (visible sv) (drop start (vars (sv_store sv)))) < k
    \<Longrightarrow> walk_variables k sv g n = (filter (visible sv) (drop start (vars (sv_store sv))), NOT_FOUND)"
proof (induction k arbitrary: g n start)
  case (Suc k)
  let ?vs = "vars (sv_store sv)"
  show ?case
  proof (cases "find (visible sv) (drop start ?vs)")
    case None
    then have "filter (visible sv) (drop start ?vs) = []" by (simp add: find_None_iff filter_empty_conv)
    with None show ?thesis by (simp add: next_variable_find [OF Suc.prems(1)])
  next
    case (Some v)
    from find_filter_split [OF this] obtain pre post where d: "drop start ?vs = pre @ v # post" and vis: "visible sv v"
      and f: "filter (visible sv) (drop start ?vs) = v # filter (visible sv) post"
      by blast
    define j where "j = start + length pre"
    have l: "length ?vs - start = length pre + 1 + length post" using arg_cong [OF d, of length] by simp
    have "?vs ! j = drop start ?vs ! length pre" using l by (simp add: j_def)
    moreover have "drop (Suc j) ?vs = drop (Suc (length pre)) (drop start ?vs)" by (simp add: j_def add.commute)
    ultimately have j: "j < length ?vs" "?vs ! j = v" "drop (Suc j) ?vs = post"
      using l by (simp_all only: d) (auto simp: j_def)
    have "store_position (sv_store sv) (v_guid v) (v_name v) = Some j"
    proof -
      have "(v_guid v, v_name v) \<in> v_key ` set ?vs" using nth_mem [OF j(1)] j(2) by force
      then obtain i where i: "store_position (sv_store sv) (v_guid v) (v_name v) = Some i"
        using store_position_None by fastforce
      from store_position_Some [OF i] j ok have "i = j"
        by (auto simp: store_ok_def distinct_conv_nth)
      with i show ?thesis by simp
    qed
    then have "next_start sv (v_guid v) (v_name v) = Inr (Suc j)"
      using names j vis len nth_mem [OF j(1)]
      by (auto simp: next_start_def store_get_def nth_get_def checked_add_def)
    from Suc.IH [OF this] have "walk_variables k sv (v_guid v) (v_name v) = (filter (visible sv) post, NOT_FOUND)"
      using Suc.prems(2) f j by simp
    with Some f show ?thesis by (simp add: next_variable_find [OF Suc.prems(1)])
  qed
qed simp

section \<open>Reading what was written\<close>

lemma set_variable_accepted:
  assumes "set_variable c g n at d sv = (SUCCESS, sv')" and "\<not> is_append at"
  shows "\<exists>auth ts signers. accepted c sv g n at d auth ts signers
    \<and> (if is_deleting at (payload_of auth d) then delete_variable g n sv = (SUCCESS, sv')
       else store_variable g n at (payload_of auth d) ts signers (look sv (g, n)) sv = (SUCCESS, sv'))"
proof -
  have fails: "write_guards s g n at p e \<noteq> Some SUCCESS" "attributes_check n at \<noteq> Some SUCCESS"
    "split_payload at d \<noteq> Inl SUCCESS" "authorize c s g n at a e \<noteq> Inl SUCCESS" for s p e a
  proof -
    show "attributes_check n at \<noteq> Some SUCCESS" by (simp add: attributes_check_def Let_def)
    show "split_payload at d \<noteq> Inl SUCCESS" by (auto simp: split_payload_def dest: auth_split_Inl split: sum.splits)
    show "write_guards s g n at p e \<noteq> Some SUCCESS"
      by (auto simp: write_guards_def existing_check_def Let_def split: option.splits if_splits)
    show "authorize c s g n at a e \<noteq> Inl SUCCESS"
      by (auto simp: authorize_def check_secure_boot_def check_private_def Let_def sum_bind_def
          split: option.splits if_splits sum.splits kind.splits)
  qed
  from assms show ?thesis
    unfolding set_variable_def accepted_def store_lookup_def Let_def
    by (auto simp: fails split: option.splits sum.splits prod.splits if_splits)
qed

lemma accepted_attributes:
  assumes "accepted c sv g n at d auth ts signers" and "at \<noteq> 0"
  shows "(case look sv (g, n) of None \<Rightarrow> at AND STORED_ATTRIBUTES | Some v \<Rightarrow> v_attributes v) = at AND STORED_ATTRIBUTES"
    and "sv_runtime sv \<Longrightarrow> (at AND STORED_ATTRIBUTES) AND RUNTIME_ACCESS \<noteq> 0"
proof -
  have ex: "existing_check sv (look sv (g, n)) at = None"
    using assms(1) by (auto simp: accepted_def write_guards_def split: if_splits option.splits)
  then show "(case look sv (g, n) of None \<Rightarrow> at AND STORED_ATTRIBUTES | Some v \<Rightarrow> v_attributes v) = at AND STORED_ATTRIBUTES"
    using assms(2) by (auto simp: existing_check_def Let_def split: option.splits if_splits)
  show "(at AND STORED_ATTRIBUTES) AND RUNTIME_ACCESS \<noteq> 0" if "sv_runtime sv"
    using ex that assms(2) by (auto simp: existing_check_def Let_def split: option.splits if_splits)
qed

text \<open>What an accepted write that replaces the data leaves under its key.\<close>

lemma set_variable_result:
  assumes ok: "store_ok (sv_store sv)" and s: "set_variable c g n at d sv = (SUCCESS, sv')" and ap: "\<not> is_append at"
  shows "\<exists>auth ts signers. accepted c sv g n at d auth ts signers \<and> look sv' (g, n) =
    (if is_deleting at (payload_of auth d) then None
     else Some (new_variable g n at (payload_of auth d) ts (look sv (g, n))))"
proof -
  from set_variable_accepted [OF s ap] obtain auth ts signers where acc: "accepted c sv g n at d auth ts signers"
    and r: "if is_deleting at (payload_of auth d) then delete_variable g n sv = (SUCCESS, sv')
       else store_variable g n at (payload_of auth d) ts signers (look sv (g, n)) sv = (SUCCESS, sv')" by blast
  note int = accepted_writable(2) [OF acc]
  have "look sv' (g, n) = None" if "delete_variable g n sv = (SUCCESS, sv')"
    using touches_look [OF delete_variable_touches [OF ok that] int] ok by (simp add: removed_store kv.look_del)
  moreover have "look sv' (g, n) = Some (new_variable g n at (payload_of auth d) ts (look sv (g, n)))"
    if st: "store_variable g n at (payload_of auth d) ts signers (look sv (g, n)) sv = (SUCCESS, sv')"
  proof -
    let ?v = "new_variable g n at (payload_of auth d) ts (look sv (g, n))"
    have "new_data g n at (payload_of auth d) (look sv (g, n)) = Some (payload_of auth d)"
      using ap by (simp add: new_data_def split: option.splits)
    with store_variable_touches [OF ok st] have t: "touches internal_keys (put_variable ?v sv) sv'" by simp
    show ?thesis using touches_look [OF t int] put_variable_look [OF ok, of ?v "(g, n)"] by simp
  qed
  ultimately show ?thesis using acc r by metis
qed

lemma set_then_get:
  assumes ok: "store_ok (sv_store sv)" and s: "set_variable c g n at d sv = (SUCCESS, sv')"
    and at: "\<not> is_append at" "at \<noteq> 0" and p: "split_payload at d = Inr auth" "payload_of auth d \<noteq> []"
  shows "get_variable sv' g n rm =
    (if length (payload_of auth d) > rm then BUFFER_TOO_SMALL else SUCCESS,
     Some (at AND STORED_ATTRIBUTES), Some (payload_of auth d))"
proof -
  from set_variable_result [OF ok s at(1)] obtain auth' ts signers where acc: "accepted c sv g n at d auth' ts signers"
    and r: "look sv' (g, n) = (if is_deleting at (payload_of auth' d) then None
     else Some (new_variable g n at (payload_of auth' d) ts (look sv (g, n))))" by blast
  have a: "auth' = auth" using acc p by (simp add: accepted_def)
  let ?v = "new_variable g n at (payload_of auth d) ts (look sv (g, n))"
  have "look sv' (g, n) = Some ?v" using r a p at by (simp add: is_deleting_def)
  moreover have "v_attributes ?v = at AND STORED_ATTRIBUTES"
    using accepted_attributes(1) [OF acc at(2)] by (simp add: new_variable_def)
  moreover have "sv_runtime sv' = sv_runtime sv" using set_variable_touches [OF ok s] by (simp add: touches_def)
  moreover have "n \<noteq> []" by (rule accepted_writable(3) [OF acc])
  ultimately show ?thesis
    using accepted_attributes(2) [OF acc at(2)] by (simp add: get_variable_def visible_def store_lookup_def)
qed

end
