(* ===== verification/Uefi_Restart.thy ===== *)
theory Uefi_Restart
  imports Uefi_Machine
begin

text \<open>
  Persisting and starting again: the file the device writes back is a file the service starts on,
  with the same non-volatile variables and the same owners of the private ones.
\<close>

section \<open>Signer records\<close>

text \<open>A record its encoding can carry.\<close>

definition signer_ok :: "signer_record \<Rightarrow> bool" where
  "signer_ok r \<longleftrightarrow> (case r of (g, n, s) \<Rightarrow>
     guid_ok g \<and> 0 \<notin> set n \<and> length s = 32 \<and> 2 * length n + 2 < 65536)"

lemma read_signer_record_encode:
  assumes "signer_ok r"
  shows "read_signer_record (encode_signer_record r @ rest) = Some (r, rest)"
    and "encode_signer_record r \<noteq> []"
proof -
  obtain g n s where r: "r = (g, n, s)" by (cases r)
  with assms have ok: "guid_ok g" "0 \<notin> set n" "length s = 32" "2 * length n + 2 < 65536"
    by (simp_all add: signer_ok_def)
  define len :: u16 where "len = word_of_nat (2 * length n + 2)"
  have len: "unat len = 2 * length n + 2" unfolding len_def by (rule unat_u16_of_nat) (rule ok(4))
  have "u16_try_from (length (ucs2_bytes n)) = Some len"
    using len ok(4) by (simp add: u16_try_from_eq_Some)
  then have e: "encode_signer_record r = guid_bytes g @ to_le_bytes len @ ucs2_bytes n @ s"
    by (simp add: encode_signer_record_def r)
  then show "encode_signer_record r \<noteq> []" using ok(3) by auto
  show "read_signer_record (encode_signer_record r @ rest) = Some (r, rest)"
    unfolding e using ok by (simp add: read_signer_record_def reader_simps len ucs2_name_bytes r)
qed

lemma read_encode_signer_records:
  "list_all signer_ok rs \<Longrightarrow> read_signer_records (encode_signer_records rs) = rs"
proof (induction rs)
  case Nil
  then show ?case by (simp add: encode_signer_records_def read_signer_records.simps)
next
  case (Cons r rs)
  then have "signer_ok r" by simp
  from read_signer_record_encode [OF this] Cons show ?case
    by (simp add: encode_signer_records_def read_signer_records.simps [of "_ @ _"])
qed

lemma read_signer_record_ok:
  assumes "read_signer_record b = Some (r, b')"
  shows "signer_ok r"
proof -
  from assms obtain g n s len where "r = (g, n, s)" "guid_ok g" "0 \<notin> set n" "length s = 32"
    "length (ucs2_bytes n) = unat (len :: u16)"
    by (auto simp: read_signer_record_def bind_eq_Some_conv reader_eq_Some ucs2_name_eq_Some)
  then show ?thesis using unat_lt_u16 [of len] by (simp add: signer_ok_def)
qed

lemma read_signer_records_ok: "list_all signer_ok (read_signer_records b)"
proof (induction b rule: read_signer_records.induct)
  case (1 r)
  then show ?case
    by (subst read_signer_records.simps) (auto dest: read_signer_record_ok split: option.splits)
qed

lemma signer_records_ok: "list_all signer_ok (signer_records sv)"
  by (simp add: signer_records_def read_signer_records_ok split: option.splits)

lemma signer_records_look:
  "signer_records sv = (case look sv SIGNERS_KEY of None \<Rightarrow> [] | Some v \<Rightarrow> read_signer_records (v_data v))"
  by (simp add: signer_records_def sv_data_look SIGNERS_KEY_def split: option.splits)

lemma signer_records_put:
  assumes "store_ok (sv_store sv)" and "list_all signer_ok rs"
  shows "signer_records (put_signer_records rs sv) = rs"
  using assms
  by (simp add: signer_records_look put_signer_records_store kv.look_upd kv.look_del read_encode_signer_records SIGNERS_KEY_def)

section \<open>What a restart keeps\<close>

text \<open>The non-volatile part of what is stored under a key.\<close>

definition kept :: "service \<Rightarrow> var_key \<Rightarrow> variable option" where
  "kept sv k = (case look sv k of Some v \<Rightarrow> if non_volatile v then Some v else None | None \<Rightarrow> None)"

lemma take_image_restart:
  assumes i: "service_inv sv" and t: "take_image sv = (Inr (Some b), sv')"
  shows "store_file_ok b"
    and "\<exists>im. image_parse b = Inr im \<and> image_variables im = Inr \<lparr>vars = filter non_volatile (vars (sv_store sv))\<rparr>"
proof -
  note ok = inv_store [OF i]
  from i t obtain im where w: "image_write (sv_image sv) (sv_store sv) = (None, im)" and b: "b = im_bytes im"
    by (cases rule: take_image_write) auto
  have im: "image_ok (sv_image sv)" "image_parse (im_bytes (sv_image sv)) = Inr (sv_image sv)"
    "4 dvd im_store_size (sv_image sv)"
    using i by (simp_all add: service_inv_def file_ok_def)
  have vars: "list_all variable_ok (vars (sv_store sv))"
    using i vars_ok_list by (auto simp: service_inv_def)
  note p = image_write_parse [OF im(2,1) w] and v = image_write_variables [OF im(1) w ok vars]
  show "\<exists>im. image_parse b = Inr im \<and> image_variables im = Inr \<lparr>vars = filter non_volatile (vars (sv_store sv))\<rparr>"
    using p(1) v b by blast
  have "vendor_ok sv" using i by (simp add: service_inv_def budget_ok_def)
  then have "\<forall>v. store_lookup \<lparr>vars = filter non_volatile (vars (sv_store sv))\<rparr> VENDOR_KEY = Some v \<longrightarrow> v_data v \<noteq> []"
    by (auto simp: look_filter [OF ok] vendor_ok_def split: option.splits if_splits)
  then show "store_file_ok b"
    unfolding store_file_ok_def
    using p v b image_write_frame(2) [OF im(1) w] im(3) by auto
qed

lemma find_filter: "(\<And>x. P x \<Longrightarrow> Q x) \<Longrightarrow> find P (filter Q xs) = find P xs"
  by (induction xs) auto

lemma service_restart:
  assumes i: "service_inv sv" and t: "take_image sv = (Inr (Some b), sv')"
  shows "\<exists>sv2. service_new b = Inr sv2 \<and> service_inv sv2
    \<and> (\<forall>k. k \<notin> insert SIGNERS_KEY mode_keys \<longrightarrow> look sv2 k = kept sv k)
    \<and> (\<forall>g n. (g, n) \<notin> insert SIGNERS_KEY mode_keys \<longrightarrow> kept sv (g, n) \<noteq> None
          \<longrightarrow> signer_of sv2 g n = signer_of sv g n)"
proof -
  note ok = inv_store [OF i]
  from take_image_restart [OF i t] obtain im where f: "store_file_ok b" and p: "image_parse b = Inr im"
    and v: "image_variables im = Inr \<lparr>vars = filter non_volatile (vars (sv_store sv))\<rparr>" by blast
  let ?st = "\<lparr>vars = filter non_volatile (vars (sv_store sv))\<rparr>"
  from service_new_inv [OF f] obtain sv2 where n: "service_new b = Inr sv2" and i2: "service_inv sv2" by blast
  have st: "store_ok ?st" by (rule store_ok_filter [OF ok])
  have ld: "look (loaded im ?st) k = kept sv k" for k
    using look_filter [OF ok, of non_volatile k] by (simp add: kept_def)
  have lk: "look sv2 k = kept sv k" if "k \<notin> insert SIGNERS_KEY mode_keys" for k
    using touches_look [OF service_new_touches [OF p v st n] that] ld by simp
  let ?r = "refresh_modes (loaded im ?st)"
  have ok0: "store_ok (sv_store (loaded im ?st))" using st by simp
  note tr = refresh_modes_touches [OF ok0]
  have "look ?r SIGNERS_KEY = kept sv SIGNERS_KEY"
    using touches_look [OF tr, of SIGNERS_KEY] ld internal_distinct by simp
  also have "\<dots> = look sv SIGNERS_KEY"
    using i by (auto simp: kept_def service_inv_def budget_ok_def signers_nv_def split: option.splits)
  finally have recs: "signer_records ?r = signer_records sv" by (simp add: signer_records_look)
  have "signer_records sv2 = live_records ?r"
  proof (cases "length (live_records ?r) = length (signer_records ?r)")
    case True
    then have "live_records ?r = signer_records ?r"
      unfolding live_records_def using filter_id_conv length_filter_less by (metis (no_types, lifting) less_irrefl)
    with True n show ?thesis unfolding service_new_eq [OF p v] by (simp add: Let_def)
  next
    case False
    moreover have "list_all signer_ok (live_records ?r)"
      using signer_records_ok [of ?r] by (auto simp: live_records_def list_all_iff)
    ultimately show ?thesis
      using n signer_records_put [OF touches_ok [OF tr]] unfolding service_new_eq [OF p v] by (auto simp: Let_def)
  qed
  moreover have "find (\<lambda>(g', n', _). g' = g \<and> n' = n) (live_records ?r)
      = find (\<lambda>(g', n', _). g' = g \<and> n' = n) (signer_records sv)"
    if "(g, n) \<notin> insert SIGNERS_KEY mode_keys" "kept sv (g, n) \<noteq> None" for g n
  proof -
    have "look ?r (g, n) \<noteq> None" using touches_look [OF tr, of "(g, n)"] ld that by simp
    then show ?thesis unfolding live_records_def recs by (intro find_filter) auto
  qed
  ultimately have "signer_of sv2 g n = signer_of sv g n"
    if "(g, n) \<notin> insert SIGNERS_KEY mode_keys" "kept sv (g, n) \<noteq> None" for g n
    using that by (simp add: signer_of_def)
  with n i2 lk show ?thesis by blast
qed

end
