(* ===== verification/Uefi_Snapshot.thy ===== *)
theory Uefi_Snapshot
  imports Uefi_Service
begin

text \<open>
  \<^verbatim>\<open>vk-uefi-vars/src/lib.rs\<close>, what a snapshot keeps beyond the store file: the phase, the
  volatile variables, the policies and the locks. Restoring what was saved, over the same
  non-volatile variables, gives back the service.
\<close>

definition TRANSIENT_VERSION :: u8 where "TRANSIENT_VERSION = 1"

definition push_len :: "nat \<Rightarrow> bytes" where
  "push_len len = to_le_bytes (case u32_try_from len of Some w \<Rightarrow> w | None \<Rightarrow> 0xffffffff)"

definition push_bytes :: "bytes \<Rightarrow> bytes" where
  "push_bytes b = push_len (length b) @ b"

definition take_bytes :: "reader \<Rightarrow> (bytes \<times> reader) option" where
  "take_bytes r = do { (len, r) \<leftarrow> reader_u32 r; reader_take (unat len) r }"

definition save_var :: "variable \<Rightarrow> bytes" where
  "save_var v = guid_bytes (v_guid v) @ to_le_bytes (v_attributes v)
     @ push_bytes (ucs2_bytes (v_name v)) @ push_bytes (v_data v) @ time_bytes (v_timestamp v)"

definition save_lock :: "guid \<times> u16 list \<Rightarrow> bytes" where
  "save_lock l = guid_bytes (fst l) @ push_bytes (ucs2_bytes (snd l))"

definition save_transient :: "service \<Rightarrow> bytes" where
  "save_transient sv =
     (let (enabled, locked, policies) = policies_save (sv_policies sv);
          volatile = filter (\<lambda>v. \<not> non_volatile v) (vars (sv_store sv)) in
      [TRANSIENT_VERSION, bool_u8 (sv_end_of_dxe sv), bool_u8 (sv_runtime sv),
       bool_u8 enabled, bool_u8 locked]
      @ push_len (length volatile) @ concat (map save_var volatile)
      @ push_len (length policies) @ concat (map push_bytes policies)
      @ push_len (length (sv_locks sv)) @ concat (map save_lock (sv_locks sv)))"

abbreviation bad_state :: store_error where
  "bad_state \<equiv> NotAStore ''snapshot state''"

text \<open>\<open>for _ in 0..n\<close> over what one turn reads.\<close>

fun read_times :: "nat \<Rightarrow> (reader \<Rightarrow> 'e + 'a \<times> reader) \<Rightarrow> reader \<Rightarrow> 'e + 'a list \<times> reader" where
  "read_times 0 f r = Inr ([], r)"
| "read_times (Suc n) f r =
     sum_bind (f r) (\<lambda>(x, r). sum_bind (read_times n f r) (\<lambda>(xs, r). Inr (x # xs, r)))"

definition restore_var :: "reader \<Rightarrow> store_error + variable \<times> reader" where
  "restore_var r =
     sum_bind (ok_or bad_state (reader_guid r)) (\<lambda>(guid, r).
     sum_bind (ok_or bad_state (reader_u32 r)) (\<lambda>(attributes, r).
     sum_bind (ok_or bad_state (take_bytes r)) (\<lambda>(b, r).
     sum_bind (ok_or (NotAStore ''snapshot state name'') (ucs2_name b)) (\<lambda>name.
     sum_bind (ok_or bad_state (take_bytes r)) (\<lambda>(data, r).
     sum_bind (ok_or bad_state (reader_take 16 r)) (\<lambda>(ts, r).
     Inr (\<lparr>v_guid = guid, v_name = name, v_attributes = attributes, v_data = data,
       v_timestamp = EfiTime ts\<rparr>, r)))))))"

definition restore_lock :: "reader \<Rightarrow> store_error + (guid \<times> u16 list) \<times> reader" where
  "restore_lock r =
     sum_bind (ok_or bad_state (reader_guid r)) (\<lambda>(guid, r).
     sum_bind (ok_or bad_state (take_bytes r)) (\<lambda>(b, r).
     sum_bind (ok_or (NotAStore ''snapshot state lock'') (ucs2_name b)) (\<lambda>name.
     Inr ((guid, name), r))))"

definition restore_counted ::
  "(reader \<Rightarrow> store_error + 'a \<times> reader) \<Rightarrow> reader \<Rightarrow> store_error + 'a list \<times> reader"
where
  "restore_counted f r =
     sum_bind (ok_or bad_state (reader_u32 r)) (\<lambda>(n, r). read_times (unat n) f r)"

definition restore_transient :: "bytes \<Rightarrow> service \<Rightarrow> store_error + service" where
  "restore_transient bytes sv =
     sum_bind (ok_or bad_state (reader_u8 bytes)) (\<lambda>(version, r).
     if version \<noteq> TRANSIENT_VERSION then Inl (NotAStore ''snapshot state version'')
     else
       sum_bind (ok_or bad_state (do {
         (end_of_dxe, r) \<leftarrow> reader_u8 r;
         (runtime, r) \<leftarrow> reader_u8 r;
         (enabled, r) \<leftarrow> reader_u8 r;
         (locked, r) \<leftarrow> reader_u8 r;
         Some (end_of_dxe \<noteq> 0, runtime \<noteq> 0, enabled \<noteq> 0, locked \<noteq> 0, r) }))
         (\<lambda>(end_of_dxe, runtime, enabled, locked, r).
       sum_bind (restore_counted restore_var r) (\<lambda>(volatile, r).
       sum_bind (restore_counted (\<lambda>r. ok_or bad_state (take_bytes r)) r) (\<lambda>(policies, r).
       sum_bind (restore_counted restore_lock r) (\<lambda>(locks, r).
       let nv = filter non_volatile (vars (sv_store sv)) in
       Inr (sv\<lparr>sv_store := fold store_set (nv @ volatile) store_default,
         sv_policies := policies_restore enabled locked policies,
         sv_locks := locks, sv_end_of_dxe := end_of_dxe, sv_runtime := runtime\<rparr>))))))"

section \<open>Restoring what was saved\<close>

lemma take_bytes_push:
  assumes "length b < 2 ^ 32"
  shows "take_bytes (push_bytes b @ r) = Some (b, r)"
proof -
  define w :: u32 where "w = word_of_nat (length b)"
  have w: "unat w = length b" unfolding w_def using assms by (intro unat_u32_of_nat) simp
  then have "push_len (length b) = to_le_bytes w"
    using assms by (simp add: push_len_def u32_try_from_def w_def)
  then show ?thesis
    using w by (simp add: take_bytes_def push_bytes_def reader_simps)
qed

lemma read_times_concat:
  "(\<And>x r. x \<in> set xs \<Longrightarrow> f (enc x @ r) = Inr (x, r)) \<Longrightarrow>
     read_times (length xs) f (concat (map enc xs) @ r) = Inr (xs, r)"
  by (induction xs arbitrary: r) auto

lemma restore_counted_concat:
  assumes "length xs < 2 ^ 32" and "\<And>x r. x \<in> set xs \<Longrightarrow> f (enc x @ r) = Inr (x, r)"
  shows "restore_counted f (push_len (length xs) @ concat (map enc xs) @ r) = Inr (xs, r)"
proof -
  define w :: u32 where "w = word_of_nat (length xs)"
  have w: "unat w = length xs" unfolding w_def using assms(1) by (intro unat_u32_of_nat) simp
  then have "push_len (length xs) = to_le_bytes w"
    using assms(1) by (simp add: push_len_def u32_try_from_def w_def)
  then show ?thesis
    using w read_times_concat [of xs f enc r] assms(2) by (simp add: restore_counted_def reader_simps)
qed

lemma restore_save_var:
  assumes "variable_ok v" and "2 * length (v_name v) + 2 < 2 ^ 32" and "length (v_data v) < 2 ^ 32"
  shows "restore_var (save_var v @ r) = Inr (v, r)"
  using assms
  by (simp add: restore_var_def save_var_def reader_simps take_bytes_push ucs2_name_bytes variable_ok_def
      time_ok_def)

lemma restore_save_lock:
  assumes "guid_ok g" and "0 \<notin> set n" and "2 * length n + 2 < 2 ^ 32"
  shows "restore_lock (save_lock (g, n) @ r) = Inr ((g, n), r)"
  using assms by (simp add: restore_lock_def save_lock_def reader_simps take_bytes_push ucs2_name_bytes)

text \<open>What the lengths of a snapshot can count.\<close>

definition snapshot_fits :: "service \<Rightarrow> bool" where
  "snapshot_fits sv \<longleftrightarrow>
     length (vars (sv_store sv)) < 2 ^ 32 \<and> length (ps_list (sv_policies sv)) < 2 ^ 32
     \<and> length (sv_locks sv) < 2 ^ 32
     \<and> (\<forall>v \<in> set (vars (sv_store sv)). 2 * length (v_name v) + 2 < 2 ^ 32 \<and> length (v_data v) < 2 ^ 32)
     \<and> (\<forall>p \<in> set (ps_list (sv_policies sv)). length (p_raw p) < 2 ^ 32)
     \<and> (\<forall>(g, n) \<in> set (sv_locks sv). 2 * length n + 2 < 2 ^ 32)"

lemma restore_save_transient:
  assumes vars: "list_all variable_ok (vars (sv_store sv))" and pol: "policies_ok (sv_policies sv)"
    and locks: "\<forall>(g, n) \<in> set (sv_locks sv). guid_ok g \<and> 0 \<notin> set n" and fit: "snapshot_fits sv"
  shows "restore_transient (save_transient sv) sv0 = Inr (sv0\<lparr>sv_store := fold store_set (filter non_volatile (vars (sv_store sv0))
          @ filter (\<lambda>v. \<not> non_volatile v) (vars (sv_store sv))) store_default,
        sv_policies := sv_policies sv, sv_locks := sv_locks sv,
        sv_end_of_dxe := sv_end_of_dxe sv, sv_runtime := sv_runtime sv\<rparr>)"
proof -
  let ?vol = "filter (\<lambda>v. \<not> non_volatile v) (vars (sv_store sv))"
  let ?raws = "map p_raw (ps_list (sv_policies sv))"
  obtain en lk where save: "policies_save (sv_policies sv) = (en, lk, ?raws)"
    and again: "policies_restore en lk ?raws = sv_policies sv"
    using policies_restore_save [OF pol] by (auto simp: policies_save_def)
  have nl: "length ?vol < 2 ^ 32"
    by (rule le_less_trans [OF length_filter_le]) (use fit in \<open>simp add: snapshot_fits_def\<close>)
  have v: "restore_counted restore_var (push_len (length ?vol) @ concat (map save_var ?vol) @ r) = Inr (?vol, r)" for r
    using nl vars fit
    by (intro restore_counted_concat restore_save_var) (auto simp: list_all_iff snapshot_fits_def)
  have p: "restore_counted (\<lambda>r. ok_or bad_state (take_bytes r))
      (push_len (length ?raws) @ concat (map push_bytes ?raws) @ r) = Inr (?raws, r)" for r
    using fit by (intro restore_counted_concat) (auto simp: take_bytes_push snapshot_fits_def)
  have l: "restore_counted restore_lock
      (push_len (length (sv_locks sv)) @ concat (map save_lock (sv_locks sv)) @ []) = Inr (sv_locks sv, [])"
    using fit locks by (intro restore_counted_concat) (auto simp: snapshot_fits_def intro!: restore_save_lock)
  have b: "bool_u8 x \<noteq> 0 \<longleftrightarrow> x" for x by (simp add: bool_u8_def)
  show ?thesis
    using v p l again
    by (simp add: restore_transient_def save_transient_def save Let_def reader_simps b)
qed

end
