(* ===== verification/Uefi_Example.thy ===== *)
theory Uefi_Example
  imports Uefi_Read Uefi_Restart Uefi_Snapshot
begin

text \<open>
  Concrete machines for the properties to be seen at work: a crypto provider whose digests are
  prefixes and whose signatures are the digests themselves, a self-signed certificate and a
  signature made with it, an empty store file, and the service with that certificate enrolled as
  the platform key.
\<close>

section \<open>A crypto provider, a certificate and a signature\<close>

definition ex_crypto :: "(bytes, bytes \<times> bytes) crypto" where
  "ex_crypto = \<lparr>c_digest = (\<lambda>h d. take 32 (d @ replicate 32 0)),
     c_from_be_slice = (\<lambda>b n. Some b), c_bits = (\<lambda>b. 2048),
     c_new_with_max_size = (\<lambda>n e m. Some (n, e)),
     c_size = (\<lambda>k. 32), c_verify = (\<lambda>h k d s. s = d)\<rparr>"

definition ex_name :: bytes where "ex_name = der_encode DER_SEQUENCE []"

definition ex_spki :: bytes where
  "ex_spki =
     der_encode DER_SEQUENCE (der_encode DER_OID OID_RSA_ENCRYPTION)
     @ der_encode DER_BIT_STRING (0 # der_encode DER_SEQUENCE
         (der_encode DER_INTEGER [5] @ der_encode DER_INTEGER [3]))"

definition ex_tbs_fields :: bytes where
  "ex_tbs_fields =
     der_encode DER_INTEGER [7] @ der_encode DER_SEQUENCE [] @ ex_name @ der_encode DER_SEQUENCE []
     @ ex_name @ der_encode DER_SEQUENCE ex_spki"

definition ex_tbs :: bytes where
  "ex_tbs = der_encode DER_SEQUENCE ex_tbs_fields"

definition ex_cert_parts :: bytes where
  "ex_cert_parts =
     ex_tbs @ der_encode DER_SEQUENCE (der_encode DER_OID OID_SHA256_WITH_RSA)
     @ der_encode DER_BIT_STRING [0, 1, 2, 3, 4]"

definition ex_cert :: bytes where
  "ex_cert = der_encode DER_SEQUENCE ex_cert_parts"

text \<open>A detached signature of \<open>content\<close> by the key of the certificate.\<close>

definition ex_signer :: "bytes \<Rightarrow> bytes" where
  "ex_signer dig =
     der_encode DER_INTEGER [1]
     @ der_encode DER_SEQUENCE (ex_name @ der_encode DER_INTEGER [7])
     @ der_encode DER_SEQUENCE (der_encode DER_OID OID_SHA256)
     @ der_encode DER_SEQUENCE []
     @ der_encode DER_OCTET_STRING dig"

definition ex_signature_parts :: "bytes \<Rightarrow> bytes" where
  "ex_signature_parts dig =
     der_encode DER_INTEGER [1] @ der_encode DER_SET [] @ der_encode DER_SEQUENCE []
     @ der_encode DER_CTX0 ex_cert
     @ der_encode DER_SET (der_encode DER_SEQUENCE (ex_signer dig))"

definition ex_signature :: "bytes \<Rightarrow> bytes" where
  "ex_signature dig = der_encode DER_SEQUENCE (ex_signature_parts dig)"

lemma length_der_encode:
  "length v < 65536 \<Longrightarrow> length (der_encode tag v) =
     length v + (if length v < 128 then 2 else if length v < 256 then 3 else 4)"
  by (simp add: der_encode_def der_length_octets_def)

lemma ex_tag_ok [simp]:
  "DER_SEQUENCE AND 0x1f \<noteq> 0x1f" "DER_SET AND 0x1f \<noteq> 0x1f" "DER_INTEGER AND 0x1f \<noteq> 0x1f"
  "DER_OID AND 0x1f \<noteq> 0x1f" "DER_BIT_STRING AND 0x1f \<noteq> 0x1f" "DER_OCTET_STRING AND 0x1f \<noteq> 0x1f"
  "DER_CTX0 AND 0x1f \<noteq> 0x1f"
  by (simp_all add: der_tags)

lemma tags_distinct [simp]:
  "DER_INTEGER \<noteq> DER_CTX0" "DER_SEQUENCE \<noteq> DER_CTX0" "DER_SEQUENCE \<noteq> DER_CTX3" "DER_SET \<noteq> DER_CTX0"
  "DER_SET \<noteq> DER_CTX1" "DER_INTEGER \<noteq> DER_OID" "DER_CTX0 \<noteq> DER_SET"
  by (simp_all add: der_tags)

text \<open>Elements one after another are read back one by one.\<close>

lemma der_expect_encode:
  assumes "tag AND 0x1f \<noteq> 0x1f" and "length v < 2 ^ 32"
  shows "der_expect (der_encode tag v @ rest) tag = Some (\<lparr>t_tag = tag, t_value = v, t_raw = der_encode tag v\<rparr>, rest)"
    and "der_expect (der_encode tag v) tag = Some (\<lparr>t_tag = tag, t_value = v, t_raw = der_encode tag v\<rparr>, [])"
  using der_read_encode [OF assms] der_read_encode [OF assms, of "[]"] by (simp_all add: der_expect_def)

lemma der_read_encode_end:
  assumes "tag AND 0x1f \<noteq> 0x1f" and "length v < 2 ^ 32"
  shows "der_read (der_encode tag v) = Some (\<lparr>t_tag = tag, t_value = v, t_raw = der_encode tag v\<rparr>, [])"
  using der_read_encode [OF assms, of "[]"] by simp

lemma der_children_Cons:
  assumes "tag AND 0x1f \<noteq> 0x1f" and "length v < 2 ^ 32"
  shows "der_children (der_encode tag v @ rest)
      = map_option (Cons \<lparr>t_tag = tag, t_value = v, t_raw = der_encode tag v\<rparr>) (der_children rest)"
    and "der_children (der_encode tag v) = Some [\<lparr>t_tag = tag, t_value = v, t_raw = der_encode tag v\<rparr>]"
proof -
  have ne: "der_encode tag v \<noteq> []" by (simp add: der_encode_def)
  then show c: "der_children (der_encode tag v @ rest)
      = map_option (Cons \<lparr>t_tag = tag, t_value = v, t_raw = der_encode tag v\<rparr>) (der_children rest)" for rest
    using der_read_encode [OF assms] by (subst der_children.simps) simp
  from c [of "[]"] show "der_children (der_encode tag v)
      = Some [\<lparr>t_tag = tag, t_value = v, t_raw = der_encode tag v\<rparr>]"
    by (simp add: der_children.simps [of "[]"])
qed

lemmas der_eval = der_expect_encode der_read_encode_end der_children_Cons length_der_encode

lemma oid_lengths [simp]:
  "length OID_RSA_ENCRYPTION = 9" "length OID_SHA256_WITH_RSA = 9" "length OID_SHA256 = 9"
  by (simp_all add: OID_RSA_ENCRYPTION_def OID_SHA256_WITH_RSA_def OID_SHA256_def)

lemma ex_lengths [simp]:
  "length ex_name = 2" "length ex_spki = 24" "length ex_tbs_fields = 37" "length ex_tbs = 39"
  "length ex_cert_parts = 59" "length ex_cert = 61"
  by (simp_all add: ex_name_def ex_spki_def ex_tbs_fields_def ex_tbs_def ex_cert_parts_def ex_cert_def
      length_der_encode)

lemma ex_signature_lengths [simp]:
  assumes "length dig = 32"
  shows "length (ex_signer dig) = 59" "length (ex_signature_parts dig) = 133" "length (ex_signature dig) = 136"
  using assms
  by (simp_all add: ex_signer_def ex_signature_parts_def ex_signature_def length_der_encode)

definition ex_certificate :: "(bytes \<times> bytes) certificate" where
  "ex_certificate = \<lparr>x_raw = ex_cert, x_tbs = ex_tbs, x_signature_hash = Some Sha256,
     x_signature = [1, 2, 3, 4], x_serial = [7], x_issuer = ex_name, x_subject = ex_name,
     x_key = Some ([5], [3]), x_subject_key_id = None\<rparr>"

lemma ex_rsa_key: "rsa_key ex_crypto ex_spki = Some ([5], [3])"
  by (simp add: rsa_key_def ex_spki_def der_eval algorithm_oid_def bit_string_def der_unsigned_def
      checked_mul_def usize_max_def u32_try_from_def ex_crypto_def MIN_RSA_BITS_def)

lemma ex_cert_children: "der_children ex_cert_parts = Some
    [\<lparr>t_tag = DER_SEQUENCE, t_value = ex_tbs_fields, t_raw = ex_tbs\<rparr>,
     \<lparr>t_tag = DER_SEQUENCE, t_value = der_encode DER_OID OID_SHA256_WITH_RSA,
       t_raw = der_encode DER_SEQUENCE (der_encode DER_OID OID_SHA256_WITH_RSA)\<rparr>,
     \<lparr>t_tag = DER_BIT_STRING, t_value = [0, 1, 2, 3, 4], t_raw = der_encode DER_BIT_STRING [0, 1, 2, 3, 4]\<rparr>]"
  by (simp add: ex_cert_parts_def ex_tbs_def der_eval)

lemma ex_tbs_children: "der_children ex_tbs_fields = Some
    [\<lparr>t_tag = DER_INTEGER, t_value = [7], t_raw = der_encode DER_INTEGER [7]\<rparr>,
     \<lparr>t_tag = DER_SEQUENCE, t_value = [], t_raw = der_encode DER_SEQUENCE []\<rparr>,
     \<lparr>t_tag = DER_SEQUENCE, t_value = [], t_raw = ex_name\<rparr>,
     \<lparr>t_tag = DER_SEQUENCE, t_value = [], t_raw = der_encode DER_SEQUENCE []\<rparr>,
     \<lparr>t_tag = DER_SEQUENCE, t_value = [], t_raw = ex_name\<rparr>,
     \<lparr>t_tag = DER_SEQUENCE, t_value = ex_spki, t_raw = der_encode DER_SEQUENCE ex_spki\<rparr>]"
  by (simp add: ex_tbs_fields_def ex_name_def der_eval)

lemma ex_cert_expect:
  "der_expect ex_cert DER_SEQUENCE = Some (\<lparr>t_tag = DER_SEQUENCE, t_value = ex_cert_parts, t_raw = ex_cert\<rparr>, [])"
  by (simp add: ex_cert_def der_eval)

lemma ex_hash:
  "from_signature_oid OID_SHA256_WITH_RSA = Some Sha256" "from_digest_oid OID_SHA256 = Some Sha256"
  by (simp_all add: from_signature_oid_def from_digest_oid_def OID_SHA256_WITH_RSA_def
      OID_SHA1_WITH_RSA_def OID_SHA1_def OID_SHA256_def)

lemma ex_certificate_parse: "certificate_parse ex_crypto ex_cert = Some ex_certificate"
  by (simp add: certificate_parse_def ex_cert_expect ex_cert_children ex_tbs_children ex_certificate_def
      bit_string_def next_tag_def der_unsigned_def ex_rsa_key algorithm_oid_def der_eval ex_hash)

lemma ex_signer_parse:
  assumes "length dig = 32"
  shows "signer_info_parse (ex_signer dig) =
    Some \<lparr>s_id = IssuerSerial ex_name [7], s_digest = Sha256, s_signed_attrs = None, s_signature = dig\<rparr>"
  using assms
  by (simp add: signer_info_parse_def ex_signer_def ex_name_def next_tag_def der_unsigned_def
      algorithm_oid_def der_eval ex_hash)

lemma ex_signature_parse:
  assumes "length dig = 32"
  shows "signed_data_parse ex_crypto (ex_signature dig) =
    Some \<lparr>sd_certificates = [ex_certificate], sd_signers =
      [\<lparr>s_id = IssuerSerial ex_name [7], s_digest = Sha256, s_signed_attrs = None, s_signature = dig\<rparr>]\<rparr>"
proof -
  have "signed_data_elements (ex_signature dig) = der_children (ex_signature_parts dig)"
    using assms
    by (simp add: signed_data_elements_def ex_signature_def der_eval)
      (simp add: ex_signature_parts_def der_eval)
  moreover have "der_children ex_cert = Some [\<lparr>t_tag = DER_SEQUENCE, t_value = ex_cert_parts, t_raw = ex_cert\<rparr>]"
    by (simp add: ex_cert_def der_eval)
  ultimately show ?thesis
    using assms
    by (simp add: signed_data_parse_def ex_signature_parts_def next_tag_def der_eval ex_signer_parse
        ex_certificate_parse List.map_filter_def)
qed

section \<open>The platform key\<close>

definition ex_pk_data :: bytes where
  "ex_pk_data = guid_bytes CERT_X509 @ to_le_bytes (105 :: u32) @ to_le_bytes (0 :: u32)
     @ to_le_bytes (77 :: u32) @ (replicate 16 0 @ ex_cert)"

lemma ex_pk_parse:
  "siglist_parse ex_pk_data = Some [\<lparr>sl_kind = CERT_X509, sl_header = [], sl_signature_size = 77,
     sl_entries = [replicate 16 0 @ ex_cert]\<rparr>]"
proof -
  have "fixed_size CERT_X509 = None"
    by (simp add: fixed_size_def guid_consts guid_new_eq)
  moreover have "reader_take 77 (replicate 16 0 @ ex_cert) = Some (replicate 16 0 @ ex_cert, [])"
    by (simp add: reader_take_def)
  moreover have "reader_take 0 r = Some ([], r)" for r by (simp add: reader_take_def)
  ultimately have "parse_sig_list ex_pk_data = Some (\<lparr>sl_kind = CERT_X509, sl_header = [],
      sl_signature_size = 77, sl_entries = [replicate 16 0 @ ex_cert]\<rparr>, [])"
    by (simp add: ex_pk_data_def parse_sig_list_def reader_simps checked_sub_def LIST_HEADER_def OWNER_def)
  moreover have "ex_pk_data \<noteq> []" by (simp add: ex_pk_data_def to_le_bytes_def le_of_nat_numeral)
  ultimately show ?thesis
    using \<open>fixed_size CERT_X509 = None\<close> by (subst siglist_parse.simps) simp
qed

lemma ex_pk_certificates: "siglist_certificates ex_pk_data = [ex_cert]"
  by (simp add: siglist_certificates_def ex_pk_parse sl_signatures_def List.map_filter_def slice_from_def OWNER_def)

lemma ex_signed_by_any:
  assumes "32 \<le> length content" and "dig = take 32 content"
  shows "signed_by_any ex_crypto (ex_signature dig) content [ex_pk_data]"
proof -
  have len: "length dig = 32" using assms by simp
  have "c_digest ex_crypto Sha256 content = dig" using assms by (simp add: ex_crypto_def)
  then have "sd_verify ex_crypto
     \<lparr>sd_certificates = [ex_certificate], sd_signers =
      [\<lparr>s_id = IssuerSerial ex_name [7], s_digest = Sha256, s_signed_attrs = None, s_signature = dig\<rparr>]\<rparr>
     content ex_certificate"
    using len
    by (simp add: sd_verify_def signer_certificate_def ex_certificate_def signer_signed_def chains_def
        MAX_CHAIN_def hash_verify_def numeral_eq_Suc) (simp add: ex_crypto_def)
  then show ?thesis
    using len
    by (simp add: signed_by_any_def ex_signature_parse ex_pk_certificates List.map_filter_def ex_certificate_parse)
qed

section \<open>A store file and the service on it\<close>

definition ex_file :: bytes where
  "ex_file = replicate 16 0 @ guid_bytes SYSTEM_NV_DATA_FV @ to_le_bytes (572 :: u64)
     @ to_le_bytes FVH_SIGNATURE @ to_le_bytes (0 :: u32) @ to_le_bytes (72 :: u16) @ replicate 22 0
     @ guid_bytes AUTHENTICATED_VARIABLE @ to_le_bytes (500 :: u32)
     @ [VARIABLE_STORE_FORMATTED, VARIABLE_STORE_HEALTHY] @ replicate 6 0
     @ replicate 472 0xff"

definition ex_image :: image where
  "ex_image = \<lparr>im_bytes = ex_file, im_store = 72, im_store_size = 500\<rparr>"

lemma length_consts [simp]:
  "length (guid_bytes SYSTEM_NV_DATA_FV) = 16" "length (guid_bytes AUTHENTICATED_VARIABLE) = 16"
  using guid_consts_ok by (simp_all add: guid_ok_def)

lemma ex_file_length [simp]: "length ex_file = 572"
  by (simp add: ex_file_def)

lemma ex_image_parse: "image_parse ex_file = Inr ex_image"
proof -
  have "fv_header ex_file = Some (SYSTEM_NV_DATA_FV, 572, FVH_SIGNATURE, 72)"
    by (simp add: ex_file_def fv_header_def reader_simps)
  moreover have "store_header ex_file 72 =
    Some (AUTHENTICATED_VARIABLE, 500, VARIABLE_STORE_FORMATTED, VARIABLE_STORE_HEALTHY)"
    by (simp add: ex_file_def store_header_def codec_get_def slice_get_def checked_add_def usize_max_def
        STORE_HEADER_SIZE_def reader_simps)
  ultimately show ?thesis
    by (simp add: image_parse_def ex_image_def checked_add_def usize_max_def)
qed

lemma ex_image_ok: "image_ok ex_image" "4 dvd im_store_size ex_image"
  by (simp_all add: image_ok_def ex_image_def STORE_HEADER_SIZE_def)

lemma ex_image_variables: "image_variables ex_image = Inr store_default"
proof -
  have "scan_step ex_file 572 100 = Inr None"
    using scan_step_erased [of "take 100 ex_file" "replicate 472 0xff" 572 472 "[]"]
    by (simp add: ex_file_def usize_max_def)
  then show ?thesis
    by (simp add: image_variables_def ex_image_def STORE_HEADER_SIZE_def checked_add_def usize_max_def
        scan_variables.simps)
qed

lemma ex_store_file_ok: "store_file_ok ex_file"
  using ex_image_parse ex_image_ok ex_image_variables
  by (auto simp: store_file_ok_def store_lookup_def store_find_def store_position_def store_default_def)

definition ex_service :: service where
  "ex_service = refresh_modes (loaded ex_image store_default)"

lemma ex_loaded_ok: "store_ok (sv_store (loaded ex_image store_default))"
  by (simp add: store_ok_def store_default_def)

lemma ex_service_look: "k \<notin> mode_keys \<Longrightarrow> look ex_service k = None"
  unfolding ex_service_def
  by (subst touches_look [OF refresh_modes_touches [OF ex_loaded_ok]])
    (simp_all add: store_lookup_def store_find_def store_position_def store_default_def)

lemma ex_service_ok: "store_ok (sv_store ex_service)"
  unfolding ex_service_def by (rule touches_ok [OF refresh_modes_touches [OF ex_loaded_ok]])

lemma ex_service_fields [simp]:
  "sv_image ex_service = ex_image" "sv_policies ex_service = policies_default" "sv_locks ex_service = []"
  "sv_end_of_dxe ex_service = False" "sv_runtime ex_service = False"
  using refresh_modes_touches [OF ex_loaded_ok] unfolding ex_service_def by (simp_all add: touches_def)

lemma ex_service_new: "service_new ex_file = Inr ex_service"
proof -
  have "look ex_service SIGNERS_KEY = None"
    by (rule ex_service_look) (auto simp: mode_keys_def key_defs)
  then have "signer_records ex_service = []"
    by (simp add: signer_records_def sv_data_look SIGNERS_KEY_def)
  then show ?thesis
    using service_new_eq [OF ex_image_parse ex_image_variables]
    by (simp add: ex_service_def Let_def live_records_def)
qed

lemma ex_service_reachable: "reachable c ex_file ex_service"
  unfolding reachable_def using ex_service_new by blast

end
