(* ===== verification/Uefi_Scenario.thy ===== *)
theory Uefi_Scenario
  imports Uefi_Example
begin

text \<open>
  A run of the service on the example file: the owner enrolls a platform key, later deletes it
  with a signed write, and a private authenticated variable is created and then rewritten by its
  signer. Each step is a message of \<open>communicate\<close>, so the states are reachable ones.
\<close>

section \<open>Signed writes\<close>

definition ex_attributes :: u32 where
  "ex_attributes = NON_VOLATILE OR BOOTSERVICE_ACCESS OR RUNTIME_ACCESS
     OR TIME_BASED_AUTHENTICATED_WRITE_ACCESS"

definition ex_time :: "u8 \<Rightarrow> efi_time" where
  "ex_time day = EfiTime ([0xea, 7, 1, day] @ replicate 12 0)"

definition ex_content :: "guid \<Rightarrow> u16 list \<Rightarrow> u8 \<Rightarrow> bytes \<Rightarrow> bytes" where
  "ex_content g n day payload = signed_content n g ex_attributes
     \<lparr>a_timestamp = ex_time day, a_signature = [], a_payload = payload\<rparr>"

definition ex_auth :: "guid \<Rightarrow> u16 list \<Rightarrow> u8 \<Rightarrow> bytes \<Rightarrow> authenticated" where
  "ex_auth g n day payload = \<lparr>a_timestamp = ex_time day,
     a_signature = ex_signature (take 32 (ex_content g n day payload)), a_payload = payload\<rparr>"

definition ex_write :: "guid \<Rightarrow> u16 list \<Rightarrow> u8 \<Rightarrow> bytes \<Rightarrow> service \<Rightarrow> status \<times> service" where
  "ex_write g n day payload sv =
     set_variable ex_crypto g n ex_attributes (auth_encode 0x200 (ex_auth g n day payload)) sv"

lemma ex_auth_simps [simp]:
  "a_payload (ex_auth g n day payload) = payload" "a_timestamp (ex_auth g n day payload) = ex_time day"
  "a_signature (ex_auth g n day payload) = ex_signature (take 32 (ex_content g n day payload))"
  by (simp_all add: ex_auth_def)

lemma ex_auth_content [simp]:
  "signed_content n g ex_attributes (ex_auth g n day payload) = ex_content g n day payload"
  by (simp add: ex_content_def signed_content_def)

lemma ex_content_length: "guid_ok g \<Longrightarrow> 36 \<le> length (ex_content g n day payload)"
  by (simp add: ex_content_def signed_content_def guid_ok_def ex_time_def)

lemma ex_digest_length:
  assumes "guid_ok g"
  shows "length (take 32 (ex_content g n day payload)) = 32"
    and "length (ex_signature (take 32 (ex_content g n day payload))) = 136"
proof -
  show l: "length (take 32 (ex_content g n day payload)) = 32"
    using ex_content_length [OF assms, of n day payload] by simp
  show "length (ex_signature (take 32 (ex_content g n day payload))) = 136"
    by (rule ex_signature_lengths(3) [OF l])
qed

lemma ex_auth_encode_length:
  assumes "guid_ok g"
  shows "length (auth_encode 0x200 (ex_auth g n day payload)) = 176 + length payload"
  using ex_digest_length(2) [OF assms] guid_consts_ok by (simp add: auth_encode_def ex_time_def guid_ok_def)

lemma ex_auth_split:
  assumes "guid_ok g"
  shows "auth_split (auth_encode 0x200 (ex_auth g n day payload)) = Inr (ex_auth g n day payload)"
  using ex_digest_length(2) [OF assms, of n day payload]
  by (intro auth_split_encode)
    (simp_all add: ex_time_def time_ok_def is_clean_def slice_from_def WIN_CERT_HEADER_def list_all_iff)

lemma ex_attributes_check:
  "n \<noteq> [] \<Longrightarrow> attributes_check n ex_attributes = None"
  "is_time_based ex_attributes" "\<not> is_append ex_attributes" "ex_attributes \<noteq> 0"
  "ex_attributes AND STORED_ATTRIBUTES = ex_attributes"
  by (simp_all add: attributes_check_def ex_attributes_def attribute_defs STORED_ATTRIBUTES_def
      is_time_based_def is_append_def)

lemma ex_write_guards:
  assumes "\<not> read_only sv g n" and "sv_policies sv = policies_default" and "\<not> sv_runtime sv"
    and "g \<noteq> SECURE_BOOT_ENABLE_DISABLE" and "length n \<le> 100" and "length payload \<le> 1000"
    and "existing = None \<or> (\<exists>v. existing = Some v \<and> v_attributes v = ex_attributes)"
  shows "write_guards sv g n ex_attributes payload existing = None"
proof -
  have "name_size n = 2 * length n + 2"
    using assms(5) by (simp add: name_size_def saturating_add_def saturating_mul_def usize_max_def)
  moreover have "existing_check sv existing ex_attributes = None"
    using assms(3,7) by (auto simp: existing_check_def ex_attributes_check)
  moreover have "policies_check policies_default g n a k e st = SUCCESS" for g n a k e st
    by (simp add: policies_check_def policies_default_def)
  ultimately show ?thesis
    using assms
    by (simp add: write_guards_def secure_boot_enable_bad_def saturating_add_def MAX_VARIABLE_SIZE_def
        AUTH_VARIABLE_HEADER_SIZE_def)
qed

text \<open>A write the guards and the authentication let through is a delete or a store.\<close>

lemma ex_write_eq:
  assumes "guid_ok g" and "n \<noteq> []"
    and "write_guards sv g n ex_attributes payload (look sv (g, n)) = None"
    and "authorize ex_crypto sv g n ex_attributes (Some (ex_auth g n day payload)) (look sv (g, n)) = Inr (ts, signers)"
  shows "ex_write g n day payload sv =
    (if payload = [] then delete_variable g n sv
     else store_variable g n ex_attributes payload ts signers (look sv (g, n)) sv)"
  using assms
  by (simp add: ex_write_def set_variable_def ex_attributes_check split_payload_def ex_auth_split
      payload_of_def is_deleting_def store_lookup_def)

text \<open>A write small enough for a store with room is stored.\<close>

lemma ex_store_eq:
  assumes "length n \<le> 100" and "length payload \<le> 1000" and "look sv (g, n) = existing"
    and "existing = None \<or> (\<exists>v. existing = Some v \<and> v_attributes v = ex_attributes)"
    and "signers = None \<or> (\<exists>d. signers = Some d \<and> length d \<le> 1000)"
    and "v = \<lparr>v_guid = g, v_name = n, v_attributes = ex_attributes, v_data = payload, v_timestamp = ts\<rparr>"
    and "fits sv (v # (case signers of None \<Rightarrow> [] | Some d \<Rightarrow> [signers_var d]))"
  shows "store_variable g n ex_attributes payload ts signers existing sv =
    (SUCCESS, let sv = fold put_variable (v # (case signers of None \<Rightarrow> [] | Some d \<Rightarrow> [signers_var d])) sv
              in if auth_kind g n \<noteq> None then after_key_change sv else sv)"
proof -
  have "name_size n = 2 * length n + 2"
    using assms(1) by (simp add: name_size_def saturating_add_def saturating_mul_def usize_max_def)
  moreover have "name_size (utf16 SIGNERS) = 34"
    by (simp add: name_size_def utf16_def SIGNERS_def saturating_add_def saturating_mul_def usize_max_def)
  moreover have "new_variable g n ex_attributes payload ts existing = v"
    using assms(4) by (auto simp: new_variable_def assms(6) ex_attributes_check)
  moreover have "new_data g n ex_attributes payload existing = Some payload"
    by (simp add: new_data_def ex_attributes_check split: option.split)
  moreover have "(changed (non_volatile v) sv)\<lparr>sv_store := store_put (store_position (sv_store sv) g n) v (sv_store sv)\<rparr>
      = put_variable v sv"
    using put_variable_stored [of sv v] by (simp add: assms(6))
  ultimately show ?thesis
    using assms(1,2,5,7)
    by (auto simp: store_variable_def Let_def saturating_add_def MAX_VARIABLE_SIZE_def AUTH_VARIABLE_HEADER_SIZE_def)
qed

text \<open>A signed write as a message.\<close>

lemma ex_write_step:
  assumes "guid_ok g" and "0 \<notin> set n" and "length n \<le> 100" and "length payload \<le> 1000"
    and "ex_write g n day payload sv = (s, sv')"
  shows "service_step ex_crypto sv sv'"
proof -
  have "communicate ex_crypto (set_message g n ex_attributes (auth_encode 0x200 (ex_auth g n day payload)) 0) sv =
      (Inr (), sv', set_message g n ex_attributes (auth_encode 0x200 (ex_auth g n day payload)) (status_bits s))"
    using assms ex_auth_encode_length [OF assms(1), of n day payload]
    by (intro communicate_set_message)
      (simp_all add: ex_write_def PAYLOAD_SIZE_def MAX_VARIABLE_SIZE_def AUTH_VARIABLE_HEADER_SIZE_def)
  then show ?thesis by (rule service_step.message)
qed

section \<open>The platform key\<close>

abbreviation ex_PK :: "u16 list" where "ex_PK \<equiv> utf16 ''PK''"

lemma ex_PK_facts [simp]:
  "0 \<notin> set ex_PK" "length ex_PK = 2" "ex_PK \<noteq> []" "auth_kind GLOBAL_VARIABLE ex_PK = Some Pk"
  by (simp_all add: utf16_def auth_kind_def)

lemma ex_PK_writable: "sv_locks sv = [] \<Longrightarrow> \<not> read_only sv GLOBAL_VARIABLE ex_PK"
  by (simp add: read_only_def name_defs DEFAULTS_def MEMORY_OVERWRITE_REQUEST_CONTROL_LOCK_def
      GLOBAL_VARIABLE_def CERT_DB_def VENDOR_KEYS_NV_def guid_new_eq)

definition ex_pk :: variable where
  "ex_pk = \<lparr>v_guid = GLOBAL_VARIABLE, v_name = ex_PK, v_attributes = ex_attributes,
     v_data = ex_pk_data, v_timestamp = ex_time 1\<rparr>"

definition ex_user :: service where
  "ex_user = snd (ex_write GLOBAL_VARIABLE ex_PK 1 ex_pk_data ex_service)"

lemma ex_pk_length [simp]: "length ex_pk_data = 105"
  using guid_consts_ok by (simp add: ex_pk_data_def guid_ok_def)

lemma ex_authorize_PK:
  assumes "payload_fits Pk payload"
    and "look sv PK_KEY = None \<and> existing = None
      \<or> look sv PK_KEY = Some ex_pk \<and> existing = Some ex_pk \<and> 1 < day"
  shows "authorize ex_crypto sv GLOBAL_VARIABLE ex_PK ex_attributes
    (Some (ex_auth GLOBAL_VARIABLE ex_PK day payload)) existing = Inr (ex_time day, None)"
proof -
  let ?content = "ex_content GLOBAL_VARIABLE ex_PK day payload"
  have "32 \<le> length ?content" using ex_content_length [of GLOBAL_VARIABLE ex_PK day payload] by simp
  then have "check_secure_boot ex_crypto sv Pk GLOBAL_VARIABLE ex_PK ex_attributes
      (ex_auth GLOBAL_VARIABLE ex_PK day payload) = None"
    using assms ex_signed_by_any [OF _ refl, of ?content]
    by (auto simp: check_secure_boot_def ex_attributes_check ex_pk_def sv_data_look PK_KEY_def
        [symmetric] ex_attributes_def [symmetric] split: option.split)
  moreover have "timestamp_ok (Some ex_pk) (ex_time day) False" if "1 < day"
    using that by (simp add: timestamp_ok_def ex_pk_def ex_time_def later_than_def time_key_def)
  ultimately show ?thesis
    using assms(2) by (auto simp: authorize_def ex_attributes_check)
qed

lemma ex_service_used: "store_used (sv_store ex_service) True = 0"
proof -
  have "room (sv_store (loaded ex_image store_default)) True = 0"
    by (simp add: room_def store_default_def)
  then have "nv_room ex_service \<le> 0"
    using refresh_modes_room [OF ex_loaded_ok] unfolding ex_service_def by simp
  then show ?thesis
    using store_used_room [OF ex_service_ok, of True] by simp
qed

lemma ex_nv: "v_attributes v = ex_attributes \<Longrightarrow> non_volatile v"
  by (simp add: non_volatile_def ex_attributes_def attribute_defs)

lemma ex_budget: "nv_budget ex_service True = 472"
  by (simp add: nv_budget_def NV_STORAGE_SIZE_def image_capacity_def ex_image_def STORE_HEADER_SIZE_def
      saturating_sub_def)

lemma ex_service_none: "g \<noteq> GLOBAL_VARIABLE \<or> n = ex_PK \<Longrightarrow> look ex_service (g, n) = None"
  by (rule ex_service_look) (auto simp: mode_keys_def name_defs)

lemma ex_enroll:
  "ex_write GLOBAL_VARIABLE ex_PK 1 ex_pk_data ex_service = (SUCCESS, after_key_change (put_variable ex_pk ex_service))"
proof -
  have none: "look ex_service (GLOBAL_VARIABLE, ex_PK) = None" by (rule ex_service_none) simp
  have "fits ex_service [ex_pk]"
  proof -
    have "stored_size ex_pk = 172"
      by (subst stored_size_eq) (simp_all add: ex_pk_def usize_max_def)
    moreover have "store_find (sv_store ex_service) (v_guid ex_pk) (v_name ex_pk) = None"
      using none by (simp add: store_lookup_def ex_pk_def)
    ultimately show ?thesis
      using ex_nv [of ex_pk] by (simp add: fits_def ex_service_used ex_budget saturating_add_def saturating_sub_def ex_pk_def)
  qed
  then have "store_variable GLOBAL_VARIABLE ex_PK ex_attributes ex_pk_data (ex_time 1) None None ex_service
      = (SUCCESS, after_key_change (put_variable ex_pk ex_service))"
    by (subst ex_store_eq [where v = ex_pk]) (simp_all add: none ex_pk_def)
  moreover have "authorize ex_crypto ex_service GLOBAL_VARIABLE ex_PK ex_attributes
      (Some (ex_auth GLOBAL_VARIABLE ex_PK 1 ex_pk_data)) None = Inr (ex_time 1, None)"
    by (rule ex_authorize_PK) (use none in \<open>simp_all add: payload_fits_def ex_pk_parse PK_KEY_def\<close>)
  moreover have "write_guards ex_service GLOBAL_VARIABLE ex_PK ex_attributes ex_pk_data None = None"
    by (rule ex_write_guards) (simp_all add: ex_PK_writable)
  moreover have "ex_pk_data \<noteq> []" using ex_pk_length by fastforce
  ultimately show ?thesis
    by (subst ex_write_eq [where ts = "ex_time 1" and signers = None]) (simp_all add: none)
qed

lemma ex_user_eq: "ex_user = after_key_change (put_variable ex_pk ex_service)"
  by (simp add: ex_user_def ex_enroll)

lemma ex_user_ok: "store_ok (sv_store ex_user)"
  and ex_user_PK: "look ex_user PK_KEY = Some ex_pk"
  and ex_user_fields [simp]: "sv_policies ex_user = policies_default" "sv_locks ex_user = []"
    "sv_end_of_dxe ex_user = False" "sv_runtime ex_user = False"
proof -
  have key: "v_key ex_pk = PK_KEY" by (simp add: ex_pk_def PK_KEY_def)
  note t = put_variable_touches [OF ex_service_ok, of ex_pk]
  note a = after_key_change_internal [OF touches_ok [OF t]]
  show "store_ok (sv_store ex_user)" unfolding ex_user_eq by (rule touches_ok [OF a])
  show "look ex_user PK_KEY = Some ex_pk"
    using touches_look [OF a PK_not_internal(1)] put_variable_look [OF ex_service_ok] key
    by (simp add: ex_user_eq)
  show "sv_policies ex_user = policies_default" "sv_locks ex_user = []"
    "sv_end_of_dxe ex_user = False" "sv_runtime ex_user = False"
    using t a by (simp_all add: ex_user_eq touches_def)
qed

lemma ex_user_enrolled: "pk_enrolled ex_user"
  by (simp add: pk_enrolled_def ex_user_PK)

lemma ex_user_reachable: "reachable ex_crypto ex_file ex_user"
proof -
  have "service_step ex_crypto ex_service ex_user"
    by (rule ex_write_step [OF _ _ _ _ ex_enroll [folded ex_user_eq]]) simp_all
  then show ?thesis using ex_service_new unfolding reachable_def by blast
qed

text \<open>The owner deletes the platform key with a later signed write.\<close>

definition ex_deleted :: service where
  "ex_deleted = snd (ex_write GLOBAL_VARIABLE ex_PK 2 [] ex_user)"

lemma ex_delete:
  "ex_write GLOBAL_VARIABLE ex_PK 2 [] ex_user = delete_variable GLOBAL_VARIABLE ex_PK ex_user"
proof -
  have lk: "look ex_user (GLOBAL_VARIABLE, ex_PK) = Some ex_pk" using ex_user_PK by (simp add: PK_KEY_def)
  have "authorize ex_crypto ex_user GLOBAL_VARIABLE ex_PK ex_attributes
    (Some (ex_auth GLOBAL_VARIABLE ex_PK 2 [])) (Some ex_pk) = Inr (ex_time 2, None)"
    by (rule ex_authorize_PK) (simp_all add: payload_fits_def ex_user_PK)
  moreover have "write_guards ex_user GLOBAL_VARIABLE ex_PK ex_attributes [] (Some ex_pk) = None"
    by (rule ex_write_guards) (simp_all add: ex_pk_def ex_PK_writable)
  ultimately show ?thesis by (subst ex_write_eq [where ts = "ex_time 2" and signers = None]) (simp_all add: lk)
qed

lemma ex_deleted_eq: "ex_write GLOBAL_VARIABLE ex_PK 2 [] ex_user = (SUCCESS, ex_deleted)"
  using delete_variable_eq [of ex_user GLOBAL_VARIABLE "utf16 ''PK''" ex_pk] ex_user_PK
  by (simp add: ex_deleted_def ex_delete PK_KEY_def)

lemma ex_deleted_PK: "look ex_deleted PK_KEY = None"
proof -
  have "touches internal_keys (removed GLOBAL_VARIABLE ex_PK ex_user) ex_deleted"
    using delete_variable_touches [OF ex_user_ok] ex_deleted_eq ex_delete by simp
  from touches_look [OF this PK_not_internal(1)] show ?thesis
    by (simp add: removed_store kv.look_del ex_user_ok PK_KEY_def)
qed

lemma ex_deleted_step: "service_step ex_crypto ex_user ex_deleted"
  by (rule ex_write_step [OF _ _ _ _ ex_deleted_eq]) simp_all

section \<open>A private authenticated variable\<close>

definition ex_vendor :: guid where
  "ex_vendor = guid_new 0x11223344 0x5566 0x7788 (replicate 8 9)"

abbreviation ex_own :: "u16 list" where "ex_own \<equiv> utf16 ''Own''"

lemma ex_own_facts [simp]:
  "0 \<notin> set ex_own" "length ex_own = 3" "ex_own \<noteq> []" "guid_ok ex_vendor" "ex_vendor \<noteq> GLOBAL_VARIABLE"
  "ex_vendor \<noteq> SECURE_BOOT_ENABLE_DISABLE" "ex_vendor \<noteq> CERT_DB" "ex_vendor \<noteq> VENDOR_KEYS_NV"
  "auth_kind ex_vendor ex_own = None"
  by (simp_all add: utf16_def auth_kind_def ex_vendor_def guid_new_ok guid_consts guid_new_eq)

lemma ex_own_writable: "sv_locks sv = [] \<Longrightarrow> \<not> read_only sv ex_vendor ex_own"
  by (simp add: read_only_def) (simp add: ex_vendor_def MEMORY_OVERWRITE_REQUEST_CONTROL_LOCK_def guid_new_eq)

lemma ex_own_internal: "(ex_vendor, ex_own) \<notin> internal_keys"
  by (simp add: internal_keys_def mode_keys_def key_defs)

definition ex_owner :: bytes where
  "ex_owner = take 32 ex_tbs"

lemma ex_private_signer:
  assumes "guid_ok g"
  shows "private_signer ex_crypto (a_signature (ex_auth g n day payload))
    (signed_content n g ex_attributes (ex_auth g n day payload)) = Some ex_owner"
proof -
  let ?content = "ex_content g n day payload"
  let ?si = "\<lparr>s_id = IssuerSerial ex_name [7], s_digest = Sha256, s_signed_attrs = None,
    s_signature = take 32 ?content\<rparr>"
  let ?sd = "\<lparr>sd_certificates = [ex_certificate], sd_signers = [?si]\<rparr>"
  have c: "signer_certificate ?sd ?si = Some ex_certificate"
    by (simp add: signer_certificate_def ex_certificate_def)
  have "find_issuer ex_crypto ?sd ex_certificate = None" by (simp add: find_issuer_def)
  then have top: "top_level_loop ex_crypto ?sd m ex_certificate = ex_certificate" for m
    by (cases m) simp_all
  have d: "c_digest ex_crypto Sha256 ?content = take 32 ?content"
    using ex_content_length [OF assms, of n day payload] by (simp add: ex_crypto_def)
  have "signer_signed ex_crypto ?si ex_certificate ?content"
    using ex_digest_length(1) [OF assms, of n day payload] d
    by (simp add: signer_signed_def ex_certificate_def hash_verify_def) (simp add: ex_crypto_def)
  moreover have "c_digest ex_crypto Sha256 (tbs_sha256 ex_crypto ex_certificate @ x_subject ex_certificate) = ex_owner"
    by (simp add: tbs_sha256_def ex_crypto_def ex_certificate_def ex_owner_def)
  ultimately show ?thesis
    using private_signer_single [OF ex_signature_parse [OF ex_digest_length(1) [OF assms, of n day payload]], of ?si ?content]
      c top by simp
qed

definition ex_records :: "signer_record list" where
  "ex_records = [(ex_vendor, ex_own, ex_owner)]"

definition ex_own_var :: "u8 \<Rightarrow> bytes \<Rightarrow> variable" where
  "ex_own_var day data = \<lparr>v_guid = ex_vendor, v_name = ex_own, v_attributes = ex_attributes,
     v_data = data, v_timestamp = ex_time day\<rparr>"

definition ex_owned :: service where
  "ex_owned = put_variable (signers_var (encode_signer_records ex_records))
     (put_variable (ex_own_var 1 [42]) ex_service)"

lemma ex_records_ok: "list_all signer_ok ex_records"
  by (simp add: ex_records_def signer_ok_def ex_owner_def)

lemma ex_records_length: "length (encode_signer_records ex_records) = 58"
proof -
  have "length (guid_bytes ex_vendor) = 16" using ex_own_facts(4) by (simp add: guid_ok_def)
  then show ?thesis
    by (simp add: encode_signer_records_def ex_records_def encode_signer_record_def u16_try_from_def ex_owner_def)
qed

lemma length_SIGNERS [simp]: "length (utf16 SIGNERS) = 16"
  by (simp add: utf16_def SIGNERS_def)

lemma ex_create:
  "ex_write ex_vendor ex_own 1 [42] ex_service = (SUCCESS, ex_owned)"
proof -
  have none: "look ex_service (ex_vendor, ex_own) = None" by (rule ex_service_none) simp
  have sn: "look ex_service SIGNERS_KEY = None" unfolding SIGNERS_KEY_def by (rule ex_service_none) simp
  have rec: "signer_records ex_service = []" by (simp add: signer_records_look sn)
  have fit: "fits ex_service [ex_own_var 1 [42], signers_var (encode_signer_records ex_records)]"
  proof -
    have "stored_size (ex_own_var 1 [42]) = 72"
      by (subst stored_size_eq) (simp_all add: ex_own_var_def usize_max_def)
    moreover have "stored_size (signers_var (encode_signer_records ex_records)) = 152"
      by (subst stored_size_eq) (simp_all add: ex_records_length usize_max_def)
    moreover have "store_find (sv_store ex_service) ex_vendor ex_own = None"
      "store_find (sv_store ex_service) CERT_DB (utf16 SIGNERS) = None"
      using none sn by (simp_all add: store_lookup_def SIGNERS_KEY_def)
    ultimately show ?thesis
      using ex_nv [of "ex_own_var 1 [42]"] signers_var_nv
      by (simp add: fits_def ex_service_used ex_budget saturating_add_def saturating_sub_def)
        (simp add: ex_own_var_def usize_max_def)
  qed
  have "store_variable ex_vendor ex_own ex_attributes [42] (ex_time 1)
      (Some (encode_signer_records ex_records)) None ex_service = (SUCCESS, ex_owned)"
    using fit by (subst ex_store_eq [where v = "ex_own_var 1 [42]"])
      (simp_all add: none ex_own_var_def ex_records_length ex_owned_def)
  moreover have "authorize ex_crypto ex_service ex_vendor ex_own ex_attributes
      (Some (ex_auth ex_vendor ex_own 1 [42])) None = Inr (ex_time 1, Some (encode_signer_records ex_records))"
    using ex_private_signer [of ex_vendor ex_own 1 "[42]"]
    by (simp add: authorize_def ex_attributes_check check_private_def rec signer_position_def ex_records_def)
  moreover have "write_guards ex_service ex_vendor ex_own ex_attributes [42] None = None"
    by (rule ex_write_guards) (simp_all add: ex_own_writable)
  ultimately show ?thesis
    by (subst ex_write_eq [where ts = "ex_time 1" and signers = "Some (encode_signer_records ex_records)"])
      (simp_all add: none)
qed

lemma ex_owned_ok: "store_ok (sv_store ex_owned)"
  and ex_owned_look: "look ex_owned (ex_vendor, ex_own) = Some (ex_own_var 1 [42])"
  and ex_owned_records: "signer_records ex_owned = ex_records"
  and ex_owned_fields [simp]: "sv_policies ex_owned = policies_default" "sv_locks ex_owned = []"
    "sv_end_of_dxe ex_owned = False" "sv_runtime ex_owned = False"
proof -
  let ?v = "ex_own_var 1 [42]"
  have key: "v_key ?v = (ex_vendor, ex_own)" by (simp add: ex_own_var_def)
  note t = put_variable_touches [OF ex_service_ok, of ?v]
  note a = put_variable_touches [OF touches_ok [OF t], of "signers_var (encode_signer_records ex_records)"]
  show "store_ok (sv_store ex_owned)" unfolding ex_owned_def by (rule touches_ok [OF a])
  show "look ex_owned (ex_vendor, ex_own) = Some ?v"
    using put_variable_look [OF touches_ok [OF t]] put_variable_look [OF ex_service_ok] key
    by (simp add: ex_owned_def)
  have "look ex_owned SIGNERS_KEY = Some (signers_var (encode_signer_records ex_records))"
    using put_variable_look [OF touches_ok [OF t]] by (simp add: ex_owned_def SIGNERS_KEY_def)
  then show "signer_records ex_owned = ex_records"
    using read_encode_signer_records [OF ex_records_ok] by (simp add: signer_records_look)
  show "sv_policies ex_owned = policies_default" "sv_locks ex_owned = []"
    "sv_end_of_dxe ex_owned = False" "sv_runtime ex_owned = False"
    using t a by (simp_all add: ex_owned_def touches_def)
qed

text \<open>Its signer deletes it.\<close>

definition ex_disowned :: service where
  "ex_disowned = snd (ex_write ex_vendor ex_own 2 [] ex_owned)"

lemma ex_disown:
  "ex_write ex_vendor ex_own 2 [] ex_owned = (SUCCESS, ex_disowned)"
  "delete_variable ex_vendor ex_own ex_owned = (SUCCESS, ex_disowned)"
proof -
  let ?v = "ex_own_var 1 [42]"
  have pos: "signer_position ex_records ex_vendor ex_own = Some 0"
    by (simp add: signer_position_def ex_records_def)
  have "timestamp_ok (Some ?v) (ex_time 2) False"
    by (simp add: timestamp_ok_def ex_own_var_def ex_time_def later_than_def time_key_def)
  then have "authorize ex_crypto ex_owned ex_vendor ex_own ex_attributes
      (Some (ex_auth ex_vendor ex_own 2 [])) (Some ?v) = Inr (ex_time 2, None)"
    using ex_private_signer [of ex_vendor ex_own 2 "[]"]
    by (simp add: authorize_def ex_attributes_check check_private_def ex_owned_records pos)
      (simp add: ex_records_def nth_get_def)
  moreover have "write_guards ex_owned ex_vendor ex_own ex_attributes [] (Some ?v) = None"
    by (rule ex_write_guards) (simp_all add: ex_own_writable ex_own_var_def)
  ultimately have e: "ex_write ex_vendor ex_own 2 [] ex_owned = delete_variable ex_vendor ex_own ex_owned"
    by (subst ex_write_eq [where ts = "ex_time 2" and signers = None]) (simp_all add: ex_owned_look)
  then show d: "delete_variable ex_vendor ex_own ex_owned = (SUCCESS, ex_disowned)"
    using delete_variable_eq [OF ex_owned_look] by (simp add: ex_disowned_def)
  with e show "ex_write ex_vendor ex_own 2 [] ex_owned = (SUCCESS, ex_disowned)" by simp
qed

lemma ex_disowned_look: "look ex_disowned (ex_vendor, ex_own) = None"
  using touches_look [OF delete_variable_touches [OF ex_owned_ok ex_disown(2)] ex_own_internal]
  by (simp add: removed_store kv.look_del ex_owned_ok)

lemma ex_owned_step: "service_step ex_crypto ex_owned ex_disowned"
  by (rule ex_write_step [OF _ _ _ _ ex_disown(1)]) simp_all

lemma ex_owned_reachable: "reachable ex_crypto ex_file ex_owned"
proof -
  have "service_step ex_crypto ex_service ex_owned"
    by (rule ex_write_step [OF _ _ _ _ ex_create]) simp_all
  then show ?thesis using ex_service_new unfolding reachable_def by blast
qed

section \<open>Locking it, and leaving boot services\<close>

definition ex_locked :: service where
  "ex_locked = ex_owned\<lparr>sv_locks := [(ex_vendor, ex_own)], sv_end_of_dxe := True,
     sv_policies := policies_lock policies_default\<rparr>"

definition ex_runtime :: service where
  "ex_runtime = ex_locked\<lparr>sv_runtime := True\<rparr>"

lemma ex_locked_steps: "(service_step ex_crypto)\<^sup>*\<^sup>* ex_owned ex_locked"
proof -
  let ?s = "ex_owned\<lparr>sv_locks := [(ex_vendor, ex_own)]\<rparr>"
  have "communicate ex_crypto (lock_message ex_vendor ex_own 0) ex_owned =
      (Inr (), ?s, lock_message ex_vendor ex_own (status_bits SUCCESS))"
    by (subst communicate_lock_message)
      (simp_all add: PAYLOAD_SIZE_def MAX_VARIABLE_SIZE_def AUTH_VARIABLE_HEADER_SIZE_def)
  then have a: "service_step ex_crypto ex_owned ?s" by (rule service_step.message)
  have "communicate ex_crypto (variable_call 5 0 []) ?s = (Inr (), ex_locked, variable_call 5 (status_bits SUCCESS) [])"
    by (subst communicate_ready_to_boot) (simp_all add: ex_locked_def)
  then have "service_step ex_crypto ?s ex_locked" by (rule service_step.message)
  with a show ?thesis by auto
qed

lemma ex_locked_reachable: "reachable ex_crypto ex_file ex_locked"
  using ex_owned_reachable ex_locked_steps unfolding reachable_def by (meson rtranclp_trans)

lemma ex_runtime_step: "service_step ex_crypto ex_locked ex_runtime"
  using service_step.message [OF communicate_exit_boot] unfolding ex_runtime_def by metis

lemma ex_runtime_reachable: "reachable ex_crypto ex_file ex_runtime"
  using ex_locked_reachable ex_runtime_step unfolding reachable_def by (meson rtranclp.rtrancl_into_rtrancl)

section \<open>The variables of the service when it starts\<close>

lemma fold_put_internal_store:
  "sv_store (fold (\<lambda>(n, d). put_internal g n a d) nds sv) =
     fold store_set (map (\<lambda>(n, d). internal_variable g n a d) nds) (sv_store sv)"
  by (induction nds arbitrary: sv) (auto simp: put_internal_def put_variable_store)

lemma ex_service_vars:
  "vars (sv_store ex_service) = map (\<lambda>(n, d). internal_variable GLOBAL_VARIABLE n rt_attributes d)
     [(SETUP_MODE, [1]), (SECURE_BOOT, [0]), (AUDIT_MODE, [0]), (DEPLOYED_MODE, [0]),
      (SIGNATURE_SUPPORT, signature_support), (VENDOR_KEYS, [1])]"
proof -
  let ?ld = "loaded ex_image store_default"
  have e: "store_lookup \<lparr>vars = []\<rparr> k = None" for k
    by (simp add: store_lookup_def store_find_def store_position_def)
  have m: "mode_values ?ld = [(SETUP_MODE, [1]), (SECURE_BOOT, [0]), (AUDIT_MODE, [0]), (DEPLOYED_MODE, [0]),
      (SIGNATURE_SUPPORT, signature_support), (VENDOR_KEYS, [1])]"
    by (simp add: mode_values_def pk_enrolled_def vendor_value_def store_default_def e bool_u8_def)
  have "sv_store ex_service = fold store_set (map (\<lambda>(n, d). internal_variable GLOBAL_VARIABLE n rt_attributes d)
      (mode_values ?ld)) \<lparr>vars = []\<rparr>"
    by (simp add: ex_service_def refresh_modes_eq fold_put_internal_store store_default_def)
  also have "\<dots> = \<lparr>vars = map (\<lambda>(n, d). internal_variable GLOBAL_VARIABLE n rt_attributes d) (mode_values ?ld)\<rparr>"
    by (subst fold_store_set_fresh) (simp_all add: m internal_variable_def name_defs)
  finally show ?thesis unfolding m by simp
qed

lemma length_signature_support: "length signature_support = 96"
proof -
  have "guid_ok CERT_SHA1" "guid_ok CERT_SHA256" "guid_ok CERT_SHA384" "guid_ok CERT_SHA512"
    "guid_ok CERT_RSA2048" "guid_ok CERT_X509"
    by (simp_all add: guid_consts guid_new_ok)
  then show ?thesis by (simp add: signature_support_def guid_ok_def)
qed

lemma ex_service_snapshot_fits: "snapshot_fits ex_service"
  by (simp add: snapshot_fits_def ex_service_vars internal_variable_def length_signature_support
      policies_default_def utf16_def name_defs)

section \<open>What is unwritten\<close>

lemma put_variable_changes:
  "sv_nv_changes (put_variable v sv) = sv_nv_changes sv + (if non_volatile v then 1 else 0)"
  by (simp add: put_variable_def changed_def Let_def)

lemma fold_put_internal_changes:
  assumes "\<not> a AND NON_VOLATILE \<noteq> 0"
  shows "sv_nv_changes (fold (\<lambda>(n, d). put_internal g n a d) nds sv) = sv_nv_changes sv"
  using assms
  by (induction nds arbitrary: sv)
    (auto simp: put_internal_def put_variable_changes non_volatile_def internal_variable_def)

lemma ex_owned_changes: "sv_nv_changes ex_owned = 2" "sv_nv_written ex_owned = 0"
proof -
  have "sv_nv_changes ex_service = 0"
    unfolding ex_service_def refresh_modes_eq
    by (subst fold_put_internal_changes) (simp_all add: loaded_def attribute_defs)
  then show "sv_nv_changes ex_owned = 2"
    using ex_nv [of "ex_own_var 1 [42]"] signers_var_nv
    by (simp add: ex_owned_def put_variable_changes) (simp add: ex_own_var_def)
  show "sv_nv_written ex_owned = 0"
    using refresh_modes_touches [OF ex_loaded_ok]
    by (simp add: ex_owned_def ex_service_def touches_def) (simp add: loaded_def)
qed

lemma ex_owned_image: "\<exists>b sv. take_image ex_owned = (Inr (Some b), sv)"
proof (rule take_image_write [OF reachable_inv [OF ex_store_file_ok ex_owned_reachable]])
  assume "take_image ex_owned = (Inr None, ex_owned)"
  then show ?thesis
    by (simp add: take_image_def ex_owned_changes split: option.splits prod.splits)
qed blast

end
