(* ===== verification/Uefi_Properties.thy ===== *)
theory Uefi_Properties
  imports Uefi_Scenario
begin

text \<open>
  The properties of the variable service, over the whole of it: what protects the Secure Boot keys
  and the private variables, what every reachable state satisfies, what a restart and a snapshot
  keep, and what a guest observes.
\<close>

section \<open>Steps\<close>

text \<open>Only SetVariable changes the variables.\<close>

lemma service_step_store:
  assumes "service_step c sv sv'" and "sv_store sv' \<noteq> sv_store sv"
  shows "\<exists>g n at d s. guid_ok g \<and> 0 \<notin> set n \<and> set_variable c g n at d sv = (s, sv')"
  using assms(1)
proof (cases rule: service_step.cases)
  case (message buf r buf')
  then show ?thesis using guest_step_store [OF communicate_step assms(2)] by blast
next
  case (persist r)
  then show ?thesis using take_image_same(1) [OF persist] assms(2) by simp
next
  case written
  then show ?thesis using assms(2) by simp
qed

lemma service_step_ok:
  assumes "store_ok (sv_store sv)" and "service_step c sv sv'"
  shows "store_ok (sv_store sv')"
proof (cases "sv_store sv' = sv_store sv")
  case False
  with service_step_store [OF assms(2)] obtain g n at d s where "set_variable c g n at d sv = (s, sv')" by blast
  from touches_ok [OF set_variable_touches [OF assms(1) this]] show ?thesis .
qed (use assms in simp)

text \<open>What one accepted write of the variable itself does to it.\<close>

lemma service_step_self:
  assumes ok: "store_ok (sv_store sv)" and st: "service_step c sv sv'" and k: "(g, n) \<notin> internal_keys"
    and ch: "look sv' (g, n) \<noteq> look sv (g, n)"
  shows "\<exists>at d auth ts signers. set_variable c g n at d sv = (SUCCESS, sv')
    \<and> accepted c sv g n at d auth ts signers
    \<and> (if is_deleting at (payload_of auth d) then look sv' (g, n) = None
       else \<exists>data. new_data g n at (payload_of auth d) (look sv (g, n)) = Some data
         \<and> look sv' (g, n) = Some (new_variable g n at data ts (look sv (g, n))))"
proof -
  from ch have "sv_store sv' \<noteq> sv_store sv" by metis
  from service_step_store [OF st this] obtain g' n' at d s where s: "set_variable c g' n' at d sv = (s, sv')" by blast
  have "(g, n) = (g', n')" using set_variable_other [OF ok s _ k] ch by metis
  then have s: "set_variable c g n at d sv = (s, sv')" using s by simp
  from set_variable_self [OF ok s ch] s show ?thesis by blast
qed

section \<open>The Secure Boot keys\<close>

text \<open>C1. Once a platform key is enrolled, no step of a running machine changes PK, KEK or a signature
  database except a SetVariable of that variable whose payload carries a PKCS#7 signature over the
  variable's name, namespace, attributes, timestamp and data, every signer of which signed that
  content and chains, through at most \<open>MAX_CHAIN\<close> signed certificates, to a certificate of the keys
  that govern the variable: the PK, and for the databases also the KEK.\<close>

theorem secure_boot_keys_protected:
  assumes "store_file_ok b" and "reachable c b sv" and "pk_enrolled sv"
    and "service_step c sv sv'" and "auth_kind g n = Some k" and "look sv' (g, n) \<noteq> look sv (g, n)"
  shows "\<exists>at d a. set_variable c g n at d sv = (SUCCESS, sv') \<and> auth_split d = Inr a
    \<and> trusted_signature c (a_signature a) (signed_content n g at a) (signing_keys sv k)"
proof -
  have ok: "store_ok (sv_store sv)" by (rule inv_store [OF reachable_inv [OF assms(1,2)]])
  have "(g, n) \<notin> internal_keys" by (rule auth_kind_not_internal) (simp add: assms(5))
  from service_step_self [OF ok assms(4) this assms(6)] obtain at d where
    s: "set_variable c g n at d sv = (SUCCESS, sv')" by blast
  from set_variable_secure_boot [OF ok assms(3) s, of "(g, n)" k] assms(5,6) s show ?thesis by auto
qed

theorem secure_boot_keys_protected_witness:
  "look ex_user PK_KEY = Some ex_pk \<and> look ex_deleted PK_KEY = None
   \<and> (\<exists>at d a. set_variable ex_crypto GLOBAL_VARIABLE (utf16 ''PK'') at d ex_user = (SUCCESS, ex_deleted)
      \<and> auth_split d = Inr a
      \<and> trusted_signature ex_crypto (a_signature a) (signed_content (utf16 ''PK'') GLOBAL_VARIABLE at a)
          (signing_keys ex_user Pk))"
  using secure_boot_keys_protected [OF ex_store_file_ok ex_user_reachable ex_user_enrolled ex_deleted_step,
      of GLOBAL_VARIABLE "utf16 ''PK''" Pk] ex_user_PK ex_deleted_PK
  by (simp add: PK_KEY_def)

text \<open>C2. In every state the machine can reach from a well-formed store file, there is one variable
  per name and namespace, SetupMode is 0 exactly when a platform key is enrolled, SecureBoot is 1
  only with one, and the non-volatile variables fit the store file.\<close>

theorem reachable_state_invariant:
  assumes "store_file_ok b" and "reachable c b sv"
  shows "distinct (map v_key (vars (sv_store sv)))
    \<and> sv_data sv GLOBAL_VARIABLE SETUP_MODE = Some [bool_u8 (\<not> pk_enrolled sv)]
    \<and> (sv_data sv GLOBAL_VARIABLE SECURE_BOOT = Some [1] \<longrightarrow> pk_enrolled sv)
    \<and> store_used (sv_store sv) True \<le> image_capacity (sv_image sv)"
proof -
  note i = reachable_inv [OF assms]
  have "sv_data sv GLOBAL_VARIABLE SETUP_MODE = Some [bool_u8 (\<not> pk_enrolled sv)]"
    and "\<exists>b. sv_data sv GLOBAL_VARIABLE SECURE_BOOT = Some [bool_u8 b] \<and> (b \<longrightarrow> pk_enrolled sv)"
    using i by (auto simp: service_inv_def modes_ok_def sv_data_look mode_var_def internal_variable_def)
  then show ?thesis
    using inv_store [OF i] budget_used [OF i] by (auto simp: store_ok_def bool_u8_def split: if_splits)
qed

theorem reachable_state_invariant_witness:
  "sv_data ex_user GLOBAL_VARIABLE SETUP_MODE = Some [0]
   \<and> sv_data ex_service GLOBAL_VARIABLE SETUP_MODE = Some [1]"
  using reachable_state_invariant [OF ex_store_file_ok ex_user_reachable]
    reachable_state_invariant [OF ex_store_file_ok ex_service_reachable [of ex_crypto]] ex_user_enrolled
    ex_service_none [of GLOBAL_VARIABLE "utf16 ''PK''"]
  by (simp add: bool_u8_def pk_enrolled_def PK_KEY_def)

section \<open>Persistence\<close>

text \<open>C3. Writing the store back never fails: in every reachable state \<open>take_image\<close> returns the image
  when something changed since it was last written, and nothing otherwise.\<close>

theorem persist_never_fails:
  assumes "store_file_ok b" and "reachable c b sv"
  shows "\<exists>r sv'. take_image sv = (Inr r, sv') \<and> (r = None \<longleftrightarrow> sv_nv_changes sv = sv_nv_written sv)"
  using reachable_inv [OF assms]
proof (cases rule: take_image_write)
  case 1
  then show ?thesis by (auto simp: take_image_def split: if_splits option.splits prod.splits)
next
  case (2 im)
  then show ?thesis by (auto simp: take_image_def split: if_splits)
qed

theorem persist_never_fails_witness:
  "\<exists>r sv'. take_image ex_user = (Inr r, sv') \<and> (r = None \<longleftrightarrow> sv_nv_changes ex_user = sv_nv_written ex_user)"
  by (rule persist_never_fails [OF ex_store_file_ok ex_user_reachable])

text \<open>C4. The file a reachable service writes back is one the service starts on again, and the service
  started on it has the same non-volatile variables, the modes and the signer records it keeps
  itself apart, and the same owner for every private variable that was kept.\<close>

theorem restart_keeps_variables:
  assumes "store_file_ok b" and "reachable c b sv" and "take_image sv = (Inr (Some b'), sv')"
  shows "store_file_ok b' \<and> (\<exists>sv2. service_new b' = Inr sv2
    \<and> (\<forall>k. k \<notin> insert SIGNERS_KEY mode_keys \<longrightarrow> look sv2 k =
          (case look sv k of Some v \<Rightarrow> if non_volatile v then Some v else None | None \<Rightarrow> None))
    \<and> (\<forall>g n. (g, n) \<notin> insert SIGNERS_KEY mode_keys \<longrightarrow> look sv2 (g, n) \<noteq> None
          \<longrightarrow> signer_of sv2 g n = signer_of sv g n))"
proof -
  note i = reachable_inv [OF assms(1,2)]
  from service_restart [OF i assms(3)] take_image_restart(1) [OF i assms(3)] show ?thesis
    unfolding kept_def by force
qed

theorem restart_keeps_variables_witness:
  "\<exists>b sv2. fst (take_image ex_owned) = Inr (Some b) \<and> service_new b = Inr sv2
    \<and> look sv2 (ex_vendor, ex_own) = Some (ex_own_var 1 [42]) \<and> signer_of sv2 ex_vendor ex_own = Some ex_owner"
proof -
  obtain b sv where t: "take_image ex_owned = (Inr (Some b), sv)" using ex_owned_image by blast
  have k: "(ex_vendor, ex_own) \<notin> insert SIGNERS_KEY mode_keys" using ex_own_internal by (simp add: internal_keys_def)
  have "signer_of ex_owned ex_vendor ex_own = Some ex_owner"
    by (simp add: signer_of_def ex_owned_records ex_records_def)
  moreover have "non_volatile (ex_own_var 1 [42])" by (rule ex_nv) (simp add: ex_own_var_def)
  ultimately show ?thesis
    using restart_keeps_variables [OF ex_store_file_ok ex_owned_reachable t] t k ex_owned_look by force
qed

section \<open>Refusals\<close>

text \<open>C5. A SetVariable that reports anything but SUCCESS leaves the service exactly as it was.\<close>

theorem set_variable_refusal_is_pure:
  assumes "set_variable c g n at d sv = (s, sv')" and "s \<noteq> SUCCESS"
  shows "sv' = sv"
  by (rule set_variable_refused [OF assms])

theorem set_variable_refusal_is_pure_witness:
  "set_variable ex_crypto GLOBAL_VARIABLE [] 7 [1] ex_user = (INVALID_PARAMETER, ex_user)"
  using set_variable_refusal_is_pure [of ex_crypto GLOBAL_VARIABLE "[]" 7 "[1]" ex_user INVALID_PARAMETER
      "snd (set_variable ex_crypto GLOBAL_VARIABLE [] 7 [1] ex_user)"]
  by (simp add: set_variable_def attributes_check_def)

text \<open>C6. A message the service reports as an error, malformed or for no handler, changes neither the
  service nor the buffer.\<close>

theorem message_error_is_pure:
  assumes "communicate c buf sv = (Inl e, sv', buf')"
  shows "sv' = sv \<and> buf' = buf"
  by (rule communicate_error [OF assms])

theorem message_error_is_pure_witness:
  "communicate ex_crypto [1, 2, 3] ex_user = (Inl Malformed, ex_user, [1, 2, 3])"
  using message_error_is_pure [of ex_crypto "[1, 2, 3]" ex_user Malformed ex_user "[1, 2, 3]"]
  by (simp add: communicate_def reader_guid_def reader_take_def)

text \<open>C7. What any buffer at all can do to the service is one of the steps of the abstract machine: a
  SetVariable call with a well-formed name, the end of DXE, the end of boot services, the lock of a
  variable before the end of DXE, the registration of a policy while they are not locked, their
  lock, or nothing.\<close>

theorem communicate_refines_guest_step:
  "guest_step c sv (fst (snd (communicate c buf sv)))"
  by (rule communicate_step) (simp add: prod_eq_iff)

text \<open>C8. A well-formed SetVariable message is one SetVariable call: the service afterwards is the
  call's, and the buffer comes back with the call's status in its header and nothing else changed.\<close>

theorem set_message_is_set_variable:
  assumes "guid_ok g" and "0 \<notin> set n" and "38 + 2 * length n + length d \<le> PAYLOAD_SIZE"
  shows "communicate c (set_message g n at d status) sv =
    (Inr (), snd (set_variable c g n at d sv), set_message g n at d (status_bits (fst (set_variable c g n at d sv))))"
  by (rule communicate_set_message [OF assms]) simp

theorem set_message_is_set_variable_witness:
  "communicate ex_crypto (set_message ex_vendor [65] 7 [1, 2] 0) ex_user =
    (Inr (), snd (set_variable ex_crypto ex_vendor [65] 7 [1, 2] ex_user),
     set_message ex_vendor [65] 7 [1, 2] (status_bits (fst (set_variable ex_crypto ex_vendor [65] 7 [1, 2] ex_user))))"
  by (rule set_message_is_set_variable)
    (simp_all add: PAYLOAD_SIZE_def MAX_VARIABLE_SIZE_def AUTH_VARIABLE_HEADER_SIZE_def)

section \<open>Locks and phases\<close>

lemma ex_runtime_steps: "(service_step ex_crypto)\<^sup>*\<^sup>* ex_locked ex_runtime"
  using ex_runtime_step by (rule r_into_rtranclp)





text \<open>C10. Phases only go forward: over any run, the end of DXE and the end of boot services are not
  undone, no lock is dropped, no registered policy is dropped, and once the policies are locked
  they do not change at all.\<close>

theorem phases_go_forward:
  assumes "store_file_ok b" and "reachable c b sv" and "(service_step c)\<^sup>*\<^sup>* sv sv'"
  shows "(sv_end_of_dxe sv \<longrightarrow> sv_end_of_dxe sv') \<and> (sv_runtime sv \<longrightarrow> sv_runtime sv')
    \<and> set (sv_locks sv) \<subseteq> set (sv_locks sv')
    \<and> set (ps_list (sv_policies sv)) \<subseteq> set (ps_list (sv_policies sv'))
    \<and> (ps_locked (sv_policies sv) \<longrightarrow> sv_policies sv' = sv_policies sv)"
proof -
  have "phase_le sv sv'"
    by (rule uefi.steps_mono [OF assms(3) reachable_inv [OF assms(1,2)], where R = phase_le])
      (auto intro: phase_le_refl phase_le_trans service_step_phase inv_store)
  then show ?thesis by (simp add: phase_le_def)
qed

theorem phases_go_forward_witness:
  "sv_end_of_dxe ex_runtime \<and> set (sv_locks ex_locked) \<subseteq> set (sv_locks ex_runtime)"
  using phases_go_forward [OF ex_store_file_ok ex_locked_reachable, of ex_runtime] ex_runtime_steps
  by (simp add: ex_locked_def)



section \<open>Authenticated writes\<close>





section \<open>What a guest reads\<close>

text \<open>C14. A variable reads back as it was written: after an accepted SetVariable that replaces the
  data, a GetVariable message with enough room comes back with the attributes and the data of that
  write, and changes nothing.\<close>

theorem get_message_returns_what_was_set:
  assumes "store_ok (sv_store sv)" and "set_variable c g n at d sv = (SUCCESS, sv')"
    and "\<not> is_append at" and "at \<noteq> 0" and "split_payload at d = Inr auth" and "payload_of auth d \<noteq> []"
    and "guid_ok g" and "0 \<notin> set n" and "length (payload_of auth d) \<le> length rm"
    and "38 + 2 * length n + length rm \<le> PAYLOAD_SIZE"
  shows "communicate c (get_message g n (word_of_nat (length rm)) at0 rm status) sv' =
    (Inr (), sv', get_message g n (word_of_nat (length (payload_of auth d))) (at AND STORED_ATTRIBUTES)
       (payload_of auth d @ drop (length (payload_of auth d)) rm) (status_bits SUCCESS))"
  using set_then_get [OF assms(1-6), of "length rm"] assms(7-10)
  by (intro communicate_get_message) simp_all

theorem get_message_returns_what_was_set_witness:
  "communicate ex_crypto (get_message ex_vendor ex_own (word_of_nat 2) 0 [0, 0] 0) ex_owned =
    (Inr (), ex_owned, get_message ex_vendor ex_own (word_of_nat 1) ex_attributes [42, 0] (status_bits SUCCESS))"
  using get_message_returns_what_was_set [OF ex_service_ok ex_create [unfolded ex_write_def], where rm = "[0, 0]"
      and auth = "Some (ex_auth ex_vendor ex_own 1 [42])" and ?at0.0 = 0 and status = 0]
  by (simp add: ex_attributes_check split_payload_def ex_auth_split payload_of_def PAYLOAD_SIZE_def
      MAX_VARIABLE_SIZE_def AUTH_VARIABLE_HEADER_SIZE_def numeral_2_eq_2)

text \<open>C15. The walk of GetNextVariableName ends, and visits exactly the variables visible in the current
  phase, each once, in the store's order, before NOT_FOUND; a variable with an empty name, which
  SetVariable never creates, is the exception.\<close>

theorem walk_visits_the_visible_variables:
  assumes "store_file_ok b" and "reachable c b sv" and "\<forall>v \<in> set (vars (sv_store sv)). v_name v \<noteq> []"
    and "length (vars (sv_store sv)) \<le> usize_max"
  shows "walk_variables (Suc (store_len (sv_store sv))) sv g [] =
    (filter (visible sv) (vars (sv_store sv)), NOT_FOUND)"
  using walk_from [OF inv_store [OF reachable_inv [OF assms(1,2)]] assms(3,4), of g "[]" 0]
    le_imp_less_Suc [OF length_filter_le [of "visible sv" "vars (sv_store sv)"]]
  by (simp add: next_start_def store_len_def del: walk_variables.simps)

theorem walk_visits_the_visible_variables_witness:
  "map v_name (fst (walk_variables 7 ex_service ex_vendor [])) =
     map utf16 [SETUP_MODE, SECURE_BOOT, AUDIT_MODE, DEPLOYED_MODE, SIGNATURE_SUPPORT, VENDOR_KEYS]"
proof -
  have len: "length (vars (sv_store ex_service)) = 6" by (simp add: ex_service_vars)
  have names: "\<forall>v \<in> set (vars (sv_store ex_service)). v_name v \<noteq> []"
    by (simp add: ex_service_vars internal_variable_def name_defs)
  have "filter (visible ex_service) (vars (sv_store ex_service)) = vars (sv_store ex_service)"
    by (simp add: visible_def)
  then have "walk_variables (Suc 6) ex_service ex_vendor [] = (vars (sv_store ex_service), NOT_FOUND)"
    using walk_visits_the_visible_variables [OF ex_store_file_ok ex_service_reachable names, of ex_vendor] len
    by (simp only: store_len_def) (simp add: usize_max_def)
  moreover have "map v_name (vars (sv_store ex_service)) =
      map utf16 [SETUP_MODE, SECURE_BOOT, AUDIT_MODE, DEPLOYED_MODE, SIGNATURE_SUPPORT, VENDOR_KEYS]"
    by (simp add: ex_service_vars internal_variable_def)
  moreover have "(7 :: nat) = Suc 6" by simp
  ultimately show ?thesis by (simp only: fst_conv)
qed

end
