(* ===== verification/Uefi_Components.thy ===== *)
theory Uefi_Components
  imports Uefi_Scenario
begin

text \<open>
  The properties of the parts the variable service is built from: the snapshot of its transient
  state, the store file, signature databases, DER, policies, the room a guest is told of, and the
  records of who signed a private variable.
\<close>

section \<open>Snapshots\<close>

lemma snapshot_order:
  assumes "store_ok st"
  defines "l \<equiv> filter non_volatile (vars st) @ filter (\<lambda>v. \<not> non_volatile v) (vars st)"
  shows "fold store_set l store_default = \<lparr>vars = l\<rparr>" and "store_find \<lparr>vars = l\<rparr> g n = store_find st g n"
proof -
  have mem: "set l = set (vars st)" by (auto simp: l_def)
  have "distinct (map v_key l)"
    using assms(1) by (auto simp: store_ok_def l_def distinct_map_filter inj_on_def distinct_map)
  then have ok: "store_ok \<lparr>vars = l\<rparr>" by (simp add: store_ok_def)
  from \<open>distinct (map v_key l)\<close> show "fold store_set l store_default = \<lparr>vars = l\<rparr>"
    using fold_store_set_fresh [of store_default l] by (simp add: store_default_def)
  show "store_find \<lparr>vars = l\<rparr> g n = store_find st g n"
    using store_find_iff [OF ok] store_find_iff [OF assms(1)] mem by (metis not_None_eq store.select_convs(1))
qed

lemma inv_variables: "service_inv sv \<Longrightarrow> list_all variable_ok (vars (sv_store sv))"
  unfolding service_inv_def vars_ok_def list_all_iff store_lookup_def
  by (metis fst_conv snd_conv prod.collapse store_find_iff)

text \<open>C16. A snapshot restores the service it was taken of: on a service that has the same store file
  contents, restoring gives back every variable, volatile ones included, the policies, the locks and
  the phase, as long as the counts fit the format's 32-bit lengths.\<close>

theorem snapshot_restores_the_service:
  assumes "store_file_ok b" and "reachable c b sv" and "snapshot_fits sv"
    and "filter non_volatile (vars (sv_store sv0)) = filter non_volatile (vars (sv_store sv))"
  shows "\<exists>sv'. restore_transient (save_transient sv) sv0 = Inr sv'
    \<and> (\<forall>k. look sv' k = look sv k)
    \<and> sv_policies sv' = sv_policies sv \<and> sv_locks sv' = sv_locks sv
    \<and> sv_end_of_dxe sv' = sv_end_of_dxe sv \<and> sv_runtime sv' = sv_runtime sv
    \<and> sv_image sv' = sv_image sv0"
proof -
  note i = reachable_inv [OF assms(1,2)]
  have "policies_ok (sv_policies sv)" "\<forall>(g, n) \<in> set (sv_locks sv). guid_ok g \<and> 0 \<notin> set n"
    using i by (auto simp: service_inv_def locks_ok_def)
  from restore_save_transient [OF inv_variables [OF i] this assms(3), of sv0] snapshot_order [OF inv_store [OF i]] assms(4)
  show ?thesis by (simp add: store_lookup_def)
qed

theorem snapshot_restores_the_service_witness:
  "\<exists>sv'. restore_transient (save_transient ex_service) ex_service = Inr sv'
    \<and> (\<forall>k. look sv' k = look ex_service k)"
  using snapshot_restores_the_service [OF ex_store_file_ok ex_service_reachable ex_service_snapshot_fits refl]
  by blast

section \<open>The store file\<close>

text \<open>C17. The store file holds what was written to it: when the non-volatile variables fit, writing
  them succeeds, the image still parses, reading it gives back exactly those variables in order, and
  no byte outside the store's records changes.\<close>

theorem store_file_round_trip:
  assumes "image_parse (im_bytes im) = Inr im" and "image_ok im"
    and "store_ok st" and "list_all variable_ok (vars st)" and "store_used st True \<le> image_capacity im"
  shows "\<exists>im'. image_write im st = (None, im')
    \<and> image_parse (im_bytes im') = Inr im'
    \<and> image_variables im' = Inr \<lparr>vars = filter non_volatile (vars st)\<rparr>
    \<and> take (im_store im + STORE_HEADER_SIZE) (im_bytes im') = take (im_store im + STORE_HEADER_SIZE) (im_bytes im)
    \<and> drop (im_store im + im_store_size im) (im_bytes im') = drop (im_store im + im_store_size im) (im_bytes im)"
proof -
  from image_write_succeeds [OF assms(2,4,5)] obtain im' where w: "image_write im st = (None, im')" by blast
  from image_write_parse(1) [OF assms(1,2) w] image_write_variables [OF assms(2) w assms(3,4)]
    image_write_frame(4,5) [OF assms(2) w] w show ?thesis by blast
qed

theorem store_file_round_trip_witness:
  "\<exists>im'. image_write ex_image (sv_store ex_owned) = (None, im')
    \<and> image_variables im' = Inr \<lparr>vars = filter non_volatile (vars (sv_store ex_owned))\<rparr>"
proof -
  note i = reachable_inv [OF ex_store_file_ok ex_owned_reachable]
  have im: "sv_image ex_owned = ex_image" by (simp add: ex_owned_def ex_service_fields)
  have "store_used (sv_store ex_owned) True \<le> image_capacity ex_image"
    using budget_used [OF i] im by simp
  moreover have "image_parse (im_bytes ex_image) = Inr ex_image" using ex_image_parse by (simp add: ex_image_def)
  ultimately show ?thesis
    using store_file_round_trip [OF _ ex_image_ok(1) inv_store [OF i] inv_variables [OF i]] by blast
qed

section \<open>Signature databases\<close>

text \<open>C18. Appending to a signature database is set union: whenever both parse, the append succeeds,
  keeps the old bytes as a prefix, parses again, and holds exactly the signatures of both; appending
  the same signatures once more changes nothing.\<close>

theorem append_is_union:
  assumes "siglist_parse old \<noteq> None" and "siglist_parse new \<noteq> None"
  shows "\<exists>b. siglist_append old new = Some (old @ b)
    \<and> siglist_parse (old @ b) \<noteq> None
    \<and> signature_set (old @ b) = signature_set old \<union> signature_set new
    \<and> siglist_append (old @ b) new = Some (old @ b)"
proof -
  from assms obtain ls ms where "siglist_parse old = Some ls" "siglist_parse new = Some ms" by blast
  from siglist_append_union [OF this] obtain b where b: "siglist_append old new = Some (old @ b)"
    "siglist_parse (old @ b) \<noteq> None" "signature_set (old @ b) = signature_set old \<union> signature_set new" by blast
  moreover from siglist_append_known [OF b(2) assms(2)] b(3) have "siglist_append (old @ b) new = Some (old @ b)"
    by blast
  ultimately show ?thesis by blast
qed

theorem append_is_union_witness:
  "\<exists>b. siglist_append [] ex_pk_data = Some b \<and> signature_set b = signature_set ex_pk_data
    \<and> siglist_append b ex_pk_data = Some b"
proof -
  have n: "siglist_parse [] \<noteq> None" "signature_set [] = {}"
    by (simp_all add: siglist_parse.simps signature_set_def)
  have "siglist_parse ex_pk_data \<noteq> None" by (simp add: ex_pk_parse)
  from append_is_union [OF n(1) this] n(2) show ?thesis by auto
qed

section \<open>DER\<close>

text \<open>C19. The DER reader reads back any sequence of encoded elements with the tags, contents and raw
  bytes they were encoded with, for every low tag number and every length the format's four length
  octets can carry.\<close>

theorem der_round_trip:
  assumes "list_all (\<lambda>(tag, v). tag AND 0x1f \<noteq> 0x1f \<and> length v < 2 ^ 32) els"
  shows "der_children (concat (map (\<lambda>(tag, v). der_encode tag v) els))
    = Some (map (\<lambda>(tag, v). \<lparr>t_tag = tag, t_value = v, t_raw = der_encode tag v\<rparr>) els)"
  by (rule der_children_encode [OF assms])

theorem der_round_trip_witness:
  "der_children (der_encode 0x30 [1, 2] @ der_encode 0x04 (replicate 200 7))
    = Some [\<lparr>t_tag = 0x30, t_value = [1, 2], t_raw = der_encode 0x30 [1, 2]\<rparr>,
            \<lparr>t_tag = 0x04, t_value = replicate 200 7, t_raw = der_encode 0x04 (replicate 200 7)\<rparr>]"
  using der_round_trip [of "[(0x30, [1, 2]), (0x04, replicate 200 7)]"] by simp

section \<open>Policies\<close>

lemma min_by_key_first:
  "(\<forall>y \<in> set pre. f x < f y) \<Longrightarrow> (\<forall>y \<in> set post. f x \<le> f y) \<Longrightarrow> min_by_key f (pre @ x # post) = Some x"
  by (induction pre) (auto dest: min_by_key_in split: option.splits)

text \<open>C20. A write is judged by the most specific policy alone: among the registered policies that
  match the variable, the earliest with the fewest wildcards decides, whatever others say.\<close>

theorem most_specific_policy_decides:
  assumes "ps_list ps = pre @ p # post" and "policy_matches p g n"
    and "\<forall>q \<in> set pre. policy_matches q g n \<longrightarrow> policy_priority p < policy_priority q"
    and "\<forall>q \<in> set post. policy_matches q g n \<longrightarrow> policy_priority p \<le> policy_priority q"
  shows "policies_check ps g n at sz ex st = policies_check (ps\<lparr>ps_list := [p]\<rparr>) g n at sz ex st"
  using min_by_key_first [of "filter (\<lambda>q. policy_matches q g n) pre" policy_priority p
      "filter (\<lambda>q. policy_matches q g n) post"] assms
  by (simp add: policies_check_def)

definition ex_policy :: "u16 list option \<Rightarrow> lock \<Rightarrow> policy" where
  "ex_policy n l = \<lparr>p_raw = [], p_guid = ex_vendor, p_name = n, p_min_size = 0, p_max_size = 64,
     p_must_have = 0, p_cant_have = 0, p_lock = l\<rparr>"

lemmas ex_policy_simps = ex_policy_def policy_matches_def policy_priority_def wildcards_def WILDCARD_def
  MAX_WILDCARDS_def

theorem most_specific_policy_decides_witness:
  "policies_check (policies_default\<lparr>ps_list := [ex_policy None LockNow, ex_policy (Some [65]) LockNone]\<rparr>)
     ex_vendor [65] 7 8 True (\<lambda>_ _. None) = SUCCESS"
proof -
  let ?ps = "policies_default\<lparr>ps_list := [ex_policy None LockNow, ex_policy (Some [65]) LockNone]\<rparr>"
  have "ps_list ?ps = [ex_policy None LockNow] @ ex_policy (Some [65]) LockNone # []" by simp
  from most_specific_policy_decides [OF this, of ex_vendor "[65]" 7 8 True "\<lambda>_ _. None"] show ?thesis
    by (simp add: ex_policy_simps policies_check_def policies_default_def u32_try_from_def)
qed

text \<open>C21. A registered policy stays in force: once a policy for an exact name is registered, no later
  registration for that name is accepted, so the policy that decides for the variable cannot be
  replaced before the policies are locked.\<close>

theorem registered_policy_not_replaced:
  assumes "policies_register p ps = (SUCCESS, ps')" and "p_name p = Some n" and "wildcards n = 0"
    and "set (ps_list ps') \<subseteq> set (ps_list ps2)" and "p_guid q = p_guid p" and "p_name q = Some n"
  shows "fst (policies_register q ps2) \<noteq> SUCCESS \<and> snd (policies_register q ps2) = ps2"
proof -
  have "p \<in> set (ps_list ps')"
    using assms(1) by (auto simp: policies_register_def Let_def split: if_splits)
  moreover have "policy_matches p (p_guid p) n"
    using assms(2,3)
    by (auto simp: policy_matches_def list_all_iff wildcards_def filter_empty_conv set_zip) (metis nth_mem)
  moreover have "policy_priority p = 0" using assms(2,3) by (simp add: policy_priority_def)
  ultimately have "list_ex (\<lambda>r. policy_priority r = 0 \<and> policy_matches r (p_guid q) n) (ps_list ps2)"
    using assms(4,5) by (auto simp: list_ex_iff)
  then show ?thesis using assms(6) by (simp add: policies_register_def)
qed

theorem registered_policy_not_replaced_witness:
  "policies_register (ex_policy (Some [65]) LockNow) policies_default
     = (SUCCESS, policies_default\<lparr>ps_list := [ex_policy (Some [65]) LockNow]\<rparr>)
   \<and> snd (policies_register (ex_policy (Some [65]) LockNone)
        (policies_default\<lparr>ps_list := [ex_policy (Some [65]) LockNow]\<rparr>))
     = policies_default\<lparr>ps_list := [ex_policy (Some [65]) LockNow]\<rparr>"
proof -
  let ?p = "ex_policy (Some [65]) LockNow" and ?q = "ex_policy (Some [65]) LockNone"
  let ?ps = "policies_default\<lparr>ps_list := [?p]\<rparr>"
  have r: "policies_register ?p policies_default = (SUCCESS, ?ps)"
    by (simp add: policies_register_def policies_default_def ex_policy_def)
  from registered_policy_not_replaced [OF r, of "[65]" ?ps ?q] r show ?thesis by (simp add: ex_policy_simps)
qed

section \<open>Room\<close>

lemma stored_size_pos: "0 < stored_size v"
proof -
  let ?s = "saturating_add (saturating_add (saturating_add AUTH_VARIABLE_HEADER_SIZE
    (saturating_mul (saturating_add (length (v_name v)) 1) 2)) (length (v_data v))) 3"
  have "60 \<le> ?s" by (auto simp: saturating_add_def AUTH_VARIABLE_HEADER_SIZE_def usize_max_def min_def)
  then have "0 < ?s div 4 * 4" by simp
  then show ?thesis by (simp only: stored_size_def Let_def nat_and_3)
qed

lemma nv_budget_le: "nv_budget sv nv \<le> 0x40000"
  by (simp add: nv_budget_def NV_STORAGE_SIZE_def VOLATILE_STORAGE_SIZE_def)

text \<open>C22. What a guest is told is what holds: when QueryVariableInfo reports the remaining room for a
  kind of variable, a new variable of that kind passes the room check exactly when its record is no
  larger than that, and the room never exceeds the total.\<close>

theorem reported_room_is_accepted:
  assumes "query sv at = Inr (mx, remaining, max_var)" and "non_volatile v = (at AND NON_VOLATILE \<noteq> 0)"
    and "store_find (sv_store sv) (v_guid v) (v_name v) = None"
  shows "(fits sv [v] \<longleftrightarrow> stored_size v \<le> unat remaining) \<and> remaining \<le> mx"
proof -
  let ?nv = "at AND NON_VOLATILE \<noteq> 0"
  let ?b = "nv_budget sv ?nv" and ?u = "store_used (sv_store sv) ?nv"
  have r: "remaining = word_of_nat (?b - ?u)" and m: "mx = word_of_nat ?b"
    using assms(1) by (auto simp: query_def Let_def saturating_sub_def split: if_splits)
  have b: "?b \<le> 0x40000" by (rule nv_budget_le)
  have r': "unat remaining = ?b - ?u" and m': "unat mx = ?b"
    using b unfolding r m by (simp_all add: unsigned_of_nat take_bit_nat_eq_self)
  have "fits sv [v] \<longleftrightarrow> saturating_add ?u (stored_size v) \<le> ?b"
    using assms(2,3) by (cases ?nv) (simp_all add: fits_def saturating_sub_def)
  also have "\<dots> \<longleftrightarrow> ?u + stored_size v \<le> ?b"
    using b by (auto simp: saturating_add_def usize_max_def min_def)
  also have "\<dots> \<longleftrightarrow> stored_size v \<le> unat remaining" using stored_size_pos [of v] r' by linarith
  finally show ?thesis using r' m' by (simp add: word_le_nat_alt)
qed

theorem reported_room_is_accepted_witness:
  "\<exists>mx remaining max_var. query ex_service 7 = Inr (mx, remaining, max_var)
    \<and> (fits ex_service [ex_own_var 1 [42]] \<longleftrightarrow> stored_size (ex_own_var 1 [42]) \<le> unat remaining)"
proof -
  obtain mx remaining max_var where q: "query ex_service 7 = Inr (mx, remaining, max_var)"
    by (simp add: query_def attribute_defs ex_service_fields Let_def)
  have "non_volatile (ex_own_var 1 [42])" by (rule ex_nv) (simp add: ex_own_var_def)
  then have "non_volatile (ex_own_var 1 [42]) = ((7 :: u32) AND NON_VOLATILE \<noteq> 0)" by (simp add: attribute_defs)
  moreover have "store_find (sv_store ex_service) (v_guid (ex_own_var 1 [42])) (v_name (ex_own_var 1 [42])) = None"
    using ex_service_none [of ex_vendor ex_own] by (simp add: ex_own_var_def store_lookup_def)
  ultimately show ?thesis using reported_room_is_accepted [OF q] q by blast
qed

section \<open>Who signed a private variable\<close>

text \<open>C23. The signer records survive their encoding: the records the service keeps read back as they
  were, in order, whatever their number.\<close>

theorem signer_records_round_trip:
  assumes "list_all signer_ok rs"
  shows "read_signer_records (encode_signer_records rs) = rs"
  by (rule read_encode_signer_records [OF assms])

theorem signer_records_round_trip_witness:
  "read_signer_records (encode_signer_records ex_records) = ex_records"
  by (rule signer_records_round_trip [OF ex_records_ok])

end
