(* ===== verification/Tpm_Wire.thy ===== *)
theory Tpm_Wire
  imports Vk_Prelude
begin

text \<open>
  The TPM's wire format: \<^verbatim>\<open>vk-tpm/src/rc.rs\<close> (response codes), \<^verbatim>\<open>vk-tpm/src/marshal.rs\<close> (big-endian
  integers and size-prefixed buffers) and the hash algorithms of \<^verbatim>\<open>vk-tpm/src/alg.rs\<close>. A reader is
  a function of the unread bytes; a writer method is the bytes it appends. The locale \<open>codec\<close> is the
  contract of every structure of the format: the reader accepts exactly what the writer writes.
\<close>

section \<open>Response codes\<close>

datatype rc = Rc u32

definition RC_VER1 :: u32 where "RC_VER1 = 0x100"
definition RC_FMT1 :: u32 where "RC_FMT1 = 0x080"
definition RC_WARN :: u32 where "RC_WARN = 0x900"
definition RC_P :: u32 where "RC_P = 0x040"
definition RC_S :: u32 where "RC_S = 0x800"

definition RC_INITIALIZE :: rc where "RC_INITIALIZE = Rc RC_VER1"
definition RC_FAILURE :: rc where "RC_FAILURE = Rc (RC_VER1 + 0x001)"
definition RC_DISABLED :: rc where "RC_DISABLED = Rc (RC_VER1 + 0x020)"
definition RC_AUTH_TYPE :: rc where "RC_AUTH_TYPE = Rc (RC_VER1 + 0x024)"
definition RC_PCR :: rc where "RC_PCR = Rc (RC_VER1 + 0x027)"
definition RC_NV_RANGE :: rc where "RC_NV_RANGE = Rc (RC_VER1 + 0x046)"
definition RC_NV_LOCKED :: rc where "RC_NV_LOCKED = Rc (RC_VER1 + 0x048)"
definition RC_NV_AUTHORIZATION :: rc where "RC_NV_AUTHORIZATION = Rc (RC_VER1 + 0x049)"
definition RC_NV_UNINITIALIZED :: rc where "RC_NV_UNINITIALIZED = Rc (RC_VER1 + 0x04a)"
definition RC_NV_SPACE :: rc where "RC_NV_SPACE = Rc (RC_VER1 + 0x04b)"
definition RC_NV_DEFINED :: rc where "RC_NV_DEFINED = Rc (RC_VER1 + 0x04c)"
definition RC_ATTRIBUTES :: rc where "RC_ATTRIBUTES = Rc (RC_FMT1 + 0x002)"
definition RC_HASH :: rc where "RC_HASH = Rc (RC_FMT1 + 0x003)"
definition RC_VALUE :: rc where "RC_VALUE = Rc (RC_FMT1 + 0x004)"
definition RC_HIERARCHY :: rc where "RC_HIERARCHY = Rc (RC_FMT1 + 0x005)"
definition RC_TYPE :: rc where "RC_TYPE = Rc (RC_FMT1 + 0x00a)"
definition RC_HANDLE :: rc where "RC_HANDLE = Rc (RC_FMT1 + 0x00b)"
definition RC_AUTH_FAIL :: rc where "RC_AUTH_FAIL = Rc (RC_FMT1 + 0x00e)"
definition RC_SIZE :: rc where "RC_SIZE = Rc (RC_FMT1 + 0x015)"
definition RC_INSUFFICIENT :: rc where "RC_INSUFFICIENT = Rc (RC_FMT1 + 0x01a)"
definition RC_RESERVED_BITS :: rc where "RC_RESERVED_BITS = Rc (RC_FMT1 + 0x021)"
definition RC_LOCALITY :: rc where "RC_LOCALITY = Rc (RC_WARN + 0x007)"
definition RC_LOCKOUT :: rc where "RC_LOCKOUT = Rc (RC_WARN + 0x021)"

named_theorems rc_defs \<open>the values of the response codes\<close>

lemmas rc_values [rc_defs] = RC_VER1_def RC_FMT1_def RC_WARN_def RC_P_def RC_S_def RC_INITIALIZE_def RC_FAILURE_def
  RC_DISABLED_def RC_AUTH_TYPE_def RC_PCR_def RC_NV_RANGE_def RC_NV_LOCKED_def RC_NV_AUTHORIZATION_def
  RC_NV_UNINITIALIZED_def RC_NV_SPACE_def RC_NV_DEFINED_def RC_ATTRIBUTES_def RC_HASH_def RC_VALUE_def
  RC_HIERARCHY_def RC_TYPE_def RC_HANDLE_def RC_AUTH_FAIL_def RC_SIZE_def RC_INSUFFICIENT_def
  RC_RESERVED_BITS_def RC_LOCALITY_def RC_LOCKOUT_def

fun rc_bits :: "rc \<Rightarrow> u32" where
  "rc_bits (Rc w) = w"

definition is_format_one :: "rc \<Rightarrow> bool" where
  "is_format_one c \<longleftrightarrow> rc_bits c AND RC_FMT1 \<noteq> 0"

definition rc_numbered :: "u32 \<Rightarrow> u32 \<Rightarrow> rc \<Rightarrow> rc" where
  "rc_numbered kind n c =
     (let mx = (if kind = RC_P then 15 else 7);
          named = rc_bits c AND (0xf00 OR RC_P) \<noteq> 0 in
      if \<not> is_format_one c \<or> named \<or> n = 0 \<or> n > mx then c
      else Rc (rc_bits c OR kind OR push_bit 8 n))"

definition rc_handle :: "u32 \<Rightarrow> rc \<Rightarrow> rc" where
  "rc_handle n c = rc_numbered 0 n c"

definition rc_param :: "u32 \<Rightarrow> rc \<Rightarrow> rc" where
  "rc_param n c = rc_numbered RC_P n c"

definition rc_session :: "u32 \<Rightarrow> rc \<Rightarrow> rc" where
  "rc_session n c = rc_numbered RC_S n c"

section \<open>Reading and writing\<close>

definition to_be_bytes :: "'a::len word \<Rightarrow> bytes" where
  "to_be_bytes w = rev (to_le_bytes w)"

definition from_be_bytes :: "bytes \<Rightarrow> 'a::len word" where
  "from_be_bytes bs = from_le_bytes (rev bs)"

type_synonym ('e, 'a) rd = "bytes \<Rightarrow> 'e + 'a \<times> bytes"

definition rd_return :: "'a \<Rightarrow> ('e, 'a) rd" where
  "rd_return x r = Inr (x, r)"

definition rd_fail :: "'e \<Rightarrow> ('e, 'a) rd" where
  "rd_fail e r = Inl e"

definition rd_bind :: "('e, 'a) rd \<Rightarrow> ('a \<Rightarrow> ('e, 'b) rd) \<Rightarrow> ('e, 'b) rd" where
  "rd_bind m f r = (case m r of Inl e \<Rightarrow> Inl e | Inr (x, r') \<Rightarrow> f x r')"

text \<open>\<open>read(r).map_err(f)?\<close>.\<close>

definition rd_map_err :: "('e \<Rightarrow> 'f) \<Rightarrow> ('e, 'a) rd \<Rightarrow> ('f, 'a) rd" where
  "rd_map_err f m r = (case m r of Inl e \<Rightarrow> Inl (f e) | Inr y \<Rightarrow> Inr y)"

text \<open>\<open>(0..n).map(|_| read(r)).collect()\<close>.\<close>

primrec rd_times :: "nat \<Rightarrow> ('e, 'a) rd \<Rightarrow> ('e, 'a list) rd" where
  "rd_times 0 m = rd_return []"
| "rd_times (Suc n) m = rd_bind m (\<lambda>x. rd_bind (rd_times n m) (\<lambda>xs. rd_return (x # xs)))"

definition rd_bytes :: "nat \<Rightarrow> (rc, bytes) rd" where
  "rd_bytes n r = (if n \<le> length r then Inr (take n r, drop n r) else Inl RC_INSUFFICIENT)"

definition rd_u8 :: "(rc, u8) rd" where
  "rd_u8 = rd_bind (rd_bytes 1) (\<lambda>b. rd_return (hd b))"

definition rd_u16 :: "(rc, u16) rd" where
  "rd_u16 = rd_bind (rd_bytes 2) (\<lambda>b. rd_return (from_be_bytes b))"

definition rd_u32 :: "(rc, u32) rd" where
  "rd_u32 = rd_bind (rd_bytes 4) (\<lambda>b. rd_return (from_be_bytes b))"

definition rd_u64 :: "(rc, u64) rd" where
  "rd_u64 = rd_bind (rd_bytes 8) (\<lambda>b. rd_return (from_be_bytes b))"

definition rd_tpm2b :: "nat \<Rightarrow> (rc, bytes) rd" where
  "rd_tpm2b mx = rd_bind rd_u16 (\<lambda>s. if unat s > mx then rd_fail RC_SIZE else rd_bytes (unat s))"

definition rd_count :: "nat \<Rightarrow> (rc, nat) rd" where
  "rd_count mx = rd_bind rd_u32 (\<lambda>c. if unat c > mx then rd_fail RC_SIZE else rd_return (unat c))"

text \<open>\<open>Writer::tpm2b\<close> and \<open>Writer::count\<close>; a length past the prefix's width is written as the largest.\<close>

definition put_tpm2b :: "bytes \<Rightarrow> bytes" where
  "put_tpm2b d = to_be_bytes (case u16_try_from (length d) of None \<Rightarrow> 0xffff | Some w \<Rightarrow> w) @ d"

definition put_count :: "nat \<Rightarrow> bytes" where
  "put_count n = to_be_bytes (case u32_try_from n of None \<Rightarrow> 0xffffffff | Some w \<Rightarrow> w)"

text \<open>\<open>commands::end\<close>: no bytes may be left once a command has read its own.\<close>

definition rd_end :: "'a \<Rightarrow> (rc, 'a) rd" where
  "rd_end x r = (if r = [] then Inr (x, r) else Inl RC_SIZE)"

section \<open>Hash algorithms\<close>

datatype hash = Sha1 | Sha256 | Sha384 | Sha512

definition HASH_ALL :: "hash list" where
  "HASH_ALL = [Sha1, Sha256, Sha384, Sha512]"

definition TPM_ALG_NULL :: u16 where "TPM_ALG_NULL = 0x0010"
definition MAX_DIGEST :: nat where "MAX_DIGEST = 64"

fun hash_id :: "hash \<Rightarrow> u16" where
  "hash_id Sha1 = 0x0004"
| "hash_id Sha256 = 0x000b"
| "hash_id Sha384 = 0x000c"
| "hash_id Sha512 = 0x000d"

definition hash_from_id :: "u16 \<Rightarrow> hash option" where
  "hash_from_id i = find (\<lambda>h. hash_id h = i) HASH_ALL"

definition hash_read :: "(rc, hash) rd" where
  "hash_read = rd_bind rd_u16 (\<lambda>i. case hash_from_id i of None \<Rightarrow> rd_fail RC_HASH | Some h \<Rightarrow> rd_return h)"

definition hash_read_or_null :: "(rc, hash option) rd" where
  "hash_read_or_null = rd_bind rd_u16 (\<lambda>i.
     if i = TPM_ALG_NULL then rd_return None
     else case hash_from_id i of None \<Rightarrow> rd_fail RC_HASH | Some h \<Rightarrow> rd_return (Some h))"

fun hash_size :: "hash \<Rightarrow> nat" where
  "hash_size Sha1 = 20"
| "hash_size Sha256 = 32"
| "hash_size Sha384 = 48"
| "hash_size Sha512 = 64"

text \<open>The digest functions are those of the \<^verbatim>\<open>sha1\<close> and \<^verbatim>\<open>sha2\<close> packages: a parameter \<open>D\<close> of the model,
  of which it relies on the digest's length. A \<open>Hasher\<close> fed in parts digests their concatenation.\<close>

type_synonym digest_fun = "hash \<Rightarrow> bytes \<Rightarrow> bytes"

definition digest_ok :: "digest_fun \<Rightarrow> bool" where
  "digest_ok D \<longleftrightarrow> (\<forall>h b. length (D h b) = hash_size h)"

definition hash_digest :: "digest_fun \<Rightarrow> hash \<Rightarrow> bytes list \<Rightarrow> bytes" where
  "hash_digest D h parts = D h (concat parts)"

lemma find_SomeD: "find P xs = Some x \<Longrightarrow> x \<in> set xs \<and> P x"
  by (auto simp: find_Some_iff)

section \<open>Readers are the inverses of writers\<close>

lemma rd_return_iff [simp]: "rd_return x b = Inr (y, r) \<longleftrightarrow> y = x \<and> r = b"
  by (auto simp: rd_return_def)

lemma rd_fail_iff [simp]: "rd_fail e b \<noteq> Inr y"
  by (simp add: rd_fail_def)

lemma rd_bind_iff [simp]:
  "rd_bind m f b = Inr y \<longleftrightarrow> (\<exists>x r. m b = Inr (x, r) \<and> f x r = Inr y)"
  by (auto simp: rd_bind_def split: sum.splits prod.splits)

lemma rd_guard_iff [simp]:
  "(if c then rd_fail e else m) b = Inr y \<longleftrightarrow> \<not> c \<and> m b = Inr y"
  "(if c then m else rd_fail e) b = Inr y \<longleftrightarrow> c \<and> m b = Inr y"
  by auto

lemma rd_map_err_iff [simp]: "rd_map_err f m b = Inr y \<longleftrightarrow> m b = Inr y"
  by (simp add: rd_map_err_def split: sum.splits)

lemma rd_bytes_iff [simp]: "rd_bytes n b = Inr (x, r) \<longleftrightarrow> b = x @ r \<and> length x = n"
  by (auto simp: rd_bytes_def)

lemma rd_end_iff [simp]: "rd_end x b = Inr (y, r) \<longleftrightarrow> y = x \<and> r = [] \<and> b = []"
  by (auto simp: rd_end_def)

lemma length_to_be_bytes [simp]:
  "length (to_be_bytes (a :: u16)) = 2" "length (to_be_bytes (b :: u32)) = 4"
  "length (to_be_bytes (c :: u64)) = 8"
  by (simp_all add: to_be_bytes_def)

lemma from_to_be_bytes [simp]:
  "from_be_bytes (to_be_bytes a) = (a :: u16)" "from_be_bytes (to_be_bytes b) = (b :: u32)"
  "from_be_bytes (to_be_bytes c) = (c :: u64)"
  by (simp_all add: to_be_bytes_def from_be_bytes_def)

lemma to_from_be_bytes [simp]:
  "length x = 2 \<Longrightarrow> to_be_bytes (from_be_bytes x :: u16) = x"
  "length x = 4 \<Longrightarrow> to_be_bytes (from_be_bytes x :: u32) = x"
  "length x = 8 \<Longrightarrow> to_be_bytes (from_be_bytes x :: u64) = x"
  by (simp_all add: to_be_bytes_def from_be_bytes_def to_from_le_bytes)

lemma to_be_bytes_inj [simp]:
  "to_be_bytes a = to_be_bytes a' \<longleftrightarrow> a = (a' :: u16)"
  "to_be_bytes b = to_be_bytes b' \<longleftrightarrow> b = (b' :: u32)"
  "to_be_bytes c = to_be_bytes c' \<longleftrightarrow> c = (c' :: u64)"
  by (metis from_to_be_bytes)+

lemma to_be_bytes_append [simp]:
  "to_be_bytes a @ r = to_be_bytes a' @ r' \<longleftrightarrow> a = (a' :: u16) \<and> r = r'"
  "to_be_bytes b @ r = to_be_bytes b' @ r' \<longleftrightarrow> b = (b' :: u32) \<and> r = r'"
  "to_be_bytes c @ r = to_be_bytes c' @ r' \<longleftrightarrow> c = (c' :: u64) \<and> r = r'"
  by (simp_all add: append_eq_append_conv)

lemma rd_u8_iff [simp]: "rd_u8 b = Inr (x, r) \<longleftrightarrow> b = x # r"
  by (auto simp: rd_u8_def length_Suc_conv)

lemma rd_u16_iff [simp]: "rd_u16 b = Inr (x, r) \<longleftrightarrow> b = to_be_bytes x @ r"
  by (auto simp: rd_u16_def)

lemma rd_u32_iff [simp]: "rd_u32 b = Inr (x, r) \<longleftrightarrow> b = to_be_bytes x @ r"
  by (auto simp: rd_u32_def)

lemma rd_u64_iff [simp]: "rd_u64 b = Inr (x, r) \<longleftrightarrow> b = to_be_bytes x @ r"
  by (auto simp: rd_u64_def)

lemma rd_put [simp]:
  "rd_u16 (to_be_bytes a @ r) = Inr (a, r)" "rd_u32 (to_be_bytes b @ r) = Inr (b, r)"
  "rd_u64 (to_be_bytes c @ r) = Inr (c, r)" "rd_u8 (d # r) = Inr (d, r)"
  by simp_all

lemma put_tpm2b_short: "length d < 65536 \<Longrightarrow> put_tpm2b d = to_be_bytes (word_of_nat (length d) :: u16) @ d"
  by (simp add: put_tpm2b_def u16_try_from_def)

lemma put_count_small: "n < 4294967296 \<Longrightarrow> put_count n = to_be_bytes (word_of_nat n :: u32)"
  by (simp add: put_count_def u32_try_from_def)

lemma rd_tpm2b_iff [simp]:
  "rd_tpm2b mx b = Inr (d, r) \<longleftrightarrow> b = put_tpm2b d @ r \<and> length d \<le> mx \<and> length d < 65536"
proof
  assume "rd_tpm2b mx b = Inr (d, r)"
  then obtain s where "b = to_be_bytes (s :: u16) @ d @ r" "length d = unat s" "unat s \<le> mx"
    by (auto simp: rd_tpm2b_def split: if_splits)
  then show "b = put_tpm2b d @ r \<and> length d \<le> mx \<and> length d < 65536"
    using unat_lt_u16 [of s] by (simp add: put_tpm2b_short)
next
  assume a: "b = put_tpm2b d @ r \<and> length d \<le> mx \<and> length d < 65536"
  then have "unat (word_of_nat (length d) :: u16) = length d" by (simp add: unat_u16_of_nat)
  with a show "rd_tpm2b mx b = Inr (d, r)"
    by (auto simp: rd_tpm2b_def put_tpm2b_short intro!: exI [of _ "word_of_nat (length d)"])
qed

lemma rd_count_iff [simp]:
  "rd_count mx b = Inr (n, r) \<longleftrightarrow> b = put_count n @ r \<and> n \<le> mx \<and> n < 4294967296"
proof
  assume "rd_count mx b = Inr (n, r)"
  then obtain c where "b = to_be_bytes (c :: u32) @ r" "n = unat c" "unat c \<le> mx"
    by (auto simp: rd_count_def split: if_splits)
  then show "b = put_count n @ r \<and> n \<le> mx \<and> n < 4294967296"
    using unat_lt_u32 [of c] by (simp add: put_count_small)
next
  assume a: "b = put_count n @ r \<and> n \<le> mx \<and> n < 4294967296"
  then have "unat (word_of_nat n :: u32) = n" by (simp add: unat_u32_of_nat)
  with a show "rd_count mx b = Inr (n, r)"
    by (auto simp: rd_count_def put_count_small intro!: exI [of _ "word_of_nat n"])
qed

lemma hash_from_id_iff [simp]: "hash_from_id i = Some h \<longleftrightarrow> i = hash_id h"
  by (cases h) (auto simp: hash_from_id_def HASH_ALL_def split: if_splits)

lemma hash_id_inj [simp]: "hash_id g = hash_id h \<longleftrightarrow> g = h"
  by (cases g; cases h) simp_all

lemma hash_from_id_id [simp]: "hash_from_id (hash_id h) = Some h"
  by simp

lemma hash_read_iff [simp]: "hash_read b = Inr (h, r) \<longleftrightarrow> b = to_be_bytes (hash_id h) @ r"
  by (auto simp: hash_read_def intro: exI [of _ "hash_id h"] split: option.splits)

lemma hash_id_not_null [simp]: "hash_id h \<noteq> TPM_ALG_NULL"
  by (cases h) (simp_all add: TPM_ALG_NULL_def)

definition put_hash_or_null :: "hash option \<Rightarrow> bytes" where
  "put_hash_or_null h = to_be_bytes (case h of None \<Rightarrow> TPM_ALG_NULL | Some h \<Rightarrow> hash_id h)"

lemma hash_read_or_null_iff [simp]:
  "hash_read_or_null b = Inr (h, r) \<longleftrightarrow> b = put_hash_or_null h @ r"
proof
  assume "hash_read_or_null b = Inr (h, r)"
  then show "b = put_hash_or_null h @ r"
    by (auto simp: hash_read_or_null_def put_hash_or_null_def split: option.splits if_splits)
next
  assume "b = put_hash_or_null h @ r"
  then show "hash_read_or_null b = Inr (h, r)"
    unfolding hash_read_or_null_def rd_bind_def put_hash_or_null_def by (cases h) simp_all
qed

lemma hash_size_le: "hash_size h \<le> MAX_DIGEST"
  by (cases h) (simp_all add: MAX_DIGEST_def)

lemma hash_in_all [simp]: "h \<in> set HASH_ALL"
  by (cases h) (simp_all add: HASH_ALL_def)

lemma length_hash_digest: "digest_ok D \<Longrightarrow> length (hash_digest D h ps) = hash_size h"
  by (simp add: digest_ok_def hash_digest_def)

section \<open>The contract of a structure of the format\<close>

locale codec =
  fixes put :: "'a \<Rightarrow> bytes" and get :: "('e, 'a) rd" and ok :: "'a \<Rightarrow> bool"
  assumes get_iff: "get b = Inr (x, r) \<longleftrightarrow> b = put x @ r \<and> ok x"
begin

lemma get_put: "ok x \<Longrightarrow> get (put x @ r) = Inr (x, r)"
  by (simp add: get_iff)

text \<open>No encoding is a prefix of another.\<close>

lemma put_prefix_free: "ok x \<Longrightarrow> ok y \<Longrightarrow> put x @ r = put y @ s \<Longrightarrow> x = y \<and> r = s"
  by (metis get_put Pair_inject sum.inject(2))

lemma times_iff:
  "rd_times n get b = Inr (xs, r) \<longleftrightarrow> b = concat (map put xs) @ r \<and> length xs = n \<and> list_all ok xs"
proof (induction n arbitrary: b xs)
  case 0
  then show ?case by auto
next
  case (Suc n)
  have "rd_times (Suc n) get b = Inr (xs, r) \<longleftrightarrow>
      (\<exists>x r'. get b = Inr (x, r') \<and> (\<exists>ys. rd_times n get r' = Inr (ys, r) \<and> xs = x # ys))"
    by simp
  also have "\<dots> \<longleftrightarrow> b = concat (map put xs) @ r \<and> length xs = Suc n \<and> list_all ok xs"
    unfolding get_iff Suc.IH by (cases xs) auto
  finally show ?case .
qed

end

text \<open>A list is its count and its elements.\<close>

definition put_list :: "('a \<Rightarrow> bytes) \<Rightarrow> 'a list \<Rightarrow> bytes" where
  "put_list put xs = put_count (length xs) @ concat (map put xs)"

end
