(* ===== verification/Tpm_Nv_Types.thy ===== *)
theory Tpm_Nv_Types
  imports Tpm_Wire
begin

text \<open>
  The data of \<^verbatim>\<open>vk-tpm/src/nv.rs\<close>: the public area of an NV index, the index as the permanent state
  keeps it, the RAM copy of an orderly index, and their encodings. \<open>nv_list_ok\<close> is what a stored
  list of indices satisfies; \<open>check_orderly\<close> is what a snapshot's RAM copies must satisfy.
\<close>

section \<open>Attributes\<close>

definition NV_INDEX_FIRST :: u32 where "NV_INDEX_FIRST = 0x01000000"
definition NV_INDEX_LAST :: u32 where "NV_INDEX_LAST = 0x01ffffff"
definition MAX_NV_INDEX_SIZE :: nat where "MAX_NV_INDEX_SIZE = 2048"
definition MAX_NV_BUFFER_SIZE :: nat where "MAX_NV_BUFFER_SIZE = 1024"
definition RAM_INDEX_SPACE :: nat where "RAM_INDEX_SPACE = 512"
definition RAM_HEADER :: nat where "RAM_HEADER = 12"
definition MAX_ORDERLY_COUNT :: u64 where "MAX_ORDERLY_COUNT = push_bit 8 1 - 1"
definition NV_INDEX_SPACE :: nat where "NV_INDEX_SPACE = 64 * 1024"
definition INDEX_COST :: nat where "INDEX_COST = 160"

definition PPWRITE :: u32 where "PPWRITE = push_bit 0 1"
definition OWNERWRITE :: u32 where "OWNERWRITE = push_bit 1 1"
definition AUTHWRITE :: u32 where "AUTHWRITE = push_bit 2 1"
definition POLICYWRITE :: u32 where "POLICYWRITE = push_bit 3 1"
definition TPM_NT_SHIFT :: nat where "TPM_NT_SHIFT = 4"
definition TPM_NT :: u32 where "TPM_NT = push_bit TPM_NT_SHIFT 0xf"
definition POLICY_DELETE :: u32 where "POLICY_DELETE = push_bit 10 1"
definition WRITELOCKED :: u32 where "WRITELOCKED = push_bit 11 1"
definition WRITEALL :: u32 where "WRITEALL = push_bit 12 1"
definition WRITEDEFINE :: u32 where "WRITEDEFINE = push_bit 13 1"
definition WRITE_STCLEAR :: u32 where "WRITE_STCLEAR = push_bit 14 1"
definition GLOBALLOCK :: u32 where "GLOBALLOCK = push_bit 15 1"
definition PPREAD :: u32 where "PPREAD = push_bit 16 1"
definition OWNERREAD :: u32 where "OWNERREAD = push_bit 17 1"
definition AUTHREAD :: u32 where "AUTHREAD = push_bit 18 1"
definition POLICYREAD :: u32 where "POLICYREAD = push_bit 19 1"
definition NO_DA :: u32 where "NO_DA = push_bit 25 1"
definition ORDERLY :: u32 where "ORDERLY = push_bit 26 1"
definition CLEAR_STCLEAR :: u32 where "CLEAR_STCLEAR = push_bit 27 1"
definition READLOCKED :: u32 where "READLOCKED = push_bit 28 1"
definition WRITTEN :: u32 where "WRITTEN = push_bit 29 1"
definition PLATFORMCREATE :: u32 where "PLATFORMCREATE = push_bit 30 1"
definition READ_STCLEAR :: u32 where "READ_STCLEAR = push_bit 31 1"
definition NV_RESERVED :: u32 where "NV_RESERVED = 0x00000300 OR 0x01f00000"

named_theorems nv_attr_defs \<open>the values of the index attributes\<close>

lemmas nv_attr_values [nv_attr_defs] = PPWRITE_def OWNERWRITE_def AUTHWRITE_def POLICYWRITE_def
  TPM_NT_SHIFT_def TPM_NT_def POLICY_DELETE_def WRITELOCKED_def WRITEALL_def WRITEDEFINE_def
  WRITE_STCLEAR_def GLOBALLOCK_def PPREAD_def OWNERREAD_def AUTHREAD_def POLICYREAD_def NO_DA_def
  ORDERLY_def CLEAR_STCLEAR_def READLOCKED_def WRITTEN_def PLATFORMCREATE_def READ_STCLEAR_def
  NV_RESERVED_def

datatype nv_kind = Ordinary | Counter | Bits | Extend | PinFail | PinPass

definition kind_of :: "u32 \<Rightarrow> nv_kind option" where
  "kind_of a =
     (let t = drop_bit TPM_NT_SHIFT (a AND TPM_NT) in
      if t = 0x0 then Some Ordinary else if t = 0x1 then Some Counter else if t = 0x2 then Some Bits
      else if t = 0x4 then Some Extend else if t = 0x8 then Some PinFail else if t = 0x9 then Some PinPass
      else None)"

fun is_pin :: "nv_kind \<Rightarrow> bool" where
  "is_pin PinFail = True"
| "is_pin PinPass = True"
| "is_pin _ = False"

section \<open>The public area\<close>

record nv_public =
  np_index :: u32
  np_name_alg :: hash
  np_attributes :: u32
  np_auth_policy :: bytes
  np_data_size :: u16

definition is_nv_index :: "u32 \<Rightarrow> bool" where
  "is_nv_index h \<longleftrightarrow> NV_INDEX_FIRST \<le> h \<and> h \<le> NV_INDEX_LAST"

definition read_index :: "(rc, u32) rd" where
  "read_index = rd_bind rd_u32 (\<lambda>h. if is_nv_index h then rd_return h else rd_fail RC_VALUE)"

definition nv_public_read :: "(rc, nv_public) rd" where
  "nv_public_read =
     rd_bind read_index (\<lambda>index.
     rd_bind hash_read (\<lambda>name_alg.
     rd_bind rd_u32 (\<lambda>attributes.
     if attributes AND NV_RESERVED \<noteq> 0 then rd_fail RC_RESERVED_BITS
     else rd_bind (rd_tpm2b MAX_DIGEST) (\<lambda>auth_policy.
     rd_bind rd_u16 (\<lambda>data_size.
     if unat data_size > MAX_NV_INDEX_SIZE then rd_fail RC_SIZE
     else rd_return \<lparr>np_index = index, np_name_alg = name_alg, np_attributes = attributes,
            np_auth_policy = auth_policy, np_data_size = data_size\<rparr>)))))"

definition nv_public_read_sized :: "(rc, nv_public) rd" where
  "nv_public_read_sized = rd_bind rd_u16 (\<lambda>sz.
     if sz = 0 then rd_fail RC_SIZE
     else (\<lambda>r. case nv_public_read r of
         Inl e \<Rightarrow> Inl e
       | Inr (p, r') \<Rightarrow> if saturating_sub (length r) (length r') \<noteq> unat sz then Inl RC_SIZE else Inr (p, r')))"

definition nv_public_write :: "nv_public \<Rightarrow> bytes" where
  "nv_public_write p = to_be_bytes (np_index p) @ to_be_bytes (hash_id (np_name_alg p))
     @ to_be_bytes (np_attributes p) @ put_tpm2b (np_auth_policy p) @ to_be_bytes (np_data_size p)"

definition nv_name :: "digest_fun \<Rightarrow> nv_public \<Rightarrow> bytes" where
  "nv_name D p = to_be_bytes (hash_id (np_name_alg p)) @ hash_digest D (np_name_alg p) [nv_public_write p]"

definition np_has :: "nv_public \<Rightarrow> u32 \<Rightarrow> bool" where
  "np_has p a \<longleftrightarrow> np_attributes p AND a \<noteq> 0"

definition np_kind :: "nv_public \<Rightarrow> nv_kind option" where
  "np_kind p = kind_of (np_attributes p)"

definition np_size :: "nv_public \<Rightarrow> nat" where
  "np_size p = unat (np_data_size p)"

definition size_fits :: "nv_public \<Rightarrow> bool" where
  "size_fits p =
     (case np_kind p of
        None \<Rightarrow> False
      | Some Ordinary \<Rightarrow> np_size p \<le> MAX_NV_INDEX_SIZE
      | Some Extend \<Rightarrow> np_size p = hash_size (np_name_alg p)
      | Some _ \<Rightarrow> np_size p = 8)"

section \<open>Indices and their RAM copies\<close>

datatype state_error = StateError string

text \<open>\<open>From<Rc> for StateError\<close>.\<close>

definition rd_state :: "(rc, 'a) rd \<Rightarrow> (state_error, 'a) rd" where
  "rd_state = rd_map_err (\<lambda>_. StateError ''truncated or malformed'')"

record nv_index =
  ni_public :: nv_public
  ni_auth :: bytes
  ni_data :: bytes

abbreviation ni_index :: "nv_index \<Rightarrow> u32" where
  "ni_index i \<equiv> np_index (ni_public i)"

definition nv_index_write :: "nv_index \<Rightarrow> bytes" where
  "nv_index_write i = nv_public_write (ni_public i) @ put_tpm2b (ni_auth i) @ put_tpm2b (ni_data i)"

definition nv_index_read :: "(state_error, nv_index) rd" where
  "nv_index_read =
     rd_bind (rd_state nv_public_read) (\<lambda>public.
     rd_bind (rd_state (rd_tpm2b MAX_DIGEST)) (\<lambda>auth.
     rd_bind (rd_state (rd_tpm2b MAX_NV_INDEX_SIZE)) (\<lambda>data.
     if length data \<noteq> np_size public \<or> \<not> size_fits public then rd_fail (StateError ''bad NV index'')
     else rd_return \<lparr>ni_public = public, ni_auth = auth, ni_data = data\<rparr>)))"

definition ni_cost :: "nv_index \<Rightarrow> nat" where
  "ni_cost i = (if np_has (ni_public i) ORDERLY then INDEX_COST
     else saturating_add INDEX_COST (length (ni_data i)))"

record orderly_ram =
  or_index :: u32
  or_attributes :: u32
  or_data :: bytes

definition orderly_write :: "orderly_ram \<Rightarrow> bytes" where
  "orderly_write o' = to_be_bytes (or_index o') @ to_be_bytes (or_attributes o') @ put_tpm2b (or_data o')"

definition orderly_read :: "(state_error, orderly_ram) rd" where
  "orderly_read =
     rd_bind (rd_state rd_u32) (\<lambda>index.
     rd_bind (rd_state rd_u32) (\<lambda>attributes.
     rd_bind (rd_state (rd_tpm2b MAX_NV_INDEX_SIZE)) (\<lambda>data.
     rd_return \<lparr>or_index = index, or_attributes = attributes, or_data = data\<rparr>)))"

definition orderly_read_list :: "(state_error, orderly_ram list) rd" where
  "orderly_read_list =
     rd_bind (rd_state (rd_count (RAM_INDEX_SPACE div RAM_HEADER))) (\<lambda>n. rd_times n orderly_read)"

definition orderly_write_list :: "orderly_ram list \<Rightarrow> bytes" where
  "orderly_write_list os = put_count (length os) @ concat (map orderly_write os)"

definition orderly_images :: "nv_index list \<Rightarrow> orderly_ram list" where
  "orderly_images is =
     map (\<lambda>i. \<lparr>or_index = ni_index i, or_attributes = np_attributes (ni_public i), or_data = ni_data i\<rparr>)
       (filter (\<lambda>i. np_has (ni_public i) ORDERLY) is)"

definition nv_used :: "nv_index list \<Rightarrow> nat" where
  "nv_used is = sum_list (map ni_cost is)"

definition ram_used :: "nv_index list \<Rightarrow> nat" where
  "ram_used is = sum_list (map (\<lambda>i. saturating_add RAM_HEADER (length (ni_data i)))
     (filter (\<lambda>i. np_has (ni_public i) ORDERLY) is))"

definition write_nv :: "nv_index list \<Rightarrow> u64 \<Rightarrow> bytes" where
  "write_nv is max_counter = put_count (length is) @ concat (map nv_index_write is) @ to_be_bytes max_counter"

text \<open>The loop of \<open>read_nv\<close>, with the indices read so far.\<close>

primrec read_indices :: "nat \<Rightarrow> nv_index list \<Rightarrow> (state_error, nv_index list) rd" where
  "read_indices 0 acc = rd_return acc"
| "read_indices (Suc n) acc = rd_bind nv_index_read (\<lambda>i.
     if acc \<noteq> [] \<and> ni_index (last acc) \<ge> ni_index i then rd_fail (StateError ''NV indices out of order'')
     else read_indices n (acc @ [i]))"

definition read_nv :: "(state_error, nv_index list \<times> u64) rd" where
  "read_nv =
     rd_bind (rd_state (rd_count (NV_INDEX_SPACE div INDEX_COST))) (\<lambda>n.
     rd_bind (read_indices n []) (\<lambda>is.
     if nv_used is > NV_INDEX_SPACE \<or> ram_used is > RAM_INDEX_SPACE
     then rd_fail (StateError ''NV indices over their memory'')
     else rd_bind (rd_state rd_u64) (\<lambda>mx. rd_return (is, mx))))"

definition CHANGING :: u32 where "CHANGING = WRITTEN OR WRITELOCKED OR READLOCKED"

definition is_copy :: "nv_index list \<Rightarrow> orderly_ram \<Rightarrow> bool" where
  "is_copy is o' = list_ex (\<lambda>i. ni_index i = or_index o' \<and> np_has (ni_public i) ORDERLY
     \<and> (np_attributes (ni_public i) XOR or_attributes o') AND NOT CHANGING = 0
     \<and> length (or_data o') = np_size (ni_public i)) is"

definition check_orderly :: "nv_index list \<Rightarrow> orderly_ram list \<Rightarrow> state_error + unit" where
  "check_orderly is ram =
     (let unique = list_all (\<lambda>(n, o'). list_all (\<lambda>earlier. or_index earlier \<noteq> or_index o') (take n ram)) (enumerate 0 ram);
          orderly = length (filter (\<lambda>i. np_has (ni_public i) ORDERLY) is) in
      if length ram = orderly \<and> unique \<and> list_all (is_copy is) ram then Inr ()
      else Inl (StateError ''bad orderly NV RAM''))"

definition erased_byte :: "bool \<Rightarrow> u8" where
  "erased_byte orderly = (if orderly then 0 else 0xff)"

definition pin_word :: "bytes \<Rightarrow> nat \<Rightarrow> u32" where
  "pin_word d i = (case slice_get d i (i + 4) of None \<Rightarrow> 0 | Some b \<Rightarrow> from_be_bytes b)"

definition pin :: "bytes \<Rightarrow> u32 \<times> u32" where
  "pin d = (pin_word d 0, pin_word d 4)"

section \<open>Encodings\<close>

lemma rd_state_iff [simp]: "rd_state m b = Inr y \<longleftrightarrow> m b = Inr y"
  by (simp add: rd_state_def)

definition nv_public_ok :: "nv_public \<Rightarrow> bool" where
  "nv_public_ok p \<longleftrightarrow> is_nv_index (np_index p) \<and> np_attributes p AND NV_RESERVED = 0
     \<and> length (np_auth_policy p) \<le> MAX_DIGEST \<and> np_size p \<le> MAX_NV_INDEX_SIZE"

interpretation nv_public: codec nv_public_write nv_public_read nv_public_ok
proof unfold_locales
  fix b p r
  show "nv_public_read b = Inr (p, r) \<longleftrightarrow> b = nv_public_write p @ r \<and> nv_public_ok p"
    by (cases p) (auto simp: nv_public_read_def nv_public_write_def nv_public_ok_def read_index_def np_size_def
        MAX_DIGEST_def not_less)
qed

definition nv_index_ok :: "nv_index \<Rightarrow> bool" where
  "nv_index_ok i \<longleftrightarrow> nv_public_ok (ni_public i) \<and> length (ni_auth i) \<le> MAX_DIGEST
     \<and> length (ni_data i) = np_size (ni_public i) \<and> size_fits (ni_public i)"

interpretation nv_index: codec nv_index_write nv_index_read nv_index_ok
proof unfold_locales
  fix b i r
  have "nv_public_ok p \<Longrightarrow> np_size p \<le> MAX_NV_INDEX_SIZE \<and> np_size p < 65536" for p
    by (auto simp: nv_public_ok_def MAX_NV_INDEX_SIZE_def)
  then show "nv_index_read b = Inr (i, r) \<longleftrightarrow> b = nv_index_write i @ r \<and> nv_index_ok i"
    by (cases i) (auto simp: nv_index_read_def nv_index_write_def nv_index_ok_def nv_public.get_iff MAX_DIGEST_def)
qed

interpretation orderly: codec orderly_write orderly_read "\<lambda>o'. length (or_data o') \<le> MAX_NV_INDEX_SIZE"
proof unfold_locales
  fix b o' r
  have "n \<le> MAX_NV_INDEX_SIZE \<Longrightarrow> n < 65536" for n by (simp add: MAX_NV_INDEX_SIZE_def)
  then show "orderly_read b = Inr (o', r) \<longleftrightarrow> b = orderly_write o' @ r \<and> length (or_data o') \<le> MAX_NV_INDEX_SIZE"
    by (cases o') (auto simp: orderly_read_def orderly_write_def)
qed

interpretation orderly_list: codec orderly_write_list orderly_read_list
  "\<lambda>os. length os \<le> RAM_INDEX_SPACE div RAM_HEADER \<and> list_all (\<lambda>o'. length (or_data o') \<le> MAX_NV_INDEX_SIZE) os"
proof unfold_locales
  fix b and os :: "orderly_ram list" and r
  have "length os \<le> RAM_INDEX_SPACE div RAM_HEADER \<Longrightarrow> length os < 4294967296"
    by (simp add: RAM_INDEX_SPACE_def RAM_HEADER_def)
  then show "orderly_read_list b = Inr (os, r) \<longleftrightarrow> b = orderly_write_list os @ r
      \<and> length os \<le> RAM_INDEX_SPACE div RAM_HEADER \<and> list_all (\<lambda>o'. length (or_data o') \<le> MAX_NV_INDEX_SIZE) os"
    by (auto simp: orderly_read_list_def orderly_write_list_def orderly.times_iff)
qed

lemma read_indices_iff:
  "read_indices n acc b = Inr (xs, r) \<longleftrightarrow>
     (\<exists>ys. xs = acc @ ys \<and> b = concat (map nv_index_write ys) @ r \<and> length ys = n \<and> list_all nv_index_ok ys
        \<and> sorted_wrt (<) (map ni_index ((if acc = [] then [] else [last acc]) @ ys)))"
proof (induction n arbitrary: acc b)
  case 0
  then show ?case by auto
next
  case (Suc n)
  let ?s = "\<lambda>ys. sorted_wrt (<) (map ni_index ((if acc = [] then [] else [last acc]) @ ys))"
  have step: "?s (y # ys) \<longleftrightarrow> (acc \<noteq> [] \<longrightarrow> ni_index (last acc) < ni_index y) \<and> sorted_wrt (<) (map ni_index (y # ys))" for y ys
    by auto
  have "read_indices (Suc n) acc b = Inr (xs, r) \<longleftrightarrow>
      (\<exists>y r'. b = nv_index_write y @ r' \<and> nv_index_ok y \<and> (acc \<noteq> [] \<longrightarrow> ni_index (last acc) < ni_index y)
        \<and> read_indices n (acc @ [y]) r' = Inr (xs, r))"
    by (simp add: nv_index.get_iff not_le) blast
  also have "\<dots> \<longleftrightarrow> (\<exists>y ys. xs = acc @ y # ys \<and> b = concat (map nv_index_write (y # ys)) @ r \<and> length ys = n
        \<and> list_all nv_index_ok (y # ys) \<and> ?s (y # ys))"
    unfolding Suc.IH step by fastforce
  also have "\<dots> \<longleftrightarrow> (\<exists>ys. xs = acc @ ys \<and> b = concat (map nv_index_write ys) @ r \<and> length ys = Suc n
        \<and> list_all nv_index_ok ys \<and> ?s ys)"
    unfolding length_Suc_conv by blast
  finally show ?case .
qed

definition nv_list_ok :: "nv_index list \<Rightarrow> bool" where
  "nv_list_ok is \<longleftrightarrow> sorted_wrt (<) (map ni_index is) \<and> list_all nv_index_ok is
     \<and> nv_used is \<le> NV_INDEX_SPACE \<and> ram_used is \<le> RAM_INDEX_SPACE"

text \<open>The count never has to be checked apart: each index costs at least \<open>INDEX_COST\<close>.\<close>

lemma nv_used_count: "length is * INDEX_COST \<le> nv_used is"
proof (induction "is")
  case (Cons i "is")
  have "INDEX_COST \<le> ni_cost i" by (simp add: ni_cost_def saturating_add_def INDEX_COST_def usize_max_def)
  with Cons show ?case by (simp add: nv_used_def)
qed simp

lemma nv_list_count: "nv_list_ok is \<Longrightarrow> length is \<le> NV_INDEX_SPACE div INDEX_COST"
  using nv_used_count [of "is"] by (simp add: nv_list_ok_def NV_INDEX_SPACE_def INDEX_COST_def)

interpretation nv: codec "\<lambda>(is, mx). write_nv is mx" read_nv "\<lambda>(is, mx). nv_list_ok is"
proof unfold_locales
  fix b x r
  obtain "is" :: "nv_index list" and mx :: u64 where x: "x = (is, mx)" by force
  have n: "length is \<le> NV_INDEX_SPACE div INDEX_COST \<Longrightarrow> length is < 4294967296"
    by (simp add: NV_INDEX_SPACE_def INDEX_COST_def)
  show "read_nv b = Inr (x, r) \<longleftrightarrow> b = (case x of (is, mx) \<Rightarrow> write_nv is mx) @ r \<and> (case x of (is, mx) \<Rightarrow> nv_list_ok is)"
    using nv_list_count [of "is"] n unfolding x
    by (auto simp: read_nv_def write_nv_def read_indices_iff nv_list_ok_def not_less)
qed

end
