(* ===== verification/Tpm_Hier_Types.thy ===== *)
theory Tpm_Hier_Types
  imports Tpm_Nv_Types
begin

text \<open>
  The data of \<^verbatim>\<open>vk-tpm/src/hierarchy.rs\<close>: authorization policies, the permanent and the volatile part
  of the hierarchies, the dictionary-attack parameters, and their encodings.
\<close>

definition SEED_SIZE :: nat where "SEED_SIZE = 64"

text \<open>A seed is \<open>SEED_SIZE\<close> bytes. \<open>getrandom\<close> is the host's: each seed drawn is an argument of the
  operation that draws it, \<open>None\<close> when there was no entropy.\<close>

type_synonym seed = bytes

definition read_seed :: "(state_error, seed) rd" where
  "read_seed = rd_bind (rd_state (rd_tpm2b SEED_SIZE)) (\<lambda>b.
     if length b \<noteq> SEED_SIZE then rd_fail (StateError ''bad seed'') else rd_return b)"

definition read_bool :: "(state_error, bool) rd" where
  "read_bool = rd_bind (rd_state rd_u8) (\<lambda>b.
     if b = 0 then rd_return False else if b = 1 then rd_return True else rd_fail (StateError ''bad flag''))"

text \<open>\<open>u8::from(bool)\<close>.\<close>

definition bool_byte :: "bool \<Rightarrow> u8" where
  "bool_byte b = (if b then 1 else 0)"

section \<open>Policies\<close>

record policy =
  pol_hash :: "hash option"
  pol_digest :: bytes

definition policy_default :: policy where
  "policy_default = \<lparr>pol_hash = None, pol_digest = []\<rparr>"

definition policy_size :: "hash option \<Rightarrow> nat" where
  "policy_size h = (case h of None \<Rightarrow> 0 | Some h \<Rightarrow> hash_size h)"

definition policy_write :: "policy \<Rightarrow> bytes" where
  "policy_write p = put_hash_or_null (pol_hash p) @ put_tpm2b (pol_digest p)"

definition policy_read :: "(state_error, policy) rd" where
  "policy_read =
     rd_bind (rd_state hash_read_or_null) (\<lambda>h.
     rd_bind (rd_state (rd_tpm2b MAX_DIGEST)) (\<lambda>d.
     if length d \<noteq> policy_size h then rd_fail (StateError ''bad policy'')
     else rd_return \<lparr>pol_hash = h, pol_digest = d\<rparr>))"

section \<open>Hierarchies\<close>

record hierarchies =
  owner_auth :: bytes
  endorsement_auth :: bytes
  lockout_auth :: bytes
  owner_policy :: policy
  endorsement_policy :: policy
  lockout_policy :: policy
  ph_proof :: seed
  sh_proof :: seed
  eh_proof :: seed
  disable_clear :: bool

definition hierarchies_write :: "hierarchies \<Rightarrow> bytes" where
  "hierarchies_write h =
     put_tpm2b (owner_auth h) @ put_tpm2b (endorsement_auth h) @ put_tpm2b (lockout_auth h)
     @ policy_write (owner_policy h) @ policy_write (endorsement_policy h) @ policy_write (lockout_policy h)
     @ put_tpm2b (ph_proof h) @ put_tpm2b (sh_proof h) @ put_tpm2b (eh_proof h)
     @ [bool_byte (disable_clear h)]"

definition hierarchies_read :: "(state_error, hierarchies) rd" where
  "hierarchies_read =
     rd_bind (rd_state (rd_tpm2b MAX_DIGEST)) (\<lambda>oa.
     rd_bind (rd_state (rd_tpm2b MAX_DIGEST)) (\<lambda>ea.
     rd_bind (rd_state (rd_tpm2b MAX_DIGEST)) (\<lambda>la.
     rd_bind policy_read (\<lambda>op.
     rd_bind policy_read (\<lambda>ep.
     rd_bind policy_read (\<lambda>lp.
     rd_bind read_seed (\<lambda>ph.
     rd_bind read_seed (\<lambda>sh.
     rd_bind read_seed (\<lambda>eh.
     rd_bind read_bool (\<lambda>dc.
     rd_return \<lparr>owner_auth = oa, endorsement_auth = ea, lockout_auth = la, owner_policy = op,
       endorsement_policy = ep, lockout_policy = lp, ph_proof = ph, sh_proof = sh, eh_proof = eh,
       disable_clear = dc\<rparr>))))))))))"

record clear_state =
  sh_enable :: bool
  eh_enable :: bool
  ph_enable_nv :: bool
  platform_auth :: bytes
  platform_policy :: policy

definition clear_state_default :: clear_state where
  "clear_state_default = \<lparr>sh_enable = True, eh_enable = True, ph_enable_nv = True, platform_auth = [],
     platform_policy = policy_default\<rparr>"

definition clear_state_write :: "clear_state \<Rightarrow> bytes" where
  "clear_state_write c =
     [bool_byte (sh_enable c), bool_byte (eh_enable c), bool_byte (ph_enable_nv c)]
     @ put_tpm2b (platform_auth c) @ policy_write (platform_policy c)"

definition clear_state_read :: "(state_error, clear_state) rd" where
  "clear_state_read =
     rd_bind read_bool (\<lambda>sh.
     rd_bind read_bool (\<lambda>eh.
     rd_bind read_bool (\<lambda>ph.
     rd_bind (rd_state (rd_tpm2b MAX_DIGEST)) (\<lambda>auth.
     rd_bind policy_read (\<lambda>policy.
     rd_return \<lparr>sh_enable = sh, eh_enable = eh, ph_enable_nv = ph, platform_auth = auth,
       platform_policy = policy\<rparr>)))))"

section \<open>Dictionary attack\<close>

record dictionary_attack =
  max_tries :: u32
  recovery_time :: u32
  lockout_recovery :: u32
  failed_tries :: u32
  lockout_auth_enabled :: bool

definition da_default :: dictionary_attack where
  "da_default = \<lparr>max_tries = 3, recovery_time = 1000, lockout_recovery = 1000, failed_tries = 0,
     lockout_auth_enabled = True\<rparr>"

definition da_write :: "dictionary_attack \<Rightarrow> bytes" where
  "da_write d = to_be_bytes (max_tries d) @ to_be_bytes (recovery_time d) @ to_be_bytes (lockout_recovery d)
     @ to_be_bytes (failed_tries d) @ [bool_byte (lockout_auth_enabled d)]"

definition da_read :: "(state_error, dictionary_attack) rd" where
  "da_read =
     rd_bind (rd_state rd_u32) (\<lambda>mt.
     rd_bind (rd_state rd_u32) (\<lambda>rt.
     rd_bind (rd_state rd_u32) (\<lambda>lr.
     rd_bind (rd_state rd_u32) (\<lambda>ft.
     rd_bind read_bool (\<lambda>en.
     rd_return \<lparr>max_tries = mt, recovery_time = rt, lockout_recovery = lr, failed_tries = ft,
       lockout_auth_enabled = en\<rparr>)))))"

definition in_lockout :: "dictionary_attack \<Rightarrow> bool" where
  "in_lockout d \<longleftrightarrow> failed_tries d \<ge> max_tries d"

text \<open>The timers are \<open>i64\<close>, kept within its range by saturating arithmetic.\<close>

record da_timers =
  self_heal_timer :: int
  lockout_timer :: int

definition da_timers_default :: da_timers where
  "da_timers_default = \<lparr>self_heal_timer = 0, lockout_timer = 0\<rparr>"

section \<open>Encodings\<close>

interpretation seed: codec put_tpm2b read_seed "\<lambda>s. length s = SEED_SIZE"
  by unfold_locales (auto simp: read_seed_def SEED_SIZE_def)

lemma read_bool_iff [simp]: "read_bool b = Inr (x, r) \<longleftrightarrow> b = bool_byte x # r"
  by (cases x) (auto simp: read_bool_def bool_byte_def intro: exI [of _ "1 :: u8"] split: if_splits)

definition policy_ok :: "policy \<Rightarrow> bool" where
  "policy_ok p \<longleftrightarrow> length (pol_digest p) = policy_size (pol_hash p)"

lemma policy_size_le: "policy_size h \<le> 64"
  using hash_size_le by (auto simp: policy_size_def MAX_DIGEST_def split: option.splits)

interpretation policy: codec policy_write policy_read policy_ok
proof unfold_locales
  fix b p r
  show "policy_read b = Inr (p, r) \<longleftrightarrow> b = policy_write p @ r \<and> policy_ok p"
    using policy_size_le [of "pol_hash p"]
    by (cases p) (auto simp: policy_read_def policy_write_def policy_ok_def MAX_DIGEST_def)
qed

definition hierarchies_ok :: "hierarchies \<Rightarrow> bool" where
  "hierarchies_ok h \<longleftrightarrow> length (owner_auth h) \<le> MAX_DIGEST \<and> length (endorsement_auth h) \<le> MAX_DIGEST
     \<and> length (lockout_auth h) \<le> MAX_DIGEST
     \<and> policy_ok (owner_policy h) \<and> policy_ok (endorsement_policy h) \<and> policy_ok (lockout_policy h)
     \<and> length (ph_proof h) = SEED_SIZE \<and> length (sh_proof h) = SEED_SIZE \<and> length (eh_proof h) = SEED_SIZE"

lemma auth_short: "n \<le> MAX_DIGEST \<Longrightarrow> n < 65536"
  by (simp add: MAX_DIGEST_def)

interpretation hierarchies: codec hierarchies_write hierarchies_read hierarchies_ok
proof unfold_locales
  fix b h r
  show "hierarchies_read b = Inr (h, r) \<longleftrightarrow> b = hierarchies_write h @ r \<and> hierarchies_ok h"
    by (cases h) (auto simp: hierarchies_read_def hierarchies_write_def hierarchies_ok_def policy.get_iff seed.get_iff
        auth_short)
qed

definition clear_state_ok :: "clear_state \<Rightarrow> bool" where
  "clear_state_ok c \<longleftrightarrow> length (platform_auth c) \<le> MAX_DIGEST \<and> policy_ok (platform_policy c)"

interpretation clear_state: codec clear_state_write clear_state_read clear_state_ok
proof unfold_locales
  fix b c r
  show "clear_state_read b = Inr (c, r) \<longleftrightarrow> b = clear_state_write c @ r \<and> clear_state_ok c"
    by (cases c) (auto simp: clear_state_read_def clear_state_write_def clear_state_ok_def policy.get_iff auth_short)
qed

interpretation dictionary_attack: codec da_write da_read "\<lambda>_. True"
proof unfold_locales
  fix b d r
  show "da_read b = Inr (d, r) \<longleftrightarrow> b = da_write d @ r \<and> True"
    by (cases d) (auto simp: da_read_def da_write_def)
qed

end
