(* ===== verification/Tpm_Pcr.thy ===== *)
theory Tpm_Pcr
  imports Tpm_Wire
begin

text \<open>
  \<^verbatim>\<open>vk-tpm/src/pcr.rs\<close>: the Platform Configuration Registers. A bank is a hash algorithm and the values
  of its 24 registers; \<open>pcrs_ok\<close> is its shape, which every operation keeps. The lemmas say what
  each operation does to each register of each bank.
\<close>

definition PCR_COUNT :: nat where "PCR_COUNT = 24"
definition PCR_SELECT :: nat where "PCR_SELECT = PCR_COUNT div 8"
definition STATE_SAVED :: nat where "STATE_SAVED = 16"
definition HCRTM_PCR :: nat where "HCRTM_PCR = 0"
definition DRTM_PCR :: nat where "DRTM_PCR = 17"
definition PCR_MEMORY :: u32 where "PCR_MEMORY = word_of_nat (PCR_COUNT * (20 + 32 + 48 + 64))"
definition MAX_READ :: nat where "MAX_READ = 8"

record attributes =
  state_save :: bool
  no_increment :: bool
  at_reset :: u8
  at_extend :: u8

definition static_rtm :: attributes where
  "static_rtm = \<lparr>state_save = True, no_increment = False, at_reset = 0, at_extend = 0x1f\<rparr>"

definition dynamic :: "bool \<Rightarrow> u8 \<Rightarrow> u8 \<Rightarrow> attributes" where
  "dynamic no_inc rs ex =
     \<lparr>state_save = False, no_increment = no_inc, at_reset = rs, at_extend = ex\<rparr>"

definition ATTRIBUTES :: "attributes list" where
  "ATTRIBUTES =
     [static_rtm, static_rtm, static_rtm, static_rtm, static_rtm, static_rtm, static_rtm, static_rtm,
      static_rtm, static_rtm, static_rtm, static_rtm, static_rtm, static_rtm, static_rtm, static_rtm,
      dynamic True 0x0f 0x1f, dynamic False 0x10 0x1c, dynamic False 0x10 0x1c, dynamic False 0x10 0x0c,
      dynamic False 0x1c 0x0e, dynamic True 0x1c 0x04, dynamic True 0x1c 0x04, dynamic True 0x0f 0x1f]"

definition pcr_attributes :: "nat \<Rightarrow> attributes option" where
  "pcr_attributes pcr = nth_get ATTRIBUTES pcr"

section \<open>Selections\<close>

text \<open>\<open>select\<close> is an array of \<open>PCR_SELECT\<close> bytes.\<close>

record selection =
  s_hash :: hash
  s_select :: bytes

definition selection_read :: "(rc, selection) rd" where
  "selection_read = rd_bind hash_read (\<lambda>h. rd_bind rd_u8 (\<lambda>n.
     if unat n \<noteq> PCR_SELECT then rd_fail RC_VALUE
     else rd_bind (rd_bytes PCR_SELECT) (\<lambda>s. rd_return \<lparr>s_hash = h, s_select = s\<rparr>)))"

definition selection_write :: "selection \<Rightarrow> bytes" where
  "selection_write s = to_be_bytes (hash_id (s_hash s)) @ word_of_nat PCR_SELECT # s_select s"

definition selection_all :: "hash \<Rightarrow> bool \<Rightarrow> selection" where
  "selection_all h on = \<lparr>s_hash = h, s_select = replicate PCR_SELECT (if on then 0xff else 0)\<rparr>"

text \<open>\<open>u8::count_ones\<close>.\<close>

definition count_ones :: "u8 \<Rightarrow> nat" where
  "count_ones b = length (filter (bit b) [0..<8])"

definition selection_count :: "selection \<Rightarrow> nat" where
  "selection_count s = sum_list (map count_ones (s_select s))"

definition selection_has :: "selection \<Rightarrow> nat \<Rightarrow> bool" where
  "selection_has s pcr =
     (case nth_get (s_select s) (pcr div 8) of
        None \<Rightarrow> False
      | Some byte \<Rightarrow> byte AND push_bit (pcr mod 8) 1 \<noteq> 0)"

definition selection_set :: "nat \<Rightarrow> bool \<Rightarrow> selection \<Rightarrow> selection" where
  "selection_set pcr on s =
     (case nth_get (s_select s) (pcr div 8) of
        None \<Rightarrow> s
      | Some byte \<Rightarrow>
          let b = push_bit (pcr mod 8) 1 in
          s\<lparr>s_select := (s_select s)[pcr div 8 := if on then byte OR b else byte AND NOT b]\<rparr>)"

definition read_selections :: "(rc, selection list) rd" where
  "read_selections = rd_bind (rd_count (length HASH_ALL)) (\<lambda>n. rd_times n selection_read)"

definition write_selections :: "selection list \<Rightarrow> bytes" where
  "write_selections ss = put_count (length ss) @ concat (map selection_write ss)"

definition is_allocated :: "selection list \<Rightarrow> hash \<Rightarrow> nat \<Rightarrow> bool" where
  "is_allocated allocation h pcr =
     (case find (\<lambda>s. s_hash s = h) allocation of None \<Rightarrow> False | Some s \<Rightarrow> selection_has s pcr)"

section \<open>The registers\<close>

datatype startup = Reset | Restart | Resume

type_synonym banks = "(hash \<times> bytes list) list"

record saved_pcrs =
  sp_counter :: u32
  sp_banks :: banks

record bank =
  b_hash :: hash
  b_values :: "bytes list"

record pcrs =
  p_banks :: "bank list"
  p_counter :: u32

definition pcrs_new :: pcrs where
  "pcrs_new = \<lparr>p_banks = map (\<lambda>h. \<lparr>b_hash = h, b_values = replicate PCR_COUNT (replicate (hash_size h) 0)\<rparr>) HASH_ALL,
     p_counter = 0\<rparr>"

definition pcrs_changed :: "nat \<Rightarrow> pcrs \<Rightarrow> pcrs" where
  "pcrs_changed pcr p =
     (if (case pcr_attributes pcr of None \<Rightarrow> False | Some a \<Rightarrow> no_increment a) then p
      else p\<lparr>p_counter := p_counter p + 1\<rparr>)"

text \<open>The inner loop of \<open>Pcrs::startup\<close>: register by register, with what is left of the saved
  values of the bank.\<close>

fun startup_values :: "selection list \<Rightarrow> hash \<Rightarrow> bytes list \<Rightarrow> nat \<Rightarrow> bytes list \<Rightarrow> bytes list" where
  "startup_values allocation h saved pcr [] = []"
| "startup_values allocation h saved pcr (v # vs) =
     (case pcr_attributes pcr of
        None \<Rightarrow> v # startup_values allocation h saved (Suc pcr) vs
      | Some a \<Rightarrow>
          let (restored, saved') =
                (if state_save a then (case saved of [] \<Rightarrow> (None, []) | x # xs \<Rightarrow> (Some x, xs))
                 else (None, saved));
              v' = (if \<not> is_allocated allocation h pcr then v
                    else case restored of
                      Some old \<Rightarrow> old
                    | None \<Rightarrow> replicate (length v) (if at_reset a AND 0x10 \<noteq> 0 then 0xff else 0))
          in v' # startup_values allocation h saved' (Suc pcr) vs)"

definition saved_values :: "startup \<Rightarrow> saved_pcrs option \<Rightarrow> hash \<Rightarrow> bytes list" where
  "saved_values kind saved h =
     (case saved of
        None \<Rightarrow> []
      | Some s \<Rightarrow>
          if kind \<noteq> Resume then []
          else case find (\<lambda>(g, _). g = h) (sp_banks s) of None \<Rightarrow> [] | Some (_, vs) \<Rightarrow> vs)"

definition pcrs_startup :: "selection list \<Rightarrow> startup \<Rightarrow> saved_pcrs option \<Rightarrow> pcrs \<Rightarrow> pcrs" where
  "pcrs_startup allocation kind saved p =
     (let counter = (case saved of Some s \<Rightarrow> if kind = Restart \<or> kind = Resume then sp_counter s else 0 | None \<Rightarrow> 0);
          banks = map (\<lambda>b. b\<lparr>b_values := startup_values allocation (b_hash b)
                       (saved_values kind saved (b_hash b)) 0 (b_values b)\<rparr>) (p_banks p)
      in fold (\<lambda>(pcr, a) p. if kind = Resume \<and> state_save a then p else pcrs_changed pcr p)
           (enumerate 0 ATTRIBUTES) \<lparr>p_banks = banks, p_counter = counter\<rparr>)"

definition pcrs_save :: "pcrs \<Rightarrow> saved_pcrs" where
  "pcrs_save p =
     \<lparr>sp_counter = p_counter p,
      sp_banks = map (\<lambda>b. (b_hash b, map fst (filter (\<lambda>(_, a). state_save a) (zip (b_values b) ATTRIBUTES))))
        (p_banks p)\<rparr>"

text \<open>\<open>banks.iter_mut().find(|b| b.hash == hash)\<close>: the first bank of the algorithm.\<close>

fun update_bank :: "hash \<Rightarrow> (bank \<Rightarrow> bank) \<Rightarrow> bank list \<Rightarrow> bank list" where
  "update_bank h f [] = []"
| "update_bank h f (b # bs) = (if b_hash b = h then f b # bs else b # update_bank h f bs)"

definition bank_value :: "pcrs \<Rightarrow> hash \<Rightarrow> nat \<Rightarrow> bytes option" where
  "bank_value p h pcr =
     (case find (\<lambda>b. b_hash b = h) (p_banks p) of None \<Rightarrow> None | Some b \<Rightarrow> nth_get (b_values b) pcr)"

definition pcrs_extend :: "digest_fun \<Rightarrow> selection list \<Rightarrow> nat \<Rightarrow> hash \<Rightarrow> bytes \<Rightarrow> pcrs \<Rightarrow> pcrs" where
  "pcrs_extend D allocation pcr h d p =
     (if \<not> is_allocated allocation h pcr then p
      else case bank_value p h pcr of
        None \<Rightarrow> p
      | Some v \<Rightarrow>
          pcrs_changed pcr
            (p\<lparr>p_banks := update_bank h (\<lambda>b. b\<lparr>b_values := (b_values b)[pcr := hash_digest D h [v, d]]\<rparr>) (p_banks p)\<rparr>))"

definition reset_bank :: "selection list \<Rightarrow> nat \<Rightarrow> bank \<Rightarrow> bank" where
  "reset_bank allocation pcr b =
     (if is_allocated allocation (b_hash b) pcr
      then (case nth_get (b_values b) pcr of
              None \<Rightarrow> b
            | Some v \<Rightarrow> b\<lparr>b_values := (b_values b)[pcr := replicate (length v) 0]\<rparr>)
      else b)"

definition pcrs_reset :: "selection list \<Rightarrow> nat \<Rightarrow> pcrs \<Rightarrow> pcrs" where
  "pcrs_reset allocation pcr p =
     pcrs_changed pcr (p\<lparr>p_banks := map (reset_bank allocation pcr) (p_banks p)\<rparr>)"

text \<open>One selection of TPM2_PCR_Read: the registers it returns are taken off it, with the digests so
  far.\<close>

definition read_pcr :: "pcrs \<Rightarrow> selection list \<Rightarrow> selection \<Rightarrow> nat \<Rightarrow> selection \<times> bytes list \<Rightarrow> selection \<times> bytes list" where
  "read_pcr p allocation s pcr = (\<lambda>(returned, digests).
     if \<not> selection_has s pcr \<or> \<not> is_allocated allocation (s_hash s) pcr then (returned, digests)
     else case bank_value p (s_hash s) pcr of
       None \<Rightarrow> (returned, digests)
     | Some v \<Rightarrow>
         if length digests < MAX_READ then (selection_set pcr True returned, digests @ [v])
         else (returned, digests))"

definition read_selection :: "pcrs \<Rightarrow> selection list \<Rightarrow> selection \<Rightarrow> selection list \<times> bytes list \<Rightarrow> selection list \<times> bytes list" where
  "read_selection p allocation s = (\<lambda>(out, digests).
     let (returned, digests) =
       fold (read_pcr p allocation s) [0..<PCR_COUNT] (selection_all (s_hash s) False, digests)
     in (out @ [returned], digests))"

definition pcrs_read :: "selection list \<Rightarrow> selection list \<Rightarrow> pcrs \<Rightarrow> selection list \<times> bytes list" where
  "pcrs_read allocation selections p = fold (read_selection p allocation) selections ([], [])"

text \<open>PCRComputeCurrentDigest: the trimmed selections and the digest. What the hasher was fed is
  the list of the values.\<close>

definition trim_selection :: "selection list \<Rightarrow> selection \<Rightarrow> selection" where
  "trim_selection allocation s =
     fold (\<lambda>pcr s. if \<not> is_allocated allocation (s_hash s) pcr then selection_set pcr False s else s)
       [0..<PCR_COUNT] s"

definition selected_values :: "pcrs \<Rightarrow> selection \<Rightarrow> bytes list" where
  "selected_values p s =
     List.map_filter (\<lambda>pcr. bank_value p (s_hash s) pcr) (filter (selection_has s) [0..<PCR_COUNT])"

definition pcrs_digest :: "digest_fun \<Rightarrow> selection list \<Rightarrow> selection list \<Rightarrow> hash \<Rightarrow> pcrs \<Rightarrow> selection list \<times> bytes" where
  "pcrs_digest D allocation selections h p =
     (let trimmed = map (trim_selection allocation) selections
      in (trimmed, hash_digest D h (concat (map (selected_values p) trimmed))))"

definition may_extend :: "nat \<Rightarrow> nat \<Rightarrow> bool" where
  "may_extend pcr locality =
     (case pcr_attributes pcr of None \<Rightarrow> False | Some a \<Rightarrow> at_extend a AND push_bit locality 1 \<noteq> 0)"

definition may_reset :: "nat \<Rightarrow> nat \<Rightarrow> bool" where
  "may_reset pcr locality =
     (case pcr_attributes pcr of None \<Rightarrow> False | Some a \<Rightarrow> at_reset a AND push_bit locality 1 \<noteq> 0)"

definition is_state_saved :: "nat \<Rightarrow> bool" where
  "is_state_saved pcr = (case pcr_attributes pcr of None \<Rightarrow> False | Some a \<Rightarrow> state_save a)"

definition pcr_property :: "(attributes \<Rightarrow> bool) \<Rightarrow> bytes" where
  "pcr_property f =
     s_select (fold (\<lambda>(pcr, a) s. selection_set pcr (f a) s) (enumerate 0 ATTRIBUTES) (selection_all Sha1 False))"

definition pcr_properties :: "(u32 \<times> bytes) list" where
  "pcr_properties =
     (let ext = (\<lambda>l. pcr_property (\<lambda>a. at_extend a AND push_bit l 1 \<noteq> 0));
          res = (\<lambda>l. pcr_property (\<lambda>a. at_reset a AND push_bit l 1 \<noteq> 0)) in
      [(0x00, pcr_property state_save),
       (0x01, ext 0), (0x02, res 0), (0x03, ext 1), (0x04, res 1), (0x05, ext 2), (0x06, res 2),
       (0x07, ext 3), (0x08, res 3), (0x09, ext 4), (0x0a, res 4),
       (0x11, pcr_property no_increment), (0x12, res 4),
       (0x13, pcr_property (\<lambda>_. False)), (0x14, pcr_property (\<lambda>_. False))])"

section \<open>Selections read back\<close>

lemma selection_has_bit:
  "selection_has s pcr \<longleftrightarrow> pcr div 8 < length (s_select s) \<and> bit (s_select s ! (pcr div 8)) (pcr mod 8)"
  by (auto simp: selection_has_def nth_get_def bit_iff_and_push_bit_not_eq_0)

lemma selection_set_hash [simp]: "s_hash (selection_set pcr on s) = s_hash s"
  by (simp add: selection_set_def Let_def split: option.splits)

lemma length_selection_set [simp]: "length (s_select (selection_set pcr on s)) = length (s_select s)"
  by (simp add: selection_set_def Let_def split: option.splits)

lemma bit_set_bit_byte:
  fixes byte :: u8
  assumes "n < 8" "m < 8"
  shows "bit (byte OR 2 ^ m) n \<longleftrightarrow> n = m \<or> bit byte n"
    and "bit (byte AND NOT (2 ^ m)) n \<longleftrightarrow> n \<noteq> m \<and> bit byte n"
  using assms by (auto simp: bit_or_iff bit_and_iff bit_not_iff bit_exp_iff)

lemma selection_has_set:
  assumes "pcr div 8 < length (s_select s)"
  shows "selection_has (selection_set pcr on s) q = (if q = pcr then on else selection_has s q)"
proof -
  have eq: "q = pcr \<longleftrightarrow> q div 8 = pcr div 8 \<and> q mod 8 = pcr mod 8"
    by (metis div_mod_decomp)
  show ?thesis
    using assms unfolding eq selection_has_bit selection_set_def Let_def
    by (auto simp: nth_get_def nth_list_update bit_set_bit_byte)
qed

lemma selection_has_all [simp]:
  "selection_has (selection_all h on) pcr \<longleftrightarrow> on \<and> pcr < PCR_COUNT"
proof -
  have "bit (0xff :: u8) (pcr mod 8)"
    using bit_mask_iff [of 8 "pcr mod 8", where ?'a = "8 word"] by (simp add: mask_eq_exp_minus_1)
  then show ?thesis
    by (auto simp: selection_has_bit selection_all_def PCR_SELECT_def PCR_COUNT_def div_less_iff_less_mult)
qed

interpretation selection: codec selection_write selection_read "\<lambda>s. length (s_select s) = PCR_SELECT"
proof unfold_locales
  fix b x r
  have "unat (word_of_nat PCR_SELECT :: u8) = PCR_SELECT" by (simp add: PCR_SELECT_def PCR_COUNT_def)
  moreover have "unat n = PCR_SELECT \<longleftrightarrow> n = (word_of_nat PCR_SELECT :: u8)" for n
    by (metis calculation word_unat_eq_iff)
  ultimately show "selection_read b = Inr (x, r) \<longleftrightarrow> b = selection_write x @ r \<and> length (s_select x) = PCR_SELECT"
    by (cases x) (auto simp: selection_read_def selection_write_def split: if_splits)
qed

definition allocation_ok :: "selection list \<Rightarrow> bool" where
  "allocation_ok ss \<longleftrightarrow> length ss \<le> length HASH_ALL \<and> list_all (\<lambda>s. length (s_select s) = PCR_SELECT) ss"

interpretation selections: codec write_selections read_selections allocation_ok
proof unfold_locales
  fix b and xs :: "selection list" and r
  have "length xs \<le> length HASH_ALL \<Longrightarrow> length xs < 4294967296" by (simp add: HASH_ALL_def)
  then show "read_selections b = Inr (xs, r) \<longleftrightarrow> b = write_selections xs @ r \<and> allocation_ok xs"
    by (auto simp: read_selections_def write_selections_def allocation_ok_def selection.times_iff)
qed

section \<open>What the table says\<close>

lemma pcr_attributes_eq:
  "pcr_attributes pcr =
     (if pcr < 16 then Some static_rtm else if pcr = 16 then Some (dynamic True 0x0f 0x1f)
      else if pcr < 19 then Some (dynamic False 0x10 0x1c) else if pcr = 19 then Some (dynamic False 0x10 0x0c)
      else if pcr = 20 then Some (dynamic False 0x1c 0x0e) else if pcr < 23 then Some (dynamic True 0x1c 0x04)
      else if pcr = 23 then Some (dynamic True 0x0f 0x1f) else None)"
  by (auto simp: pcr_attributes_def nth_get_def ATTRIBUTES_def nth_Cons')

lemma length_ATTRIBUTES [simp]: "length ATTRIBUTES = 24"
  by (simp add: ATTRIBUTES_def)

lemma is_state_saved_iff: "is_state_saved pcr \<longleftrightarrow> pcr < 16"
  by (auto simp: is_state_saved_def pcr_attributes_eq static_rtm_def dynamic_def split: if_splits)

lemma may_reset_0: "may_reset pcr 0 \<longleftrightarrow> pcr = 16 \<or> pcr = 23"
  by (auto simp: may_reset_def pcr_attributes_eq static_rtm_def dynamic_def split: if_splits)

lemma may_extend_0: "may_extend pcr 0 \<longleftrightarrow> pcr \<le> 16 \<or> pcr = 23"
  by (auto simp: may_extend_def pcr_attributes_eq static_rtm_def dynamic_def split: if_splits)

section \<open>The shape of the banks\<close>

definition bank_ok :: "bank \<Rightarrow> bool" where
  "bank_ok b \<longleftrightarrow> length (b_values b) = PCR_COUNT \<and> (\<forall>v \<in> set (b_values b). length v = hash_size (b_hash b))"

definition pcrs_ok :: "pcrs \<Rightarrow> bool" where
  "pcrs_ok p \<longleftrightarrow> map b_hash (p_banks p) = HASH_ALL \<and> (\<forall>b \<in> set (p_banks p). bank_ok b)"

lemma bank_ok_update:
  assumes "bank_ok b" and "length x = hash_size (b_hash b)"
  shows "bank_ok (b\<lparr>b_values := (b_values b)[i := x]\<rparr>)"
  using assms set_update_subset_insert [of "b_values b" i x] by (auto simp: bank_ok_def)

lemma bank_ok_nth: "bank_ok b \<Longrightarrow> i < length (b_values b) \<Longrightarrow> length (b_values b ! i) = hash_size (b_hash b)"
  by (simp add: bank_ok_def)

lemma pcrs_new_ok: "pcrs_ok pcrs_new"
  by (auto simp: pcrs_ok_def pcrs_new_def bank_ok_def comp_def)

lemma pcrs_changed_banks [simp]: "p_banks (pcrs_changed pcr p) = p_banks p"
  by (simp add: pcrs_changed_def)

lemma pcrs_changed_ok [simp]: "pcrs_ok (pcrs_changed pcr p) = pcrs_ok p"
  by (simp add: pcrs_ok_def)

lemma bank_value_changed [simp]: "bank_value (pcrs_changed pcr p) h q = bank_value p h q"
  by (simp add: bank_value_def)

lemma find_bank:
  assumes "pcrs_ok p"
  shows "\<exists>b. find (\<lambda>b. b_hash b = h) (p_banks p) = Some b \<and> b \<in> set (p_banks p) \<and> b_hash b = h \<and> bank_ok b"
proof -
  have "h \<in> set (map b_hash (p_banks p))" using assms by (simp add: pcrs_ok_def)
  then obtain b where "find (\<lambda>b. b_hash b = h) (p_banks p) = Some b"
    by (cases "find (\<lambda>b. b_hash b = h) (p_banks p)") (auto simp: find_None_iff)
  then show ?thesis
    using assms by (auto simp: find_Some_iff pcrs_ok_def)
qed

lemma bank_value_Some:
  assumes "pcrs_ok p" and "pcr < PCR_COUNT"
  shows "\<exists>v. bank_value p h pcr = Some v \<and> length v = hash_size h"
  using find_bank [OF assms(1), of h] assms(2) by (auto simp: bank_value_def nth_get_def bank_ok_def)

lemma bank_value_bound: "pcrs_ok p \<Longrightarrow> bank_value p h pcr = Some v \<Longrightarrow> pcr < PCR_COUNT \<and> length v = hash_size h"
  using find_bank [of p h] by (auto simp: bank_value_def nth_get_eq_Some bank_ok_def)

lemma find_map_bank:
  "(\<And>b. b_hash (f b) = b_hash b) \<Longrightarrow>
     find (\<lambda>b. b_hash b = h) (map f bs) = map_option f (find (\<lambda>b. b_hash b = h) bs)"
  by (induction bs) auto

lemma find_update_bank:
  "(\<And>b. b_hash (f b) = b_hash b) \<Longrightarrow>
     find (\<lambda>b. b_hash b = g) (update_bank h f bs) =
       (if g = h then map_option f (find (\<lambda>b. b_hash b = g) bs) else find (\<lambda>b. b_hash b = g) bs)"
  by (induction bs) auto

lemma map_hash_update_bank:
  "(\<And>b. b_hash (f b) = b_hash b) \<Longrightarrow> map b_hash (update_bank h f bs) = map b_hash bs"
  by (induction bs) auto

lemma set_update_bank: "b \<in> set (update_bank h f bs) \<Longrightarrow> b \<in> set bs \<or> (\<exists>c \<in> set bs. b = f c \<and> b_hash c = h)"
  by (induction bs) (auto split: if_splits)

section \<open>Extend and reset\<close>

lemma bank_value_extend:
  assumes "pcrs_ok p"
  shows "bank_value (pcrs_extend D allocation pcr h d p) g q =
    (if g = h \<and> q = pcr \<and> is_allocated allocation h pcr
     then map_option (\<lambda>v. hash_digest D h [v, d]) (bank_value p h pcr) else bank_value p g q)"
proof (cases "bank_value p h pcr")
  case None
  then show ?thesis by (simp add: pcrs_extend_def)
next
  case (Some v)
  from find_bank [OF assms, of h] obtain b where b: "find (\<lambda>b. b_hash b = h) (p_banks p) = Some b" by blast
  with Some have "nth_get (b_values b) pcr = Some v" by (simp add: bank_value_def)
  with Some b show ?thesis
    by (auto simp: pcrs_extend_def) (auto simp: bank_value_def find_update_bank nth_get_def nth_list_update split: option.splits if_splits)
qed

lemma pcrs_extend_ok:
  assumes "digest_ok D" and "pcrs_ok p"
  shows "pcrs_ok (pcrs_extend D allocation pcr h d p)"
proof (cases "is_allocated allocation h pcr \<and> bank_value p h pcr \<noteq> None")
  case True
  then obtain v where "is_allocated allocation h pcr" "bank_value p h pcr = Some v" by blast
  with assms show ?thesis
    unfolding pcrs_extend_def
    by (auto simp: pcrs_ok_def map_hash_update_bank length_hash_digest intro!: bank_ok_update dest!: set_update_bank)
qed (use assms in \<open>auto simp: pcrs_extend_def\<close>)

lemma pcrs_extend_counter:
  assumes "pcrs_ok p" and "is_allocated allocation h pcr" and "pcr < 16"
  shows "p_counter (pcrs_extend D allocation pcr h d p) = p_counter p + 1"
  using bank_value_Some [OF assms(1), of pcr h] assms(2,3)
  by (auto simp: pcrs_extend_def PCR_COUNT_def pcrs_changed_def pcr_attributes_eq static_rtm_def)

lemma reset_bank_hash [simp]: "b_hash (reset_bank allocation pcr b) = b_hash b"
  by (simp add: reset_bank_def split: option.splits)

lemma reset_bank_ok: "bank_ok b \<Longrightarrow> bank_ok (reset_bank allocation pcr b)"
  by (auto simp: reset_bank_def nth_get_eq_Some bank_ok_nth intro!: bank_ok_update split: option.splits)

lemma bank_value_reset:
  assumes "pcrs_ok p"
  shows "bank_value (pcrs_reset allocation pcr p) g q =
    (if q = pcr \<and> is_allocated allocation g pcr
     then map_option (\<lambda>v. replicate (length v) 0) (bank_value p g q) else bank_value p g q)"
proof -
  from find_bank [OF assms, of g] obtain b where b: "find (\<lambda>b. b_hash b = g) (p_banks p) = Some b" "b_hash b = g" by blast
  then show ?thesis
    by (auto simp: bank_value_def pcrs_reset_def find_map_bank reset_bank_def nth_get_def nth_list_update)
qed

lemma pcrs_reset_ok: "pcrs_ok p \<Longrightarrow> pcrs_ok (pcrs_reset allocation pcr p)"
  by (auto simp: pcrs_reset_def pcrs_ok_def comp_def reset_bank_ok)

section \<open>Startup and shutdown\<close>

text \<open>What a Startup makes of a register: restored, or back to its initial value.\<close>

definition initial_byte :: "nat \<Rightarrow> u8" where
  "initial_byte pcr = (if 17 \<le> pcr \<and> pcr \<le> 22 then 0xff else 0)"

definition startup_value :: "selection list \<Rightarrow> hash \<Rightarrow> bytes list \<Rightarrow> nat \<Rightarrow> bytes \<Rightarrow> bytes" where
  "startup_value allocation h saved pcr v =
     (if \<not> is_allocated allocation h pcr then v
      else if pcr < length saved then saved ! pcr
      else replicate (length v) (initial_byte pcr))"

lemma initial_byte_eq:
  "pcr_attributes pcr = Some a \<Longrightarrow> (if at_reset a AND 0x10 \<noteq> 0 then 0xff else 0) = initial_byte pcr"
  by (auto simp: pcr_attributes_eq static_rtm_def dynamic_def initial_byte_def split: if_splits)

lemma startup_values_eq:
  assumes "length saved \<le> 16" and "k + length vs \<le> 24"
  shows "startup_values allocation h (drop k saved) k vs =
    map (\<lambda>(i, v). startup_value allocation h saved i v) (enumerate k vs)"
  using assms(2)
proof (induction vs arbitrary: k)
  case (Cons v vs)
  then have k: "k < 24" and IH: "startup_values allocation h (drop (Suc k) saved) (Suc k) vs =
      map (\<lambda>(i, v). startup_value allocation h saved i v) (enumerate (Suc k) vs)" by auto
  obtain a where a: "pcr_attributes k = Some a" using k by (simp add: pcr_attributes_def nth_get_def)
  have s: "state_save a \<longleftrightarrow> k < 16" using a is_state_saved_iff [of k] by (simp add: is_state_saved_def)
  show ?case
  proof (cases "drop k saved")
    case Nil
    then have "drop (Suc k) saved = []" "\<not> k < length saved" by auto
    with IH a Nil initial_byte_eq [OF a] show ?thesis by (simp add: startup_value_def)
  next
    case (Cons x xs)
    then have "k < length saved" "saved ! k = x" "drop (Suc k) saved = xs"
      by (auto simp: nth_via_drop) (metis drop_eq_Nil2 list.distinct(1) not_less, metis drop_Suc list.sel(3) tl_drop)
    moreover have "k < 16" using calculation(1) assms(1) by simp
    ultimately show ?thesis using IH a s Cons by (simp add: startup_value_def)
  qed
qed simp

lemma fold_changed_banks:
  "p_banks (fold (\<lambda>(pcr, a) p. if c a then p else pcrs_changed pcr p) xs p) = p_banks p"
  by (induction xs arbitrary: p) auto

lemma pcrs_startup_banks:
  "p_banks (pcrs_startup allocation kind saved p) =
     map (\<lambda>b. b\<lparr>b_values := startup_values allocation (b_hash b) (saved_values kind saved (b_hash b)) 0 (b_values b)\<rparr>)
       (p_banks p)"
  by (simp add: pcrs_startup_def Let_def fold_changed_banks)

definition saved_ok :: "saved_pcrs \<Rightarrow> bool" where
  "saved_ok s \<longleftrightarrow> (\<forall>(h, vs) \<in> set (sp_banks s). length vs = STATE_SAVED \<and> (\<forall>v \<in> set vs. length v = hash_size h))"

lemma saved_values_mem:
  "saved_values kind saved h = [] \<or> (\<exists>s. saved = Some s \<and> (h, saved_values kind saved h) \<in> set (sp_banks s))"
  by (auto simp: saved_values_def dest!: find_SomeD split: option.splits)

lemma saved_values_ok:
  assumes "\<forall>s. saved = Some s \<longrightarrow> saved_ok s"
  shows "length (saved_values kind saved h) \<le> 16 \<and> (\<forall>v \<in> set (saved_values kind saved h). length v = hash_size h)"
  using saved_values_mem [of kind saved h] assms by (fastforce simp: saved_ok_def STATE_SAVED_def)

lemma startup_bank_values:
  assumes "bank_ok b" and "length saved \<le> 16"
  shows "startup_values allocation h saved 0 (b_values b) =
    map (\<lambda>(i, v). startup_value allocation h saved i v) (enumerate 0 (b_values b))"
  using startup_values_eq [of saved 0 "b_values b" allocation h] assms by (simp add: bank_ok_def PCR_COUNT_def)

lemma bank_value_startup:
  assumes "pcrs_ok p" and "\<forall>s. saved = Some s \<longrightarrow> saved_ok s"
  shows "bank_value (pcrs_startup allocation kind saved p) h pcr =
    map_option (startup_value allocation h (saved_values kind saved h) pcr) (bank_value p h pcr)"
proof -
  from find_bank [OF assms(1), of h] obtain b where
    b: "find (\<lambda>b. b_hash b = h) (p_banks p) = Some b" "b_hash b = h" "bank_ok b" by blast
  from startup_bank_values [OF b(3)] saved_values_ok [OF assms(2)] have
    "startup_values allocation h (saved_values kind saved h) 0 (b_values b) =
       map (\<lambda>(i, v). startup_value allocation h (saved_values kind saved h) i v) (enumerate 0 (b_values b))" by blast
  with b show ?thesis
    by (simp add: bank_value_def pcrs_startup_banks find_map_bank nth_get_def nth_enumerate_eq)
qed

lemma startup_value_length:
  "\<forall>v \<in> set saved. length v = n \<Longrightarrow> length v = n \<Longrightarrow> length (startup_value allocation h saved pcr v) = n"
  by (simp add: startup_value_def)

lemma pcrs_startup_ok:
  assumes "pcrs_ok p" and "\<forall>s. saved = Some s \<longrightarrow> saved_ok s"
  shows "pcrs_ok (pcrs_startup allocation kind saved p)"
proof -
  have "bank_ok (b\<lparr>b_values := startup_values allocation (b_hash b) (saved_values kind saved (b_hash b)) 0 (b_values b)\<rparr>)"
    if "bank_ok b" for b
    using that saved_values_ok [OF assms(2), of kind "b_hash b"]
    by (subst startup_bank_values)
      (auto simp: bank_ok_def in_set_enumerate_eq intro!: startup_value_length)
  with assms(1) show ?thesis by (auto simp: pcrs_ok_def pcrs_startup_banks comp_def)
qed

lemma pcrs_save_ok:
  assumes "pcrs_ok p"
  shows "saved_ok (pcrs_save p)"
    and "saved_values Resume (Some (pcrs_save p)) h = take 16 (b_values (the (find (\<lambda>b. b_hash b = h) (p_banks p))))"
proof -
  have keep: "map fst (filter (\<lambda>(_, a). state_save a) (zip vs ATTRIBUTES)) = take 16 vs" if "length vs = 24" for vs :: "bytes list"
    using that by (auto simp: numeral_eq_Suc length_Suc_conv ATTRIBUTES_def static_rtm_def dynamic_def)
  show "saved_ok (pcrs_save p)"
    using assms by (auto simp: saved_ok_def pcrs_save_def pcrs_ok_def bank_ok_def PCR_COUNT_def STATE_SAVED_def keep
        dest: in_set_takeD)
  have f: "find (\<lambda>(g, _). g = h) (map (\<lambda>b. (b_hash b, f b)) bs) = map_option (\<lambda>b. (b_hash b, f b)) (find (\<lambda>b. b_hash b = h) bs)"
    for f and bs :: "bank list"
    by (induction bs) auto
  from find_bank [OF assms, of h] obtain b where "find (\<lambda>b. b_hash b = h) (p_banks p) = Some b" "bank_ok b" by blast
  then show "saved_values Resume (Some (pcrs_save p)) h = take 16 (b_values (the (find (\<lambda>b. b_hash b = h) (p_banks p))))"
    by (simp add: saved_values_def pcrs_save_def f keep bank_ok_def PCR_COUNT_def)
qed

text \<open>A resume brings the state-saved registers back.\<close>

lemma bank_value_resume:
  assumes "pcrs_ok p" and "pcrs_ok q" and "pcr < 16" and "is_allocated allocation h pcr"
  shows "bank_value (pcrs_startup allocation Resume (Some (pcrs_save p)) q) h pcr = bank_value p h pcr"
proof -
  from find_bank [OF assms(1), of h] obtain b where
    b: "find (\<lambda>b. b_hash b = h) (p_banks p) = Some b" "bank_ok b" by blast
  from bank_value_Some [OF assms(2), of pcr h] assms(3) obtain v where v: "bank_value q h pcr = Some v"
    by (auto simp: PCR_COUNT_def)
  show ?thesis
    using bank_value_startup [OF assms(2), of "Some (pcrs_save p)" allocation Resume h pcr] pcrs_save_ok [OF assms(1)]
      assms(3,4) b v
    by (simp add: startup_value_def bank_value_def [of p] bank_ok_def PCR_COUNT_def nth_get_def)
qed

lemma pcrs_resume_counter:
  "p_counter (pcrs_startup allocation Resume (Some s) p) = sp_counter s + 4"
  by (simp add: pcrs_startup_def ATTRIBUTES_def pcrs_changed_def pcr_attributes_eq static_rtm_def dynamic_def)

section \<open>What TPM2_PCR_Read returns\<close>

definition readable :: "selection list \<Rightarrow> selection \<Rightarrow> nat \<Rightarrow> bool" where
  "readable allocation s pcr \<longleftrightarrow> selection_has s pcr \<and> is_allocated allocation (s_hash s) pcr"

definition readable_values :: "pcrs \<Rightarrow> selection list \<Rightarrow> selection \<Rightarrow> bytes list" where
  "readable_values p allocation s =
     map (\<lambda>pcr. the (bank_value p (s_hash s) pcr)) (filter (readable allocation s) [0..<PCR_COUNT])"

lemma filter_mem_take:
  "distinct xs \<Longrightarrow> filter (\<lambda>x. x \<in> set (take n (filter P xs))) xs = take n (filter P xs)"
proof (induction xs arbitrary: n)
  case (Cons x xs)
  have "filter (\<lambda>y. y = x \<or> y \<in> set (take m (filter P xs))) xs = filter (\<lambda>y. y \<in> set (take m (filter P xs))) xs" for m
    using Cons.prems by (auto intro: filter_cong)
  moreover have "x \<notin> set (take m (filter P xs))" for m using Cons.prems by (auto dest: in_set_takeD)
  ultimately show ?case using Cons by (cases n) auto
qed simp

lemma fold_read_pcr:
  fixes allocation :: "selection list" and s :: selection
  assumes "pcrs_ok p" and "\<forall>q \<in> set qs. q < PCR_COUNT"
  defines "taken ds \<equiv> take (MAX_READ - length ds) (filter (readable allocation s) qs)"
  shows "fold (read_pcr p allocation s) qs (ret, ds) =
    (fold (\<lambda>q. selection_set q True) (taken ds) ret, ds @ map (\<lambda>q. the (bank_value p (s_hash s) q)) (taken ds))"
  using assms(2) unfolding taken_def
proof (induction qs arbitrary: ret ds)
  case (Cons q qs)
  from bank_value_Some [OF assms(1), of q "s_hash s"] Cons.prems obtain v where
    v: "bank_value p (s_hash s) q = Some v" by auto
  have IH: "fold (read_pcr p allocation s) qs (ret, ds) =
      (fold (\<lambda>q. selection_set q True) (take (MAX_READ - length ds) (filter (readable allocation s) qs)) ret,
       ds @ map (\<lambda>q. the (bank_value p (s_hash s) q)) (take (MAX_READ - length ds) (filter (readable allocation s) qs)))"
    for ret ds using Cons by simp
  have step: "read_pcr p allocation s q (ret, ds) =
      (if readable allocation s q \<and> length ds < MAX_READ then (selection_set q True ret, ds @ [v]) else (ret, ds))"
    by (simp add: read_pcr_def readable_def v)
  show ?case
  proof (cases "readable allocation s q \<and> length ds < MAX_READ")
    case True
    then have "MAX_READ - length ds = Suc (MAX_READ - Suc (length ds))" by linarith
    with True v show ?thesis by (simp add: IH step)
  next
    case False
    then show ?thesis by (auto simp: IH step)
  qed
qed simp

lemma fold_selection_set:
  assumes "\<forall>q \<in> set qs. q div 8 < length (s_select s)"
  shows "selection_has (fold (\<lambda>q. selection_set q True) qs s) pcr \<longleftrightarrow> pcr \<in> set qs \<or> selection_has s pcr"
    and "s_hash (fold (\<lambda>q. selection_set q True) qs s) = s_hash s"
  using assms by (induction qs arbitrary: s) (auto simp: selection_has_set)

lemma selection_all_bound: "q < PCR_COUNT \<Longrightarrow> q div 8 < length (s_select (selection_all h on))"
  by (simp add: selection_all_def PCR_SELECT_def PCR_COUNT_def)

lemma read_selection_eq:
  assumes "pcrs_ok p"
  shows "\<exists>ret. read_selection p allocation s (out, ds) =
      (out @ [ret], ds @ take (MAX_READ - length ds) (readable_values p allocation s))
    \<and> s_hash ret = s_hash s \<and> (\<forall>q. selection_has ret q \<longrightarrow> readable allocation s q)
    \<and> selected_values p ret = take (MAX_READ - length ds) (readable_values p allocation s)"
proof -
  define t where "t = take (MAX_READ - length ds) (filter (readable allocation s) [0..<PCR_COUNT])"
  define ret where "ret = fold (\<lambda>q. selection_set q True) t (selection_all (s_hash s) False)"
  have t: "\<forall>q \<in> set t. readable allocation s q \<and> q < PCR_COUNT" by (auto simp: t_def dest: in_set_takeD)
  then have b: "\<forall>q \<in> set t. q div 8 < length (s_select (selection_all (s_hash s) False))"
    using selection_all_bound by blast
  have has: "selection_has ret = (\<lambda>q. q \<in> set t)" and h: "s_hash ret = s_hash s"
    using fold_selection_set [OF b] by (simp_all add: ret_def fun_eq_iff) (simp add: selection_all_def)
  have mf: "List.map_filter (bank_value p h) qs = map (\<lambda>q. the (bank_value p h q)) qs"
    if "\<forall>q \<in> set qs. q < PCR_COUNT" for h qs
    using that bank_value_Some [OF assms, of _ h] by (induction qs) (auto simp: List.map_filter_def)
  have v: "map (\<lambda>q. the (bank_value p (s_hash s) q)) t = take (MAX_READ - length ds) (readable_values p allocation s)"
    by (simp add: t_def readable_values_def take_map)
  have "filter (selection_has ret) [0..<PCR_COUNT] = t"
    unfolding has t_def by (rule filter_mem_take) simp
  then have "selected_values p ret = take (MAX_READ - length ds) (readable_values p allocation s)"
    using mf [of t "s_hash s"] t h v by (simp add: selected_values_def)
  moreover have "read_selection p allocation s (out, ds) =
      (out @ [ret], ds @ take (MAX_READ - length ds) (readable_values p allocation s))"
    unfolding v [symmetric] by (simp add: read_selection_def fold_read_pcr [OF assms] ret_def t_def)
  ultimately show ?thesis using has h t by (intro exI [of _ ret]) auto
qed

lemma fold_read_selection:
  assumes "pcrs_ok p"
  shows "\<exists>rets. fold (read_selection p allocation) ss (out, ds) =
      (out @ rets, ds @ take (MAX_READ - length ds) (concat (map (readable_values p allocation) ss)))
    \<and> list_all2 (\<lambda>ret s. s_hash ret = s_hash s \<and> (\<forall>q. selection_has ret q \<longrightarrow> readable allocation s q)) rets ss
    \<and> concat (map (selected_values p) rets) = take (MAX_READ - length ds) (concat (map (readable_values p allocation) ss))"
proof (induction ss arbitrary: out ds)
  case Nil
  then show ?case by simp
next
  case (Cons s ss)
  let ?v = "readable_values p allocation s"
  from read_selection_eq [OF assms, of allocation s out ds] obtain ret where
    r: "read_selection p allocation s (out, ds) = (out @ [ret], ds @ take (MAX_READ - length ds) ?v)"
      "s_hash ret = s_hash s" "\<forall>q. selection_has ret q \<longrightarrow> readable allocation s q"
      "selected_values p ret = take (MAX_READ - length ds) ?v" by blast
  from Cons.IH [of "out @ [ret]" "ds @ take (MAX_READ - length ds) ?v"] obtain rets where
    rs: "fold (read_selection p allocation) ss (out @ [ret], ds @ take (MAX_READ - length ds) ?v) =
      ((out @ [ret]) @ rets, (ds @ take (MAX_READ - length ds) ?v)
        @ take (MAX_READ - length (ds @ take (MAX_READ - length ds) ?v)) (concat (map (readable_values p allocation) ss)))"
      "list_all2 (\<lambda>ret s. s_hash ret = s_hash s \<and> (\<forall>q. selection_has ret q \<longrightarrow> readable allocation s q)) rets ss"
      "concat (map (selected_values p) rets)
        = take (MAX_READ - length (ds @ take (MAX_READ - length ds) ?v)) (concat (map (readable_values p allocation) ss))"
    by blast
  have n: "MAX_READ - length (ds @ take (MAX_READ - length ds) ?v) = MAX_READ - length ds - length ?v"
    by (simp add: min_def)
  show ?case using r rs unfolding n by (intro exI [of _ "ret # rets"]) simp
qed

text \<open>TPM2_PCR_Read returns the first \<open>MAX_READ\<close> of the selected, allocated registers, and the
  selections it returns select exactly those.\<close>

lemma pcrs_read_eq:
  assumes "pcrs_ok p" and "pcrs_read allocation ss p = (out, ds)"
  shows "ds = take MAX_READ (concat (map (readable_values p allocation) ss))"
    and "concat (map (selected_values p) out) = ds"
    and "list_all2 (\<lambda>ret s. s_hash ret = s_hash s \<and> (\<forall>q. selection_has ret q \<longrightarrow> readable allocation s q)) out ss"
  using fold_read_selection [OF assms(1), of allocation ss "[]" "[]"] assms(2) by (auto simp: pcrs_read_def)

lemma trim_fold:
  fixes allocation :: "selection list"
  assumes "length (s_select t) = PCR_SELECT" and "\<forall>q \<in> set qs. q < PCR_COUNT"
  defines "step \<equiv> (\<lambda>pcr s. if \<not> is_allocated allocation (s_hash s) pcr then selection_set pcr False s else s)"
  shows "s_hash (fold step qs t) = s_hash t
    \<and> (selection_has (fold step qs t) q \<longleftrightarrow> selection_has t q \<and> (q \<in> set qs \<longrightarrow> is_allocated allocation (s_hash t) q))"
  using assms(1,2)
proof (induction qs arbitrary: t)
  case (Cons x qs)
  have "x div 8 < length (s_select t)" using Cons.prems by (auto simp: PCR_SELECT_def PCR_COUNT_def)
  moreover have "length (s_select (step x t)) = PCR_SELECT" using Cons.prems by (simp add: step_def)
  ultimately show ?case using Cons.IH [of "step x t"] Cons.prems(2) by (auto simp: selection_has_set step_def)
qed simp

lemma trim_selection_has:
  assumes "length (s_select s) = PCR_SELECT"
  shows "selection_has (trim_selection allocation s) pcr \<longleftrightarrow> pcr < PCR_COUNT \<and> readable allocation s pcr"
    and "s_hash (trim_selection allocation s) = s_hash s"
proof -
  have "selection_has s pcr \<Longrightarrow> pcr < PCR_COUNT"
    using assms by (auto simp: selection_has_bit PCR_SELECT_def PCR_COUNT_def div_less_iff_less_mult)
  with trim_fold [OF assms, of "[0..<PCR_COUNT]" allocation pcr]
  show "selection_has (trim_selection allocation s) pcr \<longleftrightarrow> pcr < PCR_COUNT \<and> readable allocation s pcr"
    and "s_hash (trim_selection allocation s) = s_hash s"
    by (auto simp: trim_selection_def readable_def)
qed

text \<open>PCRComputeCurrentDigest hashes the values a TPM2_PCR_Read without a limit would return.\<close>

lemma selected_values_trim:
  assumes "pcrs_ok p" and "length (s_select s) = PCR_SELECT"
  shows "selected_values p (trim_selection allocation s) = readable_values p allocation s"
proof -
  have "filter (selection_has (trim_selection allocation s)) [0..<PCR_COUNT] = filter (readable allocation s) [0..<PCR_COUNT]"
    using trim_selection_has(1) [OF assms(2)] by (intro filter_cong) auto
  moreover have "List.map_filter (bank_value p h) qs = map (\<lambda>q. the (bank_value p h q)) qs"
    if "\<forall>q \<in> set qs. q < PCR_COUNT" for h qs
    using that bank_value_Some [OF assms(1), of _ h] by (induction qs) (auto simp: List.map_filter_def)
  ultimately show ?thesis
    using trim_selection_has(2) [OF assms(2)] by (simp add: selected_values_def readable_values_def)
qed

lemma pcrs_digest_eq:
  assumes "pcrs_ok p" and "list_all (\<lambda>s. length (s_select s) = PCR_SELECT) ss"
  shows "snd (pcrs_digest D allocation ss h p) = D h (concat (concat (map (readable_values p allocation) ss)))"
proof -
  have "map (selected_values p) (map (trim_selection allocation) ss) = map (readable_values p allocation) ss"
    using assms(2) by (induction ss) (simp_all add: selected_values_trim [OF assms(1)])
  then show ?thesis by (simp only: pcrs_digest_def hash_digest_def Let_def snd_conv)
qed

end
