(* ===== verification/Tpm_State.thy ===== *)
theory Tpm_State
  imports Tpm_Hier_Types Tpm_Pcr
begin

text \<open>
  \<^verbatim>\<open>vk-tpm/src/state.rs\<close> and the state of \<^verbatim>\<open>vk-tpm/src/lib.rs\<close>: what a TPM keeps across power cycles, what
  it loses, and the encodings of their parts. Keys, sequences and sessions are those of other files:
  the model keeps what its operations read of them (a key's hierarchy and persistent handle, whether
  a session slot is free, loaded or saved), and the rest is of an arbitrary type.
\<close>

section \<open>Shutdown\<close>

record reset_data =
  rs_null_proof :: seed
  rs_null_seed :: seed
  rs_clear_count :: u32
  rs_restart_count :: u32
  rs_object_context_id :: u64
  rs_context_counter :: u64
  rs_saved_sessions :: "(u32 \<times> u64) list"

record saved =
  sa_pcrs :: saved_pcrs
  sa_clear :: clear_state
  sa_reset :: reset_data

datatype shutdown = Shutdown_None | DaUsed | Shutdown_Clear | Shutdown_State saved

fun is_orderly :: "shutdown \<Rightarrow> bool" where
  "is_orderly Shutdown_Clear = True"
| "is_orderly (Shutdown_State _) = True"
| "is_orderly _ = False"

definition MAX_ACTIVE :: nat where "MAX_ACTIVE = 64"
definition MAX_OBJECTS :: nat where "MAX_OBJECTS = 3"

definition reset_data_write :: "reset_data \<Rightarrow> bytes" where
  "reset_data_write d =
     put_tpm2b (rs_null_proof d) @ put_tpm2b (rs_null_seed d) @ to_be_bytes (rs_clear_count d)
     @ to_be_bytes (rs_restart_count d) @ to_be_bytes (rs_object_context_id d)
     @ to_be_bytes (rs_context_counter d) @ put_count (length (rs_saved_sessions d))
     @ concat (map (\<lambda>(i, s). to_be_bytes i @ to_be_bytes s) (rs_saved_sessions d))"

definition reset_data_read :: "(state_error, reset_data) rd" where
  "reset_data_read =
     rd_bind read_seed (\<lambda>null_proof.
     rd_bind read_seed (\<lambda>null_seed.
     rd_bind (rd_state rd_u32) (\<lambda>clear_count.
     rd_bind (rd_state rd_u32) (\<lambda>restart_count.
     rd_bind (rd_state rd_u64) (\<lambda>object_context_id.
     rd_bind (rd_state rd_u64) (\<lambda>context_counter.
     rd_bind (rd_state (rd_count MAX_ACTIVE)) (\<lambda>n.
     rd_bind (rd_times n (rd_bind (rd_state rd_u32) (\<lambda>i. rd_bind (rd_state rd_u64) (\<lambda>s. rd_return (i, s))))) (\<lambda>ss.
     rd_return \<lparr>rs_null_proof = null_proof, rs_null_seed = null_seed, rs_clear_count = clear_count,
       rs_restart_count = restart_count, rs_object_context_id = object_context_id,
       rs_context_counter = context_counter, rs_saved_sessions = ss\<rparr>))))))))"

text \<open>Per bank: the algorithm, then its values, each a TPM2B of that algorithm's size.\<close>

definition write_bank :: "hash \<times> bytes list \<Rightarrow> bytes" where
  "write_bank = (\<lambda>(h, vs). to_be_bytes (hash_id h) @ put_count (length vs) @ concat (map put_tpm2b vs))"

definition write_banks :: "banks \<Rightarrow> bytes" where
  "write_banks bs = put_count (length bs) @ concat (map write_bank bs)"

definition read_value :: "hash \<Rightarrow> (state_error, bytes) rd" where
  "read_value h = rd_bind (rd_state (rd_tpm2b (hash_size h))) (\<lambda>v.
     if length v \<noteq> hash_size h then rd_fail (StateError ''bad PCR size'') else rd_return v)"

definition read_bank :: "nat \<Rightarrow> banks \<Rightarrow> (state_error, hash \<times> bytes list) rd" where
  "read_bank n acc =
     rd_bind (rd_state hash_read) (\<lambda>h.
     if list_ex (\<lambda>(g, _). g = h) acc then rd_fail (StateError ''duplicate bank'')
     else rd_bind (rd_state (rd_count PCR_COUNT)) (\<lambda>c.
     if c \<noteq> n then rd_fail (StateError ''bad PCR count'')
     else rd_bind (rd_times n (read_value h)) (\<lambda>vs. rd_return (h, vs))))"

primrec read_banks_loop :: "nat \<Rightarrow> nat \<Rightarrow> banks \<Rightarrow> (state_error, banks) rd" where
  "read_banks_loop n 0 acc = rd_return acc"
| "read_banks_loop n (Suc k) acc = rd_bind (read_bank n acc) (\<lambda>b. read_banks_loop n k (acc @ [b]))"

definition read_banks :: "nat \<Rightarrow> (state_error, banks) rd" where
  "read_banks n = rd_bind (rd_state (rd_count (length HASH_ALL))) (\<lambda>k. read_banks_loop n k [])"

definition read_allocation :: "(state_error, selection list) rd" where
  "read_allocation = rd_bind (rd_state read_selections) (\<lambda>ss.
     if list_ex (\<lambda>(i, s). list_ex (\<lambda>t. s_hash t = s_hash s) (take i ss)) (enumerate 0 ss)
     then rd_fail (StateError ''duplicate bank'') else rd_return ss)"

definition write_shutdown :: "shutdown \<Rightarrow> bytes" where
  "write_shutdown s =
     (case s of
        Shutdown_None \<Rightarrow> [0]
      | DaUsed \<Rightarrow> [1]
      | Shutdown_Clear \<Rightarrow> [2]
      | Shutdown_State d \<Rightarrow> 3 # to_be_bytes (sp_counter (sa_pcrs d)) @ write_banks (sp_banks (sa_pcrs d))
          @ clear_state_write (sa_clear d) @ reset_data_write (sa_reset d))"

definition read_shutdown :: "(state_error, shutdown) rd" where
  "read_shutdown = rd_bind (rd_state rd_u8) (\<lambda>t.
     if t = 0 then rd_return Shutdown_None
     else if t = 1 then rd_return DaUsed
     else if t = 2 then rd_return Shutdown_Clear
     else if t = 3 then
       rd_bind (rd_state rd_u32) (\<lambda>counter.
       rd_bind (read_banks STATE_SAVED) (\<lambda>banks.
       rd_bind clear_state_read (\<lambda>clear.
       rd_bind reset_data_read (\<lambda>reset.
       rd_return (Shutdown_State \<lparr>sa_pcrs = \<lparr>sp_counter = counter, sp_banks = banks\<rparr>, sa_clear = clear,
         sa_reset = reset\<rparr>)))))
     else rd_fail (StateError ''bad shutdown state''))"

section \<open>The TPM\<close>

record 'x key =
  k_hierarchy :: u32
  k_evict :: "u32 option"
  k_rest :: 'x

datatype ('q, 'x) object = Sequence 'q | Key "'x key"

datatype 's session_slot = Free | Loaded 's | Saved u64

record 'x permanent =
  pm_eps :: seed
  pm_sps :: seed
  pm_pps :: seed
  pm_hierarchies :: hierarchies
  pm_allocation :: "selection list"
  pm_da :: dictionary_attack
  pm_shutdown :: shutdown
  pm_shutdown_time :: u64
  pm_persistent :: "(u32 \<times> 'x key) list"
  pm_reset_count :: u32
  pm_total_reset_count :: u64
  pm_clock :: u64
  pm_clock_safe :: bool
  pm_time_epoch :: u32
  pm_nv :: "nv_index list"
  pm_nv_max_counter :: u64

record ('x, 'q, 's) volatile =
  vo_started :: bool
  vo_orderly_startup :: bool
  vo_time :: u64
  vo_time_reset :: bool
  vo_da_timers :: da_timers
  vo_da_used :: bool
  vo_ph_enable :: bool
  vo_allocation :: "selection list"
  vo_pcr_reconfig :: bool
  vo_clear :: clear_state
  vo_pcrs :: pcrs
  vo_objects :: "('q, 'x) object option list"
  vo_sessions :: "'s session_slot list"
  vo_exclusive_audit :: "u32 option"
  vo_null_proof :: seed
  vo_null_seed :: seed
  vo_clear_count :: u32
  vo_restart_count :: u32
  vo_object_context_id :: u64
  vo_context_counter :: u64
  vo_nv_orderly :: "orderly_ram list"

text \<open>\<open>Tracked\<close> is the permanent state and whether it was accessed mutably since last asked.\<close>

record ('x, 'q, 's) tpm =
  t_permanent :: "'x permanent"
  t_changed :: bool
  t_volatile :: "('x, 'q, 's) volatile"

abbreviation t_nv :: "('x, 'q, 's) tpm \<Rightarrow> nv_index list" where
  "t_nv t \<equiv> pm_nv (t_permanent t)"

abbreviation t_ram :: "('x, 'q, 's) tpm \<Rightarrow> orderly_ram list" where
  "t_ram t \<equiv> vo_nv_orderly (t_volatile t)"

definition permanent_mut :: "('x permanent \<Rightarrow> 'x permanent) \<Rightarrow> ('x, 'q, 's) tpm \<Rightarrow> ('x, 'q, 's) tpm" where
  "permanent_mut f t = t\<lparr>t_permanent := f (t_permanent t), t_changed := True\<rparr>"

definition untracked_mut :: "('x permanent \<Rightarrow> 'x permanent) \<Rightarrow> ('x, 'q, 's) tpm \<Rightarrow> ('x, 'q, 's) tpm" where
  "untracked_mut f t = t\<lparr>t_permanent := f (t_permanent t)\<rparr>"

definition volatile_mut ::
  "(('x, 'q, 's) volatile \<Rightarrow> ('x, 'q, 's) volatile) \<Rightarrow> ('x, 'q, 's) tpm \<Rightarrow> ('x, 'q, 's) tpm" where
  "volatile_mut f t = t\<lparr>t_volatile := f (t_volatile t)\<rparr>"

definition take_permanent_changed :: "('x, 'q, 's) tpm \<Rightarrow> bool \<times> ('x, 'q, 's) tpm" where
  "take_permanent_changed t = (t_changed t, t\<lparr>t_changed := False\<rparr>)"

definition zero_seed :: seed where
  "zero_seed = replicate SEED_SIZE 0"

definition volatile_power_on :: "'x permanent \<Rightarrow> ('x, 'q, 's) volatile" where
  "volatile_power_on p =
     \<lparr>vo_started = False, vo_orderly_startup = False, vo_time = 0, vo_time_reset = True,
      vo_da_timers = da_timers_default, vo_da_used = False, vo_ph_enable = True,
      vo_allocation = pm_allocation p, vo_pcr_reconfig = False, vo_clear = clear_state_default,
      vo_pcrs = pcrs_new, vo_objects = replicate MAX_OBJECTS None, vo_sessions = replicate MAX_ACTIVE Free,
      vo_exclusive_audit = None, vo_null_proof = zero_seed, vo_null_seed = zero_seed, vo_clear_count = 0,
      vo_restart_count = 0, vo_object_context_id = 0, vo_context_counter = 0,
      vo_nv_orderly = orderly_images (pm_nv p)\<rparr>"

text \<open>\<open>Tpm::power_on\<close>, on the permanent state its bytes hold.\<close>

definition tpm_power_on :: "'x permanent \<Rightarrow> ('x, 'q, 's) tpm" where
  "tpm_power_on p = \<lparr>t_permanent = p, t_changed = False, t_volatile = volatile_power_on p\<rparr>"

definition volatile_reset_data :: "('x, 'q, 's) volatile \<Rightarrow> reset_data" where
  "volatile_reset_data v =
     \<lparr>rs_null_proof = vo_null_proof v, rs_null_seed = vo_null_seed v, rs_clear_count = vo_clear_count v,
      rs_restart_count = vo_restart_count v, rs_object_context_id = vo_object_context_id v,
      rs_context_counter = vo_context_counter v,
      rs_saved_sessions = List.map_filter (\<lambda>(i, s). case s of
          Saved sequence \<Rightarrow> map_option (\<lambda>i. (i, sequence)) (u32_try_from i)
        | _ \<Rightarrow> None) (enumerate 0 (vo_sessions v))\<rparr>"

definition clear_orderly :: "('x, 'q, 's) tpm \<Rightarrow> ('x, 'q, 's) tpm" where
  "clear_orderly t =
     (if is_orderly (pm_shutdown (t_permanent t))
      then permanent_mut (pm_shutdown_update (\<lambda>_. if vo_da_used (t_volatile t) then DaUsed else Shutdown_None)) t
      else t)"

text \<open>\<open>u64::saturating_add\<close> and \<open>saturating_sub\<close>.\<close>

definition sat_add_u64 :: "u64 \<Rightarrow> u64 \<Rightarrow> u64" where
  "sat_add_u64 a b = (if unat a + unat b < 2 ^ 64 then a + b else 0xffffffffffffffff)"

definition sat_sub_u64 :: "u64 \<Rightarrow> u64 \<Rightarrow> u64" where
  "sat_sub_u64 a b = (if b \<le> a then a - b else 0)"

definition UPDATE_MASK :: u64 where "UPDATE_MASK = push_bit 12 1 - 1"

text \<open>\<open>update_time\<close>; \<open>now\<close> is what the host's clock says.\<close>

definition update_time :: "u64 \<Rightarrow> ('x, 'q, 's) tpm \<Rightarrow> ('x, 'q, 's) tpm" where
  "update_time now t =
     (let now = max now (vo_time (t_volatile t));
          elapsed = sat_sub_u64 now (vo_time (t_volatile t));
          t = volatile_mut (vo_time_update (\<lambda>_. now)) t;
          clock = sat_add_u64 (pm_clock (t_permanent t)) elapsed
      in untracked_mut (\<lambda>p.
           p\<lparr>pm_clock_safe := if clock OR UPDATE_MASK > pm_clock p OR UPDATE_MASK then True else pm_clock_safe p,
             pm_clock := clock\<rparr>) t)"

section \<open>Encodings\<close>

interpretation saved_session: codec "\<lambda>(i, s). to_be_bytes i @ to_be_bytes s"
  "rd_bind (rd_state rd_u32) (\<lambda>i. rd_bind (rd_state rd_u64) (\<lambda>s. rd_return (i, s)))" "\<lambda>_. True"
  by unfold_locales auto

definition reset_data_ok :: "reset_data \<Rightarrow> bool" where
  "reset_data_ok d \<longleftrightarrow> length (rs_null_proof d) = SEED_SIZE \<and> length (rs_null_seed d) = SEED_SIZE
     \<and> length (rs_saved_sessions d) \<le> MAX_ACTIVE"

interpretation reset_data: codec reset_data_write reset_data_read reset_data_ok
proof unfold_locales
  fix b and d :: reset_data and r
  have "length (rs_saved_sessions d) \<le> MAX_ACTIVE \<Longrightarrow> length (rs_saved_sessions d) < 4294967296"
    by (simp add: MAX_ACTIVE_def)
  then show "reset_data_read b = Inr (d, r) \<longleftrightarrow> b = reset_data_write d @ r \<and> reset_data_ok d"
    by (cases d) (auto simp: reset_data_read_def reset_data_write_def reset_data_ok_def seed.get_iff
        saved_session.times_iff list_all_iff)
qed

lemma hash_size_short: "hash_size h < 65536"
  by (cases h) simp_all

interpretation pcr_value: codec put_tpm2b "read_value h" "\<lambda>v. length v = hash_size h" for h
  by unfold_locales (auto simp: read_value_def hash_size_short)

definition bank_values_ok :: "nat \<Rightarrow> hash \<times> bytes list \<Rightarrow> bool" where
  "bank_values_ok n = (\<lambda>(h, vs). length vs = n \<and> list_all (\<lambda>v. length v = hash_size h) vs)"

lemma read_bank_iff:
  assumes "n \<le> PCR_COUNT"
  shows "read_bank n acc b = Inr (y, r) \<longleftrightarrow> b = write_bank y @ r \<and> bank_values_ok n y \<and> fst y \<notin> set (map fst acc)"
proof -
  obtain h vs where y: "y = (h, vs)" by force
  have n: "n < 4294967296" using assms by (simp add: PCR_COUNT_def)
  have dup: "list_ex (\<lambda>(g, _). g = h) acc \<longleftrightarrow> h \<in> set (map fst acc)" for h
    by (force simp: list_ex_iff)
  show ?thesis
    using assms n unfolding y read_bank_def write_bank_def bank_values_ok_def dup
    by (auto simp: pcr_value.times_iff)
qed

lemma read_banks_loop_iff:
  assumes "n \<le> PCR_COUNT"
  shows "read_banks_loop n k acc b = Inr (xs, r) \<longleftrightarrow>
     (\<exists>ys. xs = acc @ ys \<and> b = concat (map write_bank ys) @ r \<and> length ys = k \<and> list_all (bank_values_ok n) ys
        \<and> distinct (map fst ys) \<and> set (map fst acc) \<inter> set (map fst ys) = {})"
proof (induction k arbitrary: acc b)
  case 0
  then show ?case by auto
next
  case (Suc k)
  let ?d = "\<lambda>ys. distinct (map fst ys) \<and> set (map fst acc) \<inter> set (map fst ys) = {}"
  have "read_banks_loop n (Suc k) acc b = Inr (xs, r) \<longleftrightarrow>
      (\<exists>y r'. (b = write_bank y @ r' \<and> bank_values_ok n y \<and> fst y \<notin> set (map fst acc))
        \<and> read_banks_loop n k (acc @ [y]) r' = Inr (xs, r))"
    by (simp add: read_bank_iff [OF assms])
  also have "\<dots> \<longleftrightarrow> (\<exists>y ys. xs = acc @ y # ys \<and> b = concat (map write_bank (y # ys)) @ r \<and> length ys = k
        \<and> list_all (bank_values_ok n) (y # ys) \<and> ?d (y # ys))"
    unfolding Suc.IH by fastforce
  also have "\<dots> \<longleftrightarrow> (\<exists>ys. xs = acc @ ys \<and> b = concat (map write_bank ys) @ r \<and> length ys = Suc k
        \<and> list_all (bank_values_ok n) ys \<and> ?d ys)"
    unfolding length_Suc_conv by blast
  finally show ?case .
qed

definition banks_ok :: "nat \<Rightarrow> banks \<Rightarrow> bool" where
  "banks_ok n bs \<longleftrightarrow> distinct (map fst bs) \<and> list_all (bank_values_ok n) bs"

lemma distinct_hashes: "distinct (hs :: hash list) \<Longrightarrow> length hs \<le> length HASH_ALL"
  by (metis card_mono distinct_card hash_in_all finite_set length_remdups_card_conv card_length le_trans subsetI)

lemma read_banks_iff:
  assumes "n \<le> PCR_COUNT"
  shows "read_banks n b = Inr (bs, r) \<longleftrightarrow> b = write_banks bs @ r \<and> banks_ok n bs"
proof -
  have "distinct (map fst bs) \<Longrightarrow> length bs \<le> length HASH_ALL \<and> length bs < 4294967296"
    using distinct_hashes [of "map fst bs"] by (auto simp: HASH_ALL_def)
  then show ?thesis
    by (auto simp: read_banks_def write_banks_def banks_ok_def read_banks_loop_iff [OF assms])
qed

interpretation saved_banks: codec write_banks "read_banks STATE_SAVED" "banks_ok STATE_SAVED"
  by unfold_locales (simp add: read_banks_iff STATE_SAVED_def PCR_COUNT_def)

definition saved_state_ok :: "saved \<Rightarrow> bool" where
  "saved_state_ok s \<longleftrightarrow> banks_ok STATE_SAVED (sp_banks (sa_pcrs s)) \<and> clear_state_ok (sa_clear s)
     \<and> reset_data_ok (sa_reset s)"

definition shutdown_ok :: "shutdown \<Rightarrow> bool" where
  "shutdown_ok s = (case s of Shutdown_State d \<Rightarrow> saved_state_ok d | _ \<Rightarrow> True)"

interpretation shutdown: codec write_shutdown read_shutdown shutdown_ok
proof unfold_locales
  fix b s r
  show "read_shutdown b = Inr (s, r) \<longleftrightarrow> b = write_shutdown s @ r \<and> shutdown_ok s"
  proof
    assume "read_shutdown b = Inr (s, r)"
    then show "b = write_shutdown s @ r \<and> shutdown_ok s"
      by (auto simp: read_shutdown_def write_shutdown_def shutdown_ok_def saved_state_ok_def saved_banks.get_iff
          clear_state.get_iff reset_data.get_iff split: if_splits)
  next
    assume "b = write_shutdown s @ r \<and> shutdown_ok s"
    then show "read_shutdown b = Inr (s, r)"
      by (cases s) (simp_all add: read_shutdown_def write_shutdown_def shutdown_ok_def saved_state_ok_def rd_bind_def
          rd_state_def rd_map_err_def rd_return_def saved_banks.get_put clear_state.get_put reset_data.get_put
          del: rd_bind_iff rd_map_err_iff rd_state_iff rd_return_iff rd_guard_iff)
  qed
qed

lemma take_enumerate_distinct:
  "list_ex (\<lambda>(i, s). list_ex (\<lambda>t. f t = f s) (take i ss)) (enumerate 0 ss) \<longleftrightarrow> \<not> distinct (map f ss)"
proof (induction ss rule: rev_induct)
  case (snoc x ss)
  let ?p = "\<lambda>ss (i, s). list_ex (\<lambda>t. f t = f s) (take i ss)"
  have "list_ex (?p (ss @ [x])) (enumerate 0 ss) = list_ex (?p ss) (enumerate 0 ss)"
    by (rule list_ex_cong) (auto simp: in_set_enumerate_eq)
  moreover have "list_ex (\<lambda>t. f t = f x) ss \<longleftrightarrow> f x \<in> f ` set ss" by (simp add: list_ex_iff image_iff) metis
  ultimately show ?case using snoc by (auto simp: enumerate_append_eq)
qed simp

interpretation allocation: codec write_selections read_allocation
  "\<lambda>ss. allocation_ok ss \<and> distinct (map s_hash ss)"
  by unfold_locales (auto simp: read_allocation_def selections.get_iff take_enumerate_distinct)

end
