(* ===== verification/Tpm_Nv.thy ===== *)
theory Tpm_Nv
  imports Tpm_State
begin

text \<open>
  The operations of \<^verbatim>\<open>vk-tpm/src/nv.rs\<close>: NV indices and the commands that use them. A command takes the
  handles it names, its parameter bytes and the TPM, and returns its response parameters or a
  response code, with the TPM afterwards. A binary search is the one of Rust's library, and
  \<open>nv_entry\<close> is proved to be a lookup in a finite map.
\<close>

section \<open>Commands and searches\<close>

definition TPM_RH_OWNER :: u32 where "TPM_RH_OWNER = 0x40000001"
definition TPM_RH_NULL :: u32 where "TPM_RH_NULL = 0x40000007"
definition TPM_RH_LOCKOUT :: u32 where "TPM_RH_LOCKOUT = 0x4000000a"
definition TPM_RH_ENDORSEMENT :: u32 where "TPM_RH_ENDORSEMENT = 0x4000000b"
definition TPM_RH_PLATFORM :: u32 where "TPM_RH_PLATFORM = 0x4000000c"
definition TPM_RH_PLATFORM_NV :: u32 where "TPM_RH_PLATFORM_NV = 0x4000000d"

text \<open>A fallible step of a command before it changed anything: \<open>m?\<close>.\<close>

definition attempt :: "rc + 'a \<Rightarrow> ('a \<Rightarrow> 't \<Rightarrow> (rc + 'b) \<times> 't) \<Rightarrow> 't \<Rightarrow> (rc + 'b) \<times> 't" where
  "attempt m k t = (case m of Inl e \<Rightarrow> (Inl e, t) | Inr x \<Rightarrow> k x t)"

text \<open>\<open>if cond { return Err(e) }\<close>.\<close>

definition refuse :: "bool \<Rightarrow> rc \<Rightarrow> rc + unit" where
  "refuse c e = (if c then Inl e else Inr ())"

definition rd_run :: "(rc, 'a) rd \<Rightarrow> bytes \<Rightarrow> rc + 'a" where
  "rd_run m r = (case m r of Inl e \<Rightarrow> Inl e | Inr (x, _) \<Rightarrow> Inr x)"

definition first_handle :: "u32 list \<Rightarrow> rc + u32" where
  "first_handle hs = ok_or RC_FAILURE (nth_get hs 0)"

definition auth_and_index :: "u32 list \<Rightarrow> rc + u32 \<times> u32" where
  "auth_and_index hs = sum_bind (first_handle hs) (\<lambda>auth.
     sum_bind (ok_or RC_FAILURE (nth_get hs 1)) (\<lambda>index. Inr (auth, index)))"

definition strip_zeros :: "bytes \<Rightarrow> bytes" where
  "strip_zeros b = rev (dropWhile (\<lambda>x. x = 0) (rev b))"

text \<open>The loop of \<open>slice::binary_search_by_key\<close>.\<close>

function bsearch_loop :: "'a::linorder list \<Rightarrow> 'a \<Rightarrow> nat \<Rightarrow> nat \<Rightarrow> nat" where
  "bsearch_loop ks k base sz =
     (if sz \<le> 1 then base
      else let half = sz div 2; mid = base + half
           in bsearch_loop ks k (if ks ! mid > k then base else mid) (sz - half))"
  by auto

termination bsearch_loop
  by (relation "measure (\<lambda>(_, _, _, sz). sz)") auto

definition binary_search :: "'a::linorder list \<Rightarrow> 'a \<Rightarrow> nat option" where
  "binary_search ks k =
     (if ks = [] then None
      else let b = bsearch_loop ks k 0 (length ks) in if ks ! b = k then Some b else None)"

text \<open>\<open>partition_point\<close>, and \<open>iter_mut().find(p)\<close>.\<close>

definition partition_point :: "('a \<Rightarrow> bool) \<Rightarrow> 'a list \<Rightarrow> nat" where
  "partition_point p xs = length (takeWhile p xs)"

definition list_insert :: "nat \<Rightarrow> 'a \<Rightarrow> 'a list \<Rightarrow> 'a list" where
  "list_insert i x xs = take i xs @ x # drop i xs"

fun update_first :: "('a \<Rightarrow> bool) \<Rightarrow> ('a \<Rightarrow> 'a) \<Rightarrow> 'a list \<Rightarrow> 'a list" where
  "update_first p f [] = []"
| "update_first p f (x # xs) = (if p x then f x # xs else x # update_first p f xs)"

section \<open>Looking at an index\<close>

definition nv_position :: "u32 \<Rightarrow> ('x, 'q, 's) tpm \<Rightarrow> nat option" where
  "nv_position index t = binary_search (map ni_index (t_nv t)) index"

definition nv_entry :: "u32 \<Rightarrow> ('x, 'q, 's) tpm \<Rightarrow> nv_index option" where
  "nv_entry index t = do { i \<leftarrow> nv_position index t; nth_get (t_nv t) i }"

definition orderly_ram_of :: "u32 \<Rightarrow> ('x, 'q, 's) tpm \<Rightarrow> orderly_ram option" where
  "orderly_ram_of index t = find (\<lambda>r. or_index r = index) (t_ram t)"

definition nv_public_of :: "u32 \<Rightarrow> ('x, 'q, 's) tpm \<Rightarrow> nv_public option" where
  "nv_public_of index t = do {
     entry \<leftarrow> nv_entry index t;
     let public = ni_public entry;
     Some (case orderly_ram_of index t of
         None \<Rightarrow> public
       | Some r \<Rightarrow> if np_has public ORDERLY then public\<lparr>np_attributes := or_attributes r\<rparr> else public) }"

definition index_public :: "u32 \<Rightarrow> ('x, 'q, 's) tpm \<Rightarrow> rc + nv_public" where
  "index_public index t = ok_or RC_FAILURE (nv_public_of index t)"

definition nv_data :: "u32 \<Rightarrow> ('x, 'q, 's) tpm \<Rightarrow> bytes option" where
  "nv_data index t = do {
     entry \<leftarrow> nv_entry index t;
     Some (case orderly_ram_of index t of
         Some r \<Rightarrow> if np_has (ni_public entry) ORDERLY then or_data r else ni_data entry
       | None \<Rightarrow> ni_data entry) }"

definition nv_auth :: "u32 \<Rightarrow> ('x, 'q, 's) tpm \<Rightarrow> bytes option" where
  "nv_auth index t = map_option (\<lambda>e. strip_zeros (ni_auth e)) (nv_entry index t)"

definition nv_counts :: "('x, 'q, 's) tpm \<Rightarrow> nat \<times> nat" where
  "nv_counts t = (length (t_nv t), length (filter (\<lambda>i. np_kind (ni_public i) = Some Counter) (t_nv t)))"

definition nv_handles :: "('x, 'q, 's) tpm \<Rightarrow> u32 list" where
  "nv_handles t = map ni_index (t_nv t)"

definition nv_counters_available :: "('x, 'q, 's) tpm \<Rightarrow> nat" where
  "nv_counters_available t =
     min (saturating_sub NV_INDEX_SPACE (nv_used (t_nv t)) div saturating_add INDEX_COST 8)
         (saturating_sub RAM_INDEX_SPACE (ram_used (t_nv t)) div saturating_add RAM_HEADER 8)"

definition nv_accessible :: "u32 \<Rightarrow> ('x, 'q, 's) tpm \<Rightarrow> rc + unit" where
  "nv_accessible index t = sum_bind (ok_or RC_HANDLE (nv_public_of index t)) (\<lambda>public.
     let enabled = (if np_has public PLATFORMCREATE then ph_enable_nv (vo_clear (t_volatile t))
                    else sh_enable (vo_clear (t_volatile t)))
     in if enabled then Inr () else Inl RC_HANDLE)"

text \<open>\<open>NvGetUINT64Data\<close>: the first 8 bytes, big-endian.\<close>

definition be_u64 :: "bytes \<Rightarrow> u64" where
  "be_u64 d = (case slice_to d 8 of None \<Rightarrow> 0 | Some b \<Rightarrow> from_be_bytes b)"

definition nv_u64 :: "u32 \<Rightarrow> ('x, 'q, 's) tpm \<Rightarrow> u64" where
  "nv_u64 index t = (case nv_data index t of None \<Rightarrow> 0 | Some d \<Rightarrow> be_u64 d)"

section \<open>Changing an index\<close>

text \<open>\<open>nv_live_mut\<close>: what the attributes and data of an index are, and writing them back where
  they came from.\<close>

definition nv_live :: "u32 \<Rightarrow> ('x, 'q, 's) tpm \<Rightarrow> (u32 \<times> bytes) option" where
  "nv_live index t = do {
     entry \<leftarrow> nv_entry index t;
     (if np_has (ni_public entry) ORDERLY
      then map_option (\<lambda>r. (or_attributes r, or_data r)) (orderly_ram_of index t)
      else Some (np_attributes (ni_public entry), ni_data entry)) }"

definition set_entry :: "u32 \<Rightarrow> bytes \<Rightarrow> nv_index \<Rightarrow> nv_index" where
  "set_entry a d e = e\<lparr>ni_public := (ni_public e)\<lparr>np_attributes := a\<rparr>, ni_data := d\<rparr>"

definition nv_set_live :: "u32 \<Rightarrow> u32 \<Rightarrow> bytes \<Rightarrow> ('x, 'q, 's) tpm \<Rightarrow> ('x, 'q, 's) tpm" where
  "nv_set_live index a d t =
     (case nv_entry index t of
        None \<Rightarrow> t
      | Some entry \<Rightarrow>
          if np_has (ni_public entry) ORDERLY
          then volatile_mut (vo_nv_orderly_update (update_first (\<lambda>r. or_index r = index)
                 (\<lambda>r. r\<lparr>or_attributes := a, or_data := d\<rparr>))) t
          else (case nv_position index t of
                  None \<Rightarrow> t
                | Some i \<Rightarrow> permanent_mut (pm_nv_update (\<lambda>nv. nv[i := set_entry a d (nv ! i)])) t))"

text \<open>One RAM copy stored.\<close>

definition store_ram :: "orderly_ram \<Rightarrow> ('x, 'q, 's) tpm \<Rightarrow> ('x, 'q, 's) tpm" where
  "store_ram r t =
     (case nv_position (or_index r) t of
        None \<Rightarrow> t
      | Some i \<Rightarrow> permanent_mut (pm_nv_update (\<lambda>nv. nv[i := set_entry (or_attributes r) (or_data r) (nv ! i)])) t)"

definition nv_store_orderly :: "('x, 'q, 's) tpm \<Rightarrow> ('x, 'q, 's) tpm" where
  "nv_store_orderly t = fold store_ram (t_ram t) t"

definition nv_set_attributes :: "u32 \<Rightarrow> u32 \<Rightarrow> ('x, 'q, 's) tpm \<Rightarrow> ('x, 'q, 's) tpm" where
  "nv_set_attributes index a t =
     (let t = (case nv_live index t of None \<Rightarrow> t | Some (_, d) \<Rightarrow> nv_set_live index a d t) in
      if a AND ORDERLY \<noteq> 0 then nv_store_orderly (clear_orderly t) else t)"

definition nv_write :: "u32 \<Rightarrow> nat \<Rightarrow> bytes \<Rightarrow> ('x, 'q, 's) tpm \<Rightarrow> (rc + unit) \<times> ('x, 'q, 's) tpm" where
  "nv_write index offset bs t =
     (case nv_live index t of
        None \<Rightarrow> (Inl RC_FAILURE, t)
      | Some (a, d) \<Rightarrow>
          let first = (a AND WRITTEN = 0);
              orderly = (a AND ORDERLY \<noteq> 0);
              kind = kind_of a;
              a = a OR WRITTEN;
              d = (if first \<and> kind = Some Ordinary then replicate (length d) (erased_byte orderly) else d)
          in (case checked_add offset (length bs) of
                None \<Rightarrow> (Inl RC_FAILURE, nv_set_live index a d t)
              | Some e \<Rightarrow>
                  if e > length d then (Inl RC_FAILURE, nv_set_live index a d t)
                  else
                    let t = nv_set_live index a (splice d offset bs) t
                    in (Inr (),
                        if orderly
                        then (let t = clear_orderly t in
                              if first \<and> kind = Some Counter then nv_store_orderly t else t)
                        else t)))"

definition nv_write_u64 :: "u32 \<Rightarrow> u64 \<Rightarrow> ('x, 'q, 's) tpm \<Rightarrow> (rc + unit) \<times> ('x, 'q, 's) tpm" where
  "nv_write_u64 index v t = nv_write index 0 (to_be_bytes v) t"

definition nv_delete :: "u32 \<Rightarrow> ('x, 'q, 's) tpm \<Rightarrow> ('x, 'q, 's) tpm" where
  "nv_delete index t =
     (case nv_public_of index t of
        None \<Rightarrow> t
      | Some public \<Rightarrow>
          let v = nv_u64 index t;
              t = (if np_kind public = Some Counter \<and> np_has public WRITTEN
                   then permanent_mut (pm_nv_max_counter_update (\<lambda>m. max m v)) t else t);
              t = permanent_mut (pm_nv_update (filter (\<lambda>e. ni_index e \<noteq> index))) t;
              t = volatile_mut (vo_nv_orderly_update (filter (\<lambda>r. or_index r \<noteq> index))) t
          in if np_has public ORDERLY then nv_store_orderly t else t)"

definition insert_index :: "nv_index \<Rightarrow> ('x, 'q, 's) tpm \<Rightarrow> ('x, 'q, 's) tpm" where
  "insert_index entry t =
     permanent_mut (pm_nv_update (\<lambda>nv.
       list_insert (partition_point (\<lambda>e. ni_index e < ni_index entry) nv) entry nv)) t"

definition nv_provision :: "nv_public \<Rightarrow> bytes \<Rightarrow> ('x, 'q, 's) tpm \<Rightarrow> (rc + unit) \<times> ('x, 'q, 's) tpm" where
  "nv_provision public d t =
     (if np_has public ORDERLY \<or> length d \<noteq> np_size public \<or> np_kind public = None then (Inl RC_FAILURE, t)
      else
        let entry = \<lparr>ni_public = public, ni_auth = [], ni_data = d\<rparr>;
            index = np_index public;
            replaced = (case nv_entry index t of None \<Rightarrow> 0 | Some e \<Rightarrow> ni_cost e);
            used = saturating_sub (nv_used (t_nv t)) replaced
        in if saturating_add used (ni_cost entry) > NV_INDEX_SPACE then (Inl RC_NV_SPACE, t)
           else (Inr (), insert_index entry (nv_delete index t)))"

definition nv_flush_owner :: "('x, 'q, 's) tpm \<Rightarrow> ('x, 'q, 's) tpm" where
  "nv_flush_owner t =
     fold nv_delete (map ni_index (filter (\<lambda>e. \<not> np_has (ni_public e) PLATFORMCREATE) (t_nv t))) t"

section \<open>Startup\<close>

definition startup_attributes :: "startup \<Rightarrow> u32 \<Rightarrow> u32" where
  "startup_attributes kind attributes =
     (let a = attributes AND NOT READLOCKED;
          a = (if kind_of a \<noteq> Some Counter
                  \<and> (a AND CLEAR_STCLEAR \<noteq> 0 \<or> a AND ORDERLY \<noteq> 0 \<and> kind = Reset)
               then a AND NOT WRITTEN else a)
      in if a AND WRITTEN = 0 \<or> a AND WRITEDEFINE = 0 then a AND NOT WRITELOCKED else a)"

definition startup_entry :: "startup \<Rightarrow> nv_index \<Rightarrow> nv_index" where
  "startup_entry kind e =
     (if np_has (ni_public e) ORDERLY then e
      else e\<lparr>ni_public := (ni_public e)\<lparr>np_attributes := startup_attributes kind (np_attributes (ni_public e))\<rparr>\<rparr>)"

definition startup_ram :: "startup \<Rightarrow> bool \<Rightarrow> orderly_ram \<Rightarrow> orderly_ram" where
  "startup_ram kind orderly r =
     (let r = r\<lparr>or_attributes := startup_attributes kind (or_attributes r)\<rparr> in
      if kind_of (or_attributes r) = Some Counter \<and> \<not> orderly
      then (if length (or_data r) < 8 then r
            else r\<lparr>or_data := splice (or_data r) 0 (to_be_bytes (be_u64 (or_data r) OR MAX_ORDERLY_COUNT))\<rparr>)
      else r)"

definition nv_startup :: "startup \<Rightarrow> bool \<Rightarrow> ('x, 'q, 's) tpm \<Rightarrow> ('x, 'q, 's) tpm" where
  "nv_startup kind orderly t =
     (let t = volatile_mut (vo_nv_orderly_update (\<lambda>_. orderly_images (t_nv t))) t in
      if kind = Resume then t
      else
        let t = permanent_mut (pm_nv_update (map (startup_entry kind))) t
        in volatile_mut (vo_nv_orderly_update (map (startup_ram kind orderly))) t)"

section \<open>Authorization\<close>

definition nv_auth_value_available :: "u32 \<Rightarrow> bool \<Rightarrow> ('x, 'q, 's) tpm \<Rightarrow> bool" where
  "nv_auth_value_available index write t =
     (case nv_public_of index t of
        None \<Rightarrow> False
      | Some public \<Rightarrow>
          if write then np_has public AUTHWRITE
          else if (case np_kind public of None \<Rightarrow> False | Some k \<Rightarrow> is_pin k)
          then (let (count, limit) = pin (case nv_data index t of None \<Rightarrow> [] | Some d \<Rightarrow> d)
                in np_has public WRITTEN \<and> count < limit)
          else np_has public AUTHREAD)"

definition nv_auth_policy_available :: "u32 \<Rightarrow> bool \<Rightarrow> bool \<Rightarrow> ('x, 'q, 's) tpm \<Rightarrow> bool" where
  "nv_auth_policy_available index admin write t =
     (case nv_public_of index t of
        None \<Rightarrow> False
      | Some public \<Rightarrow>
          np_auth_policy public \<noteq> []
          \<and> (if admin then True else if write then np_has public POLICYWRITE else np_has public POLICYREAD))"

definition nv_pin_authorized :: "u32 \<Rightarrow> bool \<Rightarrow> ('x, 'q, 's) tpm \<Rightarrow> (rc + unit) \<times> ('x, 'q, 's) tpm" where
  "nv_pin_authorized index success t =
     (case nv_public_of index t of
        None \<Rightarrow> (Inr (), t)
      | Some public \<Rightarrow>
          if \<not> np_has public WRITTEN then (Inr (), t)
          else
            let (count, limit) = pin (case nv_data index t of None \<Rightarrow> [] | Some d \<Rightarrow> d);
                count' = (case np_kind public of
                    Some PinFail \<Rightarrow> Some (if success then 0 else count + 1)
                  | Some PinPass \<Rightarrow> if success then Some (count + 1) else None
                  | _ \<Rightarrow> None)
            in (case count' of
                  None \<Rightarrow> (Inr (), t)
                | Some c \<Rightarrow> nv_write index 0 (to_be_bytes c @ to_be_bytes limit) t))"

definition nv_is_pin :: "u32 \<Rightarrow> ('x, 'q, 's) tpm \<Rightarrow> bool" where
  "nv_is_pin index t =
     (case nv_public_of index t of
        None \<Rightarrow> False
      | Some p \<Rightarrow> (case np_kind p of None \<Rightarrow> False | Some k \<Rightarrow> is_pin k))"

definition read_access :: "u32 \<Rightarrow> u32 \<Rightarrow> nv_public \<Rightarrow> rc + unit" where
  "read_access auth index public =
     (if np_has public READLOCKED then Inl RC_NV_LOCKED
      else if \<not> (if auth = TPM_RH_OWNER then np_has public OWNERREAD
                 else if auth = TPM_RH_PLATFORM then np_has public PPREAD
                 else auth = index) then Inl RC_NV_AUTHORIZATION
      else if \<not> np_has public WRITTEN then Inl RC_NV_UNINITIALIZED
      else Inr ())"

definition write_access :: "u32 \<Rightarrow> u32 \<Rightarrow> nv_public \<Rightarrow> rc + unit" where
  "write_access auth index public =
     (if np_has public WRITELOCKED then Inl RC_NV_LOCKED
      else if (if auth = TPM_RH_OWNER then np_has public OWNERWRITE
               else if auth = TPM_RH_PLATFORM then np_has public PPWRITE
               else auth = index) then Inr ()
      else Inl RC_NV_AUTHORIZATION)"

end
