(* ===== verification/Tpm_Nv_Commands.thy ===== *)
theory Tpm_Nv_Commands
  imports Tpm_Nv
begin

text \<open>
  The NV commands of \<^verbatim>\<open>vk-tpm/src/nv.rs\<close>. Each parses all of its parameters, checks that none are left
  over, checks what it is asked for, and only then changes the TPM.
\<close>

section \<open>Defining and deleting\<close>

definition kind_attributes_ok :: "nv_kind \<Rightarrow> u32 \<Rightarrow> bool" where
  "kind_attributes_ok k a =
     (case k of
        Counter \<Rightarrow> a AND CLEAR_STCLEAR = 0
      | PinFail \<Rightarrow> a AND NO_DA \<noteq> 0 \<and> a AND AUTHWRITE = 0 \<and> a AND GLOBALLOCK = 0 \<and> a AND WRITEDEFINE = 0
      | PinPass \<Rightarrow> a AND AUTHWRITE = 0 \<and> a AND GLOBALLOCK = 0 \<and> a AND WRITEDEFINE = 0
      | _ \<Rightarrow> True)"

definition attributes_refused :: "nv_kind \<Rightarrow> u32 \<Rightarrow> bool" where
  "attributes_refused k a \<longleftrightarrow>
     \<not> kind_attributes_ok k a \<or> a AND WRITTEN \<noteq> 0 \<or> a AND WRITELOCKED \<noteq> 0 \<or> a AND READLOCKED \<noteq> 0
     \<or> a AND (OWNERREAD OR PPREAD OR AUTHREAD OR POLICYREAD) = 0
     \<or> a AND (OWNERWRITE OR PPWRITE OR AUTHWRITE OR POLICYWRITE) = 0
     \<or> a AND CLEAR_STCLEAR \<noteq> 0 \<and> a AND WRITEDEFINE \<noteq> 0"

definition define_space_parse :: "(rc, bytes \<times> nv_public) rd" where
  "define_space_parse =
     rd_bind (rd_map_err (rc_param 1) (rd_tpm2b MAX_DIGEST)) (\<lambda>auth.
     rd_bind (rd_map_err (rc_param 2) nv_public_read_sized) (\<lambda>public. rd_end (auth, public)))"

text \<open>The checks of \<open>define_space\<close>, up to the index it inserts.\<close>

definition define_space_entry :: "u32 list \<Rightarrow> bytes \<Rightarrow> ('x, 'q, 's) tpm \<Rightarrow> rc + nv_index" where
  "define_space_entry handles r t =
     sum_bind (rd_run define_space_parse r) (\<lambda>(auth, public).
     sum_bind (first_handle handles) (\<lambda>auth_handle.
     let a = np_attributes public; digest_size = hash_size (np_name_alg public) in
     sum_bind (refuse (np_auth_policy public \<noteq> [] \<and> length (np_auth_policy public) \<noteq> digest_size)
       (rc_param 2 RC_SIZE)) (\<lambda>_.
     let auth = strip_zeros auth in
     sum_bind (refuse (length auth > digest_size) (rc_param 1 RC_SIZE)) (\<lambda>_.
     sum_bind (refuse (auth_handle = TPM_RH_PLATFORM \<and> \<not> ph_enable_nv (vo_clear (t_volatile t)))
       (rc_handle 1 RC_HIERARCHY)) (\<lambda>_.
     sum_bind (ok_or (rc_param 2 RC_ATTRIBUTES) (kind_of a)) (\<lambda>kind.
     sum_bind (refuse (\<not> size_fits public) (rc_param 2 RC_SIZE)) (\<lambda>_.
     sum_bind (refuse (attributes_refused kind a) (rc_param 2 RC_ATTRIBUTES)) (\<lambda>_.
     sum_bind (refuse ((a AND PLATFORMCREATE \<noteq> 0) \<noteq> (auth_handle = TPM_RH_PLATFORM)) (rc_handle 1 RC_ATTRIBUTES)) (\<lambda>_.
     sum_bind (refuse (a AND POLICY_DELETE \<noteq> 0 \<and> auth_handle \<noteq> TPM_RH_PLATFORM) (rc_param 2 RC_ATTRIBUTES)) (\<lambda>_.
     sum_bind (refuse (np_size public > MAX_NV_BUFFER_SIZE \<and> a AND WRITEALL \<noteq> 0) (rc_param 2 RC_SIZE)) (\<lambda>_.
     sum_bind (refuse (nv_position (np_index public) t \<noteq> None) RC_NV_DEFINED) (\<lambda>_.
     let entry = \<lparr>ni_public = public, ni_auth = auth,
                   ni_data = replicate (np_size public) (erased_byte (a AND ORDERLY \<noteq> 0))\<rparr> in
     sum_bind (refuse (saturating_add (nv_used (t_nv t)) (ni_cost entry) > NV_INDEX_SPACE) RC_NV_SPACE) (\<lambda>_.
     sum_bind (refuse (np_has public ORDERLY
         \<and> saturating_add (ram_used (t_nv t)) (saturating_add RAM_HEADER (length (ni_data entry))) > RAM_INDEX_SPACE)
       RC_NV_SPACE) (\<lambda>_.
     Inr entry))))))))))))))"

definition define_space :: "u32 list \<Rightarrow> bytes \<Rightarrow> ('x, 'q, 's) tpm \<Rightarrow> (rc + bytes) \<times> ('x, 'q, 's) tpm" where
  "define_space handles r t =
     attempt (define_space_entry handles r t) (\<lambda>entry t.
       let public = ni_public entry; t = insert_index entry t in
       (Inr [],
        if np_has public ORDERLY
        then nv_store_orderly (volatile_mut (vo_nv_orderly_update (\<lambda>ram.
               ram @ [\<lparr>or_index = np_index public, or_attributes = np_attributes public,
                       or_data = replicate (np_size public) 0\<rparr>])) t)
        else t)) t"

definition undefine_space_check :: "u32 list \<Rightarrow> bytes \<Rightarrow> ('x, 'q, 's) tpm \<Rightarrow> rc + u32" where
  "undefine_space_check handles r t =
     sum_bind (rd_run (rd_end ()) r) (\<lambda>_.
     sum_bind (auth_and_index handles) (\<lambda>(auth, index).
     sum_bind (index_public index t) (\<lambda>public.
     sum_bind (refuse (np_has public POLICY_DELETE) (rc_handle 2 RC_ATTRIBUTES)) (\<lambda>_.
     sum_bind (refuse (auth = TPM_RH_OWNER \<and> np_has public PLATFORMCREATE) RC_NV_AUTHORIZATION) (\<lambda>_.
     Inr index)))))"

definition undefine_space :: "u32 list \<Rightarrow> bytes \<Rightarrow> ('x, 'q, 's) tpm \<Rightarrow> (rc + bytes) \<times> ('x, 'q, 's) tpm" where
  "undefine_space handles r t = attempt (undefine_space_check handles r t) (\<lambda>index t. (Inr [], nv_delete index t)) t"

definition undefine_space_special_check :: "u32 list \<Rightarrow> bytes \<Rightarrow> ('x, 'q, 's) tpm \<Rightarrow> rc + u32" where
  "undefine_space_special_check handles r t =
     sum_bind (rd_run (rd_end ()) r) (\<lambda>_.
     sum_bind (first_handle handles) (\<lambda>index.
     sum_bind (index_public index t) (\<lambda>public.
     sum_bind (refuse (\<not> np_has public POLICY_DELETE) (rc_handle 1 RC_ATTRIBUTES)) (\<lambda>_. Inr index))))"

definition undefine_space_special ::
  "u32 list \<Rightarrow> bytes \<Rightarrow> ('x, 'q, 's) tpm \<Rightarrow> (rc + bytes) \<times> ('x, 'q, 's) tpm" where
  "undefine_space_special handles r t =
     attempt (undefine_space_special_check handles r t) (\<lambda>index t. (Inr [], nv_delete index t)) t"

section \<open>Reading and writing\<close>

definition read_public :: "digest_fun \<Rightarrow> u32 list \<Rightarrow> bytes \<Rightarrow> ('x, 'q, 's) tpm \<Rightarrow> (rc + bytes) \<times> ('x, 'q, 's) tpm" where
  "read_public D handles r t =
     attempt (sum_bind (rd_run (rd_end ()) r) (\<lambda>_. sum_bind (first_handle handles) (\<lambda>index. index_public index t)))
       (\<lambda>public t. (Inr (put_tpm2b (nv_public_write public) @ put_tpm2b (nv_name D public)), t)) t"

text \<open>The answer of a command that only writes.\<close>

definition answer :: "(rc + unit) \<times> 't \<Rightarrow> (rc + bytes) \<times> 't" where
  "answer = (\<lambda>(x, t). (case x of Inl e \<Rightarrow> Inl e | Inr _ \<Rightarrow> Inr [], t))"

definition write_parse :: "(rc, bytes \<times> u16) rd" where
  "write_parse =
     rd_bind (rd_map_err (rc_param 1) (rd_tpm2b MAX_NV_BUFFER_SIZE)) (\<lambda>d.
     rd_bind (rd_map_err (rc_param 2) rd_u16) (\<lambda>offset. rd_end (d, offset)))"

definition write_check :: "u32 list \<Rightarrow> bytes \<Rightarrow> ('x, 'q, 's) tpm \<Rightarrow> rc + u32 \<times> nat \<times> bytes" where
  "write_check handles r t =
     sum_bind (rd_run write_parse r) (\<lambda>(d, off).
     let offset = unat off in
     sum_bind (auth_and_index handles) (\<lambda>(auth, index).
     sum_bind (index_public index t) (\<lambda>public.
     sum_bind (write_access auth index public) (\<lambda>_.
     sum_bind (refuse (np_kind public \<in> {Some Counter, Some Bits, Some Extend}) RC_ATTRIBUTES) (\<lambda>_.
     sum_bind (refuse (offset > np_size public) (rc_param 2 RC_VALUE)) (\<lambda>_.
     sum_bind (refuse (length d > saturating_sub (np_size public) offset) RC_NV_RANGE) (\<lambda>_.
     sum_bind (refuse (np_has public WRITEALL \<and> length d < np_size public) RC_NV_RANGE) (\<lambda>_.
     Inr (index, offset, d)))))))))"

definition nv_write_command :: "u32 list \<Rightarrow> bytes \<Rightarrow> ('x, 'q, 's) tpm \<Rightarrow> (rc + bytes) \<times> ('x, 'q, 's) tpm" where
  "nv_write_command handles r t =
     attempt (write_check handles r t) (\<lambda>(index, offset, d) t. answer (nv_write index offset d t)) t"

definition write_target ::
  "nv_kind \<Rightarrow> u32 list \<Rightarrow> ('x, 'q, 's) tpm \<Rightarrow> rc + u32 \<times> nv_public" where
  "write_target kind handles t =
     sum_bind (auth_and_index handles) (\<lambda>(auth, index).
     sum_bind (index_public index t) (\<lambda>public.
     sum_bind (write_access auth index public) (\<lambda>_.
     sum_bind (refuse (np_kind public \<noteq> Some kind) (rc_handle 2 RC_ATTRIBUTES)) (\<lambda>_.
     Inr (index, public)))))"

definition nv_increment :: "u32 list \<Rightarrow> bytes \<Rightarrow> ('x, 'q, 's) tpm \<Rightarrow> (rc + bytes) \<times> ('x, 'q, 's) tpm" where
  "nv_increment handles r t =
     attempt (sum_bind (rd_run (rd_end ()) r) (\<lambda>_. write_target Counter handles t)) (\<lambda>(index, public) t.
       let value = (if np_has public WRITTEN then nv_u64 index t else pm_nv_max_counter (t_permanent t));
           value = value + 1 in
       (case nv_write_u64 index value t of
          (Inl e, t) \<Rightarrow> (Inl e, t)
        | (Inr _, t) \<Rightarrow>
            (Inr [], if np_has public ORDERLY \<and> value AND MAX_ORDERLY_COUNT = 0 then nv_store_orderly t else t))) t"

definition nv_extend :: "digest_fun \<Rightarrow> u32 list \<Rightarrow> bytes \<Rightarrow> ('x, 'q, 's) tpm \<Rightarrow> (rc + bytes) \<times> ('x, 'q, 's) tpm" where
  "nv_extend D handles r t =
     attempt (sum_bind (rd_run (rd_bind (rd_map_err (rc_param 1) (rd_tpm2b MAX_NV_BUFFER_SIZE)) rd_end) r)
       (\<lambda>d. sum_bind (write_target Extend handles t) (\<lambda>(index, public). Inr (d, index, public))))
       (\<lambda>(d, index, public) t.
         let h = np_name_alg public;
             old = (if np_has public WRITTEN then (case nv_data index t of None \<Rightarrow> [] | Some d \<Rightarrow> d)
                    else replicate (hash_size h) 0)
         in answer (nv_write index 0 (hash_digest D h [old, d]) t)) t"

definition nv_set_bits :: "u32 list \<Rightarrow> bytes \<Rightarrow> ('x, 'q, 's) tpm \<Rightarrow> (rc + bytes) \<times> ('x, 'q, 's) tpm" where
  "nv_set_bits handles r t =
     attempt (sum_bind (rd_run (rd_bind (rd_map_err (rc_param 1) rd_u64) rd_end) r)
       (\<lambda>bits. sum_bind (write_target Bits handles t) (\<lambda>(index, public). Inr (bits, index, public))))
       (\<lambda>(bits, index, public) t.
         let old = (if np_has public WRITTEN then nv_u64 index t else 0)
         in answer (nv_write_u64 index (old OR bits) t)) t"

definition read_parse :: "(rc, u16 \<times> u16) rd" where
  "read_parse =
     rd_bind (rd_map_err (rc_param 1) rd_u16) (\<lambda>sz.
     rd_bind (rd_map_err (rc_param 2) rd_u16) (\<lambda>offset. rd_end (sz, offset)))"

definition read_check :: "u32 list \<Rightarrow> bytes \<Rightarrow> ('x, 'q, 's) tpm \<Rightarrow> rc + bytes" where
  "read_check handles r t =
     sum_bind (rd_run read_parse r) (\<lambda>(s, off).
     let sz = unat s; offset = unat off in
     sum_bind (auth_and_index handles) (\<lambda>(auth, index).
     sum_bind (index_public index t) (\<lambda>public.
     sum_bind (read_access auth index public) (\<lambda>_.
     sum_bind (refuse (sz > MAX_NV_BUFFER_SIZE) (rc_param 1 RC_VALUE)) (\<lambda>_.
     sum_bind (refuse (offset > np_size public) (rc_param 2 RC_VALUE)) (\<lambda>_.
     sum_bind (refuse (sz > saturating_sub (np_size public) offset) RC_NV_RANGE) (\<lambda>_.
     let d = (case nv_data index t of None \<Rightarrow> [] | Some d \<Rightarrow> d) in
     sum_bind (ok_or RC_FAILURE (slice_get d offset (saturating_add offset sz))) (\<lambda>b.
     Inr (put_tpm2b b)))))))))"

definition nv_read_command :: "u32 list \<Rightarrow> bytes \<Rightarrow> ('x, 'q, 's) tpm \<Rightarrow> (rc + bytes) \<times> ('x, 'q, 's) tpm" where
  "nv_read_command handles r t = (read_check handles r t, t)"

section \<open>Locks and authorization\<close>

definition nv_write_lock :: "u32 list \<Rightarrow> bytes \<Rightarrow> ('x, 'q, 's) tpm \<Rightarrow> (rc + bytes) \<times> ('x, 'q, 's) tpm" where
  "nv_write_lock handles r t =
     attempt (sum_bind (rd_run (rd_end ()) r) (\<lambda>_. sum_bind (auth_and_index handles) (\<lambda>(auth, index).
       sum_bind (index_public index t) (\<lambda>public. Inr (auth, index, public)))))
       (\<lambda>(auth, index, public) t.
         case write_access auth index public of
           Inl e \<Rightarrow> if e = RC_NV_AUTHORIZATION then (Inl e, t) else (Inr [], t)
         | Inr _ \<Rightarrow>
             if \<not> np_has public WRITEDEFINE \<and> \<not> np_has public WRITE_STCLEAR
             then (Inl (rc_handle 2 RC_ATTRIBUTES), t)
             else (Inr [], nv_set_attributes index (np_attributes public OR WRITELOCKED) t)) t"

definition nv_read_lock :: "u32 list \<Rightarrow> bytes \<Rightarrow> ('x, 'q, 's) tpm \<Rightarrow> (rc + bytes) \<times> ('x, 'q, 's) tpm" where
  "nv_read_lock handles r t =
     attempt (sum_bind (rd_run (rd_end ()) r) (\<lambda>_. sum_bind (auth_and_index handles) (\<lambda>(auth, index).
       sum_bind (index_public index t) (\<lambda>public. Inr (auth, index, public)))))
       (\<lambda>(auth, index, public) t.
         if read_access auth index public = Inl RC_NV_AUTHORIZATION then (Inl RC_NV_AUTHORIZATION, t)
         else if read_access auth index public = Inl RC_NV_LOCKED then (Inr [], t)
         else if \<not> np_has public READ_STCLEAR then (Inl (rc_handle 2 RC_ATTRIBUTES), t)
         else (Inr [], nv_set_attributes index (np_attributes public OR READLOCKED) t)) t"

definition global_lock :: "u32 \<Rightarrow> ('x, 'q, 's) tpm \<Rightarrow> ('x, 'q, 's) tpm" where
  "global_lock index t =
     (case nv_public_of index t of
        None \<Rightarrow> t
      | Some public \<Rightarrow>
          if np_has public GLOBALLOCK
          then nv_set_attributes index (np_attributes public OR WRITELOCKED) t else t)"

definition nv_global_write_lock :: "bytes \<Rightarrow> ('x, 'q, 's) tpm \<Rightarrow> (rc + bytes) \<times> ('x, 'q, 's) tpm" where
  "nv_global_write_lock r t =
     attempt (rd_run (rd_end ()) r) (\<lambda>_ t. (Inr [], fold global_lock (nv_handles t) t)) t"

definition nv_change_auth :: "u32 list \<Rightarrow> bytes \<Rightarrow> ('x, 'q, 's) tpm \<Rightarrow> (rc + bytes) \<times> ('x, 'q, 's) tpm" where
  "nv_change_auth handles r t =
     attempt (sum_bind (rd_run (rd_bind (rd_map_err (rc_param 1) (rd_tpm2b MAX_DIGEST)) rd_end) r) (\<lambda>auth.
       sum_bind (first_handle handles) (\<lambda>index.
       sum_bind (index_public index t) (\<lambda>public.
       let auth = strip_zeros auth in
       sum_bind (refuse (length auth > hash_size (np_name_alg public)) (rc_param 1 RC_SIZE)) (\<lambda>_.
       sum_bind (ok_or RC_FAILURE (nv_position index t)) (\<lambda>i. Inr (i, auth)))))))
       (\<lambda>(i, auth) t. (Inr [], permanent_mut (pm_nv_update (\<lambda>nv. nv[i := (nv ! i)\<lparr>ni_auth := auth\<rparr>])) t)) t"

end
