(* ===== verification/Tpm_Nv_Map.thy ===== *)
theory Tpm_Nv_Map
  imports Tpm_Nv_Commands
begin

text \<open>
  The NV indices as finite maps. A binary search over the sorted indices is a lookup, and a change of
  one position is a change of one key. \<open>nv_ok\<close> is what every list of indices with its RAM copies
  satisfies; the operations that neither define nor delete an index only change what \<open>nv_same\<close> lets
  them change, and so keep it.
\<close>

section \<open>Search\<close>

declare bsearch_loop.simps [simp del]

lemma bsearch_loop_bounds:
  assumes "sorted ks" and "1 \<le> sz" and "base + sz \<le> length ks"
    and "base = 0 \<or> ks ! base \<le> k" and "base + sz < length ks \<longrightarrow> k < ks ! (base + sz)"
  shows "bsearch_loop ks k base sz < length ks
    \<and> (bsearch_loop ks k base sz = 0 \<or> ks ! bsearch_loop ks k base sz \<le> k)
    \<and> (Suc (bsearch_loop ks k base sz) < length ks \<longrightarrow> k < ks ! Suc (bsearch_loop ks k base sz))"
  using assms
proof (induction ks k base sz rule: bsearch_loop.induct)
  case (1 ks k base sz)
  show ?case
  proof (cases "sz \<le> 1")
    case True
    have "bsearch_loop ks k base sz = base" using True by (subst bsearch_loop.simps) simp
    then show ?thesis using True 1(2-) by (auto simp: le_Suc_eq)
  next
    case False
    let ?h = "sz div 2"
    have h: "1 \<le> sz - ?h" "?h \<le> sz" using False by linarith+
    show ?thesis
    proof (cases "k < ks ! (base + ?h)")
      case True
      have "bsearch_loop ks k base sz = bsearch_loop ks k base (sz - ?h)"
        using False True by (subst bsearch_loop.simps) (simp add: Let_def)
      moreover have "base + (sz - ?h) < length ks \<longrightarrow> k < ks ! (base + (sz - ?h))"
      proof
        assume l: "base + (sz - ?h) < length ks"
        have "ks ! (base + ?h) \<le> ks ! (base + (sz - ?h))"
          by (rule sorted_nth_mono) (use 1(2) l in auto)
        with True show "k < ks ! (base + (sz - ?h))" by order
      qed
      ultimately show ?thesis using 1(1) [OF False refl refl] True h 1(2-) by simp
    next
      case ge: False
      have e: "base + ?h + (sz - ?h) = base + sz" by simp
      have "bsearch_loop ks k base sz = bsearch_loop ks k (base + ?h) (sz - ?h)"
        using False ge by (subst bsearch_loop.simps) (simp add: Let_def)
      then show ?thesis using 1(1) [OF False refl refl] ge h 1(2-) e by (simp add: not_less)
    qed
  qed
qed

lemma binary_search_Some:
  assumes "sorted_wrt (<) ks"
  shows "binary_search ks k = Some i \<longleftrightarrow> i < length ks \<and> ks ! i = k"
proof (cases "ks = []")
  case False
  define m where "m = bsearch_loop ks k 0 (length ks)"
  have s: "sorted ks" using assms by (simp add: strict_sorted_iff)
  have b: "m < length ks" "m = 0 \<or> ks ! m \<le> k" "Suc m < length ks \<longrightarrow> k < ks ! Suc m"
    using bsearch_loop_bounds [OF s, of "length ks" 0 k] False unfolding m_def by (auto simp: Suc_leI)
  have "i = m" if "i < length ks" "ks ! i = k" for i
  proof (rule ccontr)
    assume "i \<noteq> m"
    then consider "i < m" | "Suc m \<le> i" by linarith
    then show False
    proof cases
      case 1
      then have "ks ! i < ks ! m" using assms b(1) sorted_wrt_nth_less by blast
      then show False using b(2) 1 that(2) by auto
    next
      case 2
      then have "ks ! Suc m \<le> ks ! i" using s sorted_nth_mono that(1) by blast
      moreover have "Suc m < length ks" using 2 that(1) by simp
      ultimately show False using b(3) that(2) by auto
    qed
  qed
  then have "i < length ks \<and> ks ! i = k \<longleftrightarrow> i = m \<and> ks ! m = k" using b(1) by blast
  moreover have "binary_search ks k = (if ks ! m = k then Some m else None)"
    using False by (simp add: binary_search_def Let_def m_def)
  ultimately show ?thesis by auto
qed (simp add: binary_search_def)

section \<open>Lists with keys\<close>

definition update_key :: "('a \<Rightarrow> 'k) \<Rightarrow> 'k \<Rightarrow> ('a \<Rightarrow> 'a) \<Rightarrow> 'a list \<Rightarrow> 'a list" where
  "update_key key k f xs = map (\<lambda>x. if key x = k then f x else x) xs"

lemma update_first_key:
  "distinct (map key xs) \<Longrightarrow> update_first (\<lambda>x. key x = k) f xs = update_key key k f xs"
proof (induction xs)
  case (Cons x xs)
  then have "map (\<lambda>y. if key y = key x then f y else y) xs = xs" by (intro map_idI) (auto simp: image_iff)
  with Cons show ?case by (auto simp: update_key_def)
qed (simp add: update_key_def)

lemma list_update_key:
  assumes "distinct (map key xs)" and "i < length xs" and "key (xs ! i) = k"
  shows "xs[i := f (xs ! i)] = update_key key k f xs"
proof (rule nth_equalityI)
  fix j assume "j < length (xs[i := f (xs ! i)])"
  then have j: "j < length xs" by simp
  have "key (xs ! j) = k \<longleftrightarrow> j = i" using assms j by (auto simp: distinct_conv_nth)
  then show "xs[i := f (xs ! i)] ! j = update_key key k f xs ! j" using j by (auto simp: update_key_def)
qed (simp add: update_key_def)

lemma find_key:
  assumes "distinct (map key xs)"
  shows "find (\<lambda>x. key x = k) xs = Some x \<longleftrightarrow> x \<in> set xs \<and> key x = k"
  using assms by (induction xs) (simp, force)

section \<open>What an index keeps\<close>

text \<open>Attributes that differ at most in the bits that change after the definition.\<close>

definition agree :: "u32 \<Rightarrow> u32 \<Rightarrow> bool" where
  "agree a b \<longleftrightarrow> a AND NOT CHANGING = b AND NOT CHANGING"

lemma agree_xor: "(a XOR b) AND NOT CHANGING = 0 \<longleftrightarrow> agree a b"
  by (auto simp: agree_def bit_eq_iff bit_simps)

lemma agree_refl [simp]: "agree a a"
  and agree_sym: "agree a b \<Longrightarrow> agree b a"
  and agree_trans: "agree a b \<Longrightarrow> agree b c \<Longrightarrow> agree a c"
  by (simp_all add: agree_def)

lemma agree_and:
  assumes "agree a b" and "x AND CHANGING = 0"
  shows "a AND x = b AND x"
proof (rule bit_eqI)
  fix n assume "possible_bit TYPE(32 word) n"
  then have n: "n < 32" by simp
  have "bit (a AND NOT CHANGING) n = bit (b AND NOT CHANGING) n" "\<not> bit (x AND CHANGING) n"
    using assms by (simp_all add: agree_def)
  with n show "bit (a AND x) n = bit (b AND x) n" by (auto simp: bit_simps)
qed

text \<open>The attributes a definition fixes.\<close>

lemma fixed_attributes [simp]:
  "ORDERLY AND CHANGING = 0" "PLATFORMCREATE AND CHANGING = 0" "TPM_NT AND CHANGING = 0"
  "NV_RESERVED AND CHANGING = 0" "GLOBALLOCK AND CHANGING = 0" "WRITEDEFINE AND CHANGING = 0"
  "CLEAR_STCLEAR AND CHANGING = 0" "WRITEALL AND CHANGING = 0" "POLICY_DELETE AND CHANGING = 0"
  by (simp_all add: CHANGING_def nv_attr_defs)

lemma agree_or:
  "x AND NOT CHANGING = 0 \<Longrightarrow> agree (a OR x) b \<longleftrightarrow> agree a b"
  "x AND NOT CHANGING = 0 \<Longrightarrow> agree b (a OR x) \<longleftrightarrow> agree b a"
  by (auto simp: agree_def bit.conj_disj_distrib2)

lemma agree_clear:
  assumes "x AND NOT CHANGING = 0"
  shows "agree (a AND NOT x) b \<longleftrightarrow> agree a b" and "agree b (a AND NOT x) \<longleftrightarrow> agree b a"
proof -
  have "NOT x AND NOT CHANGING = NOT CHANGING"
  proof (rule bit_eqI)
    fix n assume "possible_bit TYPE(32 word) n"
    moreover have "\<not> bit (x AND NOT CHANGING) n" using assms by simp
    ultimately show "bit (NOT x AND NOT CHANGING) n = bit (NOT CHANGING) n" by (auto simp: bit_simps)
  qed
  then have "(a AND NOT x) AND NOT CHANGING = a AND NOT CHANGING" by (simp add: and.assoc)
  then show "agree (a AND NOT x) b \<longleftrightarrow> agree a b" "agree b (a AND NOT x) \<longleftrightarrow> agree b a"
    by (simp_all add: agree_def)
qed

lemma changing_bits [simp]:
  "WRITTEN AND NOT CHANGING = 0" "WRITELOCKED AND NOT CHANGING = 0" "READLOCKED AND NOT CHANGING = 0"
  by (simp_all add: CHANGING_def nv_attr_defs)

lemma kind_of_agree: "agree a b \<Longrightarrow> kind_of a = kind_of b"
  using agree_and [of a b TPM_NT] by (simp add: kind_of_def)

lemma agree_startup: "agree (startup_attributes kind a) a"
  by (simp add: startup_attributes_def Let_def agree_clear)

definition same_index :: "nv_index \<Rightarrow> nv_index \<Rightarrow> bool" where
  "same_index e e' \<longleftrightarrow> ni_public e' = (ni_public e)\<lparr>np_attributes := np_attributes (ni_public e')\<rparr>
     \<and> agree (np_attributes (ni_public e)) (np_attributes (ni_public e'))
     \<and> length (ni_data e') = length (ni_data e)
     \<and> (length (ni_auth e) \<le> MAX_DIGEST \<longrightarrow> length (ni_auth e') \<le> MAX_DIGEST)"

definition same_ram :: "orderly_ram \<Rightarrow> orderly_ram \<Rightarrow> bool" where
  "same_ram r r' \<longleftrightarrow> or_index r' = or_index r \<and> agree (or_attributes r) (or_attributes r')
     \<and> length (or_data r') = length (or_data r)"

lemma same_index_refl [simp]: "same_index e e"
  and same_ram_refl [simp]: "same_ram r r"
  by (simp_all add: same_index_def same_ram_def)

lemma same_index_trans: "same_index e f \<Longrightarrow> same_index f g \<Longrightarrow> same_index e g"
  unfolding same_index_def by (metis (no_types, lifting) agree_trans nv_public.fold_congs(3) nv_public.surjective nv_public.update_convs(3))

lemma same_ram_trans: "same_ram r s \<Longrightarrow> same_ram s u \<Longrightarrow> same_ram r u"
  unfolding same_ram_def by (metis agree_trans)

lemma same_index_facts:
  assumes "same_index e e'"
  shows "ni_index e' = ni_index e" and "np_has (ni_public e') ORDERLY = np_has (ni_public e) ORDERLY"
    and "np_kind (ni_public e') = np_kind (ni_public e)" and "np_size (ni_public e') = np_size (ni_public e)"
    and "nv_index_ok e \<Longrightarrow> nv_index_ok e'" and "ni_cost e' = ni_cost e"
    and "length (ni_data e') = length (ni_data e)"
    and "agree (np_attributes (ni_public e)) (np_attributes (ni_public e'))"
proof -
  obtain a where p: "ni_public e' = (ni_public e)\<lparr>np_attributes := a\<rparr>"
    and g: "agree (np_attributes (ni_public e)) a"
    and l: "length (ni_data e') = length (ni_data e)"
    and u: "length (ni_auth e) \<le> MAX_DIGEST \<longrightarrow> length (ni_auth e') \<le> MAX_DIGEST"
    using assms unfolding same_index_def by blast
  show "ni_index e' = ni_index e" and s: "np_size (ni_public e') = np_size (ni_public e)"
    by (simp_all add: p np_size_def)
  show k: "np_kind (ni_public e') = np_kind (ni_public e)" using kind_of_agree [OF g] by (simp add: p np_kind_def)
  show o': "np_has (ni_public e') ORDERLY = np_has (ni_public e) ORDERLY"
    using agree_and [OF g, of ORDERLY] by (simp add: p np_has_def)
  show "ni_cost e' = ni_cost e" by (simp add: ni_cost_def o' l)
  show "length (ni_data e') = length (ni_data e)" by (rule l)
  show "agree (np_attributes (ni_public e)) (np_attributes (ni_public e'))" using g by (simp add: p)
  have n: "np_name_alg (ni_public e') = np_name_alg (ni_public e)" by (simp add: p)
  have "size_fits (ni_public e') = size_fits (ni_public e)" unfolding size_fits_def k s n ..
  moreover have "nv_public_ok (ni_public e') = nv_public_ok (ni_public e)"
    using agree_and [OF g, of NV_RESERVED] by (simp add: p nv_public_ok_def np_size_def)
  ultimately show "nv_index_ok e \<Longrightarrow> nv_index_ok e'" using s l u by (simp add: nv_index_ok_def)
qed

section \<open>The invariant\<close>

text \<open>The RAM copies: one for each orderly index, of its attributes and its size.\<close>

definition ram_ok :: "nv_index list \<Rightarrow> orderly_ram list \<Rightarrow> bool" where
  "ram_ok is ram \<longleftrightarrow> distinct (map or_index ram) \<and> (\<forall>r \<in> set ram. is_copy is r)
     \<and> (\<forall>e \<in> set is. np_has (ni_public e) ORDERLY \<longrightarrow> ni_index e \<in> or_index ` set ram)"

definition nv_ok :: "('x, 'q, 's) tpm \<Rightarrow> bool" where
  "nv_ok t \<longleftrightarrow> nv_list_ok (t_nv t) \<and> ram_ok (t_nv t) (t_ram t)"

lemma is_copy_iff:
  "is_copy is r \<longleftrightarrow> (\<exists>e \<in> set is. ni_index e = or_index r \<and> np_has (ni_public e) ORDERLY
     \<and> agree (np_attributes (ni_public e)) (or_attributes r) \<and> length (or_data r) = np_size (ni_public e))"
  by (auto simp: is_copy_def list_ex_iff agree_xor)

lemma is_copy_same:
  assumes "list_all2 same_index is is'" and "same_ram r r'" and "is_copy is r"
  shows "is_copy is' r'"
proof -
  from assms(3) obtain e where e: "e \<in> set is" "ni_index e = or_index r" "np_has (ni_public e) ORDERLY"
    "agree (np_attributes (ni_public e)) (or_attributes r)" "length (or_data r) = np_size (ni_public e)"
    by (auto simp: is_copy_iff)
  from assms(1) e(1) obtain e' where e': "e' \<in> set is'" "same_index e e'"
    by (metis in_set_conv_nth list_all2_conv_all_nth)
  note f = same_index_facts [OF e'(2)]
  from assms(2) have r: "or_index r' = or_index r" "agree (or_attributes r) (or_attributes r')"
    "length (or_data r') = length (or_data r)" by (simp_all add: same_ram_def)
  have "agree (np_attributes (ni_public e')) (or_attributes r')"
    using f(8) e(4) r(2) by (metis agree_sym agree_trans)
  then show ?thesis unfolding is_copy_iff using e e'(1) f(1,2,4) r(1,3) by metis
qed

lemma list_all2_map_eq: "list_all2 R xs ys \<Longrightarrow> (\<And>x y. R x y \<Longrightarrow> f y = f x) \<Longrightarrow> map f ys = map f xs"
  by (induction rule: list_all2_induct) auto

lemma ram_ok_same:
  assumes "list_all2 same_index is is'" and "list_all2 same_ram ram ram'" and "ram_ok is ram"
  shows "ram_ok is' ram'"
proof -
  have m: "map or_index ram' = map or_index ram"
    by (rule list_all2_map_eq [OF assms(2)]) (simp add: same_ram_def)
  have i: "or_index ` set ram' = or_index ` set ram" by (metis m list.set_map)
  have "is_copy is' r'" if r': "r' \<in> set ram'" for r'
  proof -
    from assms(2) r' obtain r where "r \<in> set ram" "same_ram r r'"
      by (metis in_set_conv_nth list_all2_conv_all_nth)
    then show ?thesis using is_copy_same [OF assms(1)] assms(3) by (auto simp: ram_ok_def)
  qed
  moreover have "ni_index e' \<in> or_index ` set ram'" if e': "e' \<in> set is'" "np_has (ni_public e') ORDERLY" for e'
  proof -
    from assms(1) e'(1) obtain e where e: "e \<in> set is" "same_index e e'"
      by (metis in_set_conv_nth list_all2_conv_all_nth)
    note f = same_index_facts(1,2) [OF e(2)]
    have "ni_index e \<in> or_index ` set ram" using assms(3) e(1) e'(2) f(2) by (simp add: ram_ok_def)
    then show ?thesis using f(1) i by simp
  qed
  ultimately show ?thesis using assms(3) m by (simp add: ram_ok_def)
qed

lemma filter_same: "list_all2 R xs ys \<Longrightarrow> (\<And>x y. R x y \<Longrightarrow> p y = p x) \<Longrightarrow> list_all2 R (filter p xs) (filter p ys)"
  by (induction rule: list_all2_induct) auto

lemma nv_list_ok_same:
  assumes "list_all2 same_index is is'" and "nv_list_ok is"
  shows "nv_list_ok is'"
proof -
  have "map ni_index is' = map ni_index is" "map ni_cost is' = map ni_cost is"
    by (rule list_all2_map_eq [OF assms(1)], simp add: same_index_facts)+
  moreover have "list_all nv_index_ok is'"
    using assms same_index_facts(5)
    by (auto simp: nv_list_ok_def list_all2_conv_all_nth list_all_length)
  moreover have "list_all2 same_index (filter (\<lambda>i. np_has (ni_public i) ORDERLY) is)
      (filter (\<lambda>i. np_has (ni_public i) ORDERLY) is')"
    by (rule filter_same [OF assms(1)]) (simp add: same_index_facts)
  from list_all2_map_eq [OF this, of "\<lambda>i. saturating_add RAM_HEADER (length (ni_data i))"]
  have "ram_used is' = ram_used is" by (simp add: ram_used_def same_index_facts)
  ultimately show ?thesis using assms(2) by (simp add: nv_list_ok_def nv_used_def)
qed

text \<open>States whose indices and copies differ only in what writing and locking change.\<close>

definition nv_same :: "('x, 'q, 's) tpm \<Rightarrow> ('x, 'q, 's) tpm \<Rightarrow> bool" where
  "nv_same t t' \<longleftrightarrow> list_all2 same_index (t_nv t) (t_nv t') \<and> list_all2 same_ram (t_ram t) (t_ram t')"

lemma nv_same_refl [simp]: "nv_same t t"
  by (simp add: nv_same_def list_all2_refl)

lemma all_same_trans:
  "list_all2 same_index xs ys \<Longrightarrow> list_all2 same_index ys zs \<Longrightarrow> list_all2 same_index xs zs"
  "list_all2 same_ram rs ss \<Longrightarrow> list_all2 same_ram ss us \<Longrightarrow> list_all2 same_ram rs us"
  by (erule (1) list_all2_trans [rotated], erule (1) same_index_trans)
    (erule (1) list_all2_trans [rotated], erule (1) same_ram_trans)

lemma nv_same_trans [trans]: "nv_same t u \<Longrightarrow> nv_same u v \<Longrightarrow> nv_same t v"
  unfolding nv_same_def using all_same_trans by blast

lemma nv_ok_same: "nv_same t t' \<Longrightarrow> nv_ok t \<Longrightarrow> nv_ok t'"
  unfolding nv_same_def nv_ok_def using nv_list_ok_same ram_ok_same by blast

lemma nv_same_cong: "t_nv t' = t_nv t \<Longrightarrow> t_ram t' = t_ram t \<Longrightarrow> nv_same t t'"
  by (simp add: nv_same_def list_all2_refl)

end
