(* ===== verification/Tpm_Nv_Live.thy ===== *)
theory Tpm_Nv_Live
  imports Tpm_Nv_Map
begin

text \<open>
  What the NV operations do, in terms of lookups. \<open>nv_live\<close> abstracts the two places an index lives in,
  the stored list and the RAM copies, to one map from an index to its attributes and data, and
  every operation is an update of that map. Storing the RAM copies does not change it.
\<close>

section \<open>Projections\<close>

lemma permanent_mut_simps [simp]:
  "t_permanent (permanent_mut f t) = f (t_permanent t)"
  "t_changed (permanent_mut f t) = True"
  "t_volatile (permanent_mut f t) = t_volatile t"
  by (simp_all add: permanent_mut_def)

lemma volatile_mut_simps [simp]:
  "t_permanent (volatile_mut g t) = t_permanent t"
  "t_changed (volatile_mut g t) = t_changed t"
  "t_volatile (volatile_mut g t) = g (t_volatile t)"
  by (simp_all add: volatile_mut_def)

lemma untracked_mut_simps [simp]:
  "t_permanent (untracked_mut f t) = f (t_permanent t)"
  "t_changed (untracked_mut f t) = t_changed t"
  "t_volatile (untracked_mut f t) = t_volatile t"
  by (simp_all add: untracked_mut_def)

lemma clear_orderly_simps [simp]:
  "t_nv (clear_orderly t) = t_nv t" "t_ram (clear_orderly t) = t_ram t"
  "t_volatile (clear_orderly t) = t_volatile t"
  "pm_nv_max_counter (t_permanent (clear_orderly t)) = pm_nv_max_counter (t_permanent t)"
  by (simp_all add: clear_orderly_def)

lemma clear_orderly_not [simp]: "\<not> is_orderly (pm_shutdown (t_permanent (clear_orderly t)))"
  by (simp add: clear_orderly_def)

section \<open>Lookups\<close>

lemma nv_ok_distinct:
  assumes "nv_ok t"
  shows "distinct (map ni_index (t_nv t))" and "distinct (map or_index (t_ram t))"
    and "sorted_wrt (<) (map ni_index (t_nv t))"
  using assms by (auto simp: nv_ok_def nv_list_ok_def ram_ok_def strict_sorted_iff)

lemma nv_position_Some:
  "nv_ok t \<Longrightarrow> nv_position i t = Some n \<longleftrightarrow> n < length (t_nv t) \<and> ni_index (t_nv t ! n) = i"
  using binary_search_Some [OF nv_ok_distinct(3), of t i n] by (auto simp: nv_position_def)

lemma nv_entry_Some:
  assumes "nv_ok t"
  shows "nv_entry i t = Some e \<longleftrightarrow> e \<in> set (t_nv t) \<and> ni_index e = i"
  using nv_position_Some [OF assms] nv_ok_distinct(1) [OF assms]
  by (auto simp: nv_entry_def Option.bind_eq_Some_conv nth_get_eq_Some in_set_conv_nth)

lemma nv_entry_find:
  assumes "nv_ok t"
  shows "nv_entry i t = find (\<lambda>e. ni_index e = i) (t_nv t)"
  by (rule option_eqI) (simp add: nv_entry_Some [OF assms] find_key [OF nv_ok_distinct(1) [OF assms]])

lemma orderly_ram_Some:
  "nv_ok t \<Longrightarrow> orderly_ram_of i t = Some r \<longleftrightarrow> r \<in> set (t_ram t) \<and> or_index r = i"
  by (simp add: orderly_ram_of_def find_key [OF nv_ok_distinct(2)])

lemma orderly_ram_iff:
  assumes "nv_ok t" and "nv_entry i t = Some e"
  shows "np_has (ni_public e) ORDERLY \<longleftrightarrow> (\<exists>r. orderly_ram_of i t = Some r)"
    and "orderly_ram_of i t = Some r \<Longrightarrow> agree (np_attributes (ni_public e)) (or_attributes r)
           \<and> length (or_data r) = np_size (ni_public e)"
proof -
  have e: "e \<in> set (t_nv t)" "ni_index e = i" using assms nv_entry_Some by auto
  have u: "e' = e" if "e' \<in> set (t_nv t)" "ni_index e' = i" for e'
    using assms that nv_entry_Some by (metis option.inject)
  have c: "np_has (ni_public e) ORDERLY \<and> agree (np_attributes (ni_public e)) (or_attributes r)
      \<and> length (or_data r) = np_size (ni_public e)" if "orderly_ram_of i t = Some r" for r
  proof -
    have "is_copy (t_nv t) r" "or_index r = i"
      using that assms(1) by (auto simp: orderly_ram_Some nv_ok_def ram_ok_def)
    then show ?thesis using u unfolding is_copy_iff by blast
  qed
  then show "orderly_ram_of i t = Some r \<Longrightarrow> agree (np_attributes (ni_public e)) (or_attributes r)
      \<and> length (or_data r) = np_size (ni_public e)" by blast
  show "np_has (ni_public e) ORDERLY \<longleftrightarrow> (\<exists>r. orderly_ram_of i t = Some r)"
    using c e assms(1) by (auto simp: orderly_ram_Some nv_ok_def ram_ok_def) (metis imageE)
qed

lemma nv_live_cong:
  "nv_entry i t' = nv_entry i t \<Longrightarrow> orderly_ram_of i t' = orderly_ram_of i t \<Longrightarrow> nv_live i t' = nv_live i t"
  by (cases "nv_entry i t") (simp_all add: nv_live_def)

lemma nv_live_cases:
  assumes "nv_ok t"
  obtains (absent) "nv_entry i t = None" "nv_live i t = None" "nv_public_of i t = None" "nv_data i t = None"
  | (stored) e where "nv_entry i t = Some e" "\<not> np_has (ni_public e) ORDERLY" "orderly_ram_of i t = None"
      "nv_live i t = Some (np_attributes (ni_public e), ni_data e)" "nv_public_of i t = Some (ni_public e)"
      "nv_data i t = Some (ni_data e)"
  | (orderly) e r where "nv_entry i t = Some e" "np_has (ni_public e) ORDERLY" "orderly_ram_of i t = Some r"
      "nv_live i t = Some (or_attributes r, or_data r)"
      "nv_public_of i t = Some ((ni_public e)\<lparr>np_attributes := or_attributes r\<rparr>)" "nv_data i t = Some (or_data r)"
      "agree (np_attributes (ni_public e)) (or_attributes r)" "length (or_data r) = np_size (ni_public e)"
proof (cases "nv_entry i t")
  case None
  then show ?thesis using absent by (simp add: nv_live_def nv_public_of_def nv_data_def)
next
  case (Some e)
  note o' = orderly_ram_iff [OF assms Some]
  show ?thesis
  proof (cases "orderly_ram_of i t")
    case None
    then show ?thesis using stored [OF Some] o' Some
      by (auto simp: nv_live_def nv_public_of_def nv_data_def Let_def)
  next
    case r: (Some r)
    then show ?thesis using orderly [OF Some] o' Some
      by (auto simp: nv_live_def nv_public_of_def nv_data_def Let_def)
  qed
qed

text \<open>The public area shows the attributes of the live copy, and the size of its data.\<close>

lemma nv_public_live:
  assumes "nv_ok t" and "nv_public_of i t = Some p"
  obtains d where "nv_live i t = Some (np_attributes p, d)" "nv_data i t = Some d" "length d = np_size p"
    "np_index p = i" "size_fits p" "is_nv_index i"
proof -
  have k: "nv_index_ok e" if "nv_entry i t = Some e" for e
    using assms(1) that nv_entry_Some [OF assms(1)] by (auto simp: nv_ok_def nv_list_ok_def list_all_iff)
  show ?thesis using assms(1)
  proof (cases rule: nv_live_cases [where i = i])
    case absent
    then show ?thesis using assms(2) by simp
  next
    case (stored e)
    then show ?thesis using that assms k [OF stored(1)] nv_entry_Some [OF assms(1)]
      by (auto simp: nv_index_ok_def nv_public_ok_def)
  next
    case (orderly e r)
    have "size_fits ((ni_public e)\<lparr>np_attributes := or_attributes r\<rparr>)"
      using k [OF orderly(1)] kind_of_agree [OF orderly(7)]
      by (auto simp: nv_index_ok_def size_fits_def np_kind_def np_size_def split: option.splits nv_kind.splits)
    then show ?thesis using that assms k [OF orderly(1)] nv_entry_Some [OF assms(1)] orderly
      by (auto simp: nv_index_ok_def nv_public_ok_def np_size_def)
  qed
qed

section \<open>Setting an index, and storing the copies\<close>

text \<open>Everything but the indices, their copies, the counter floor and the kind of shutdown.\<close>

definition nv_rest :: "('x, 'q, 's) tpm \<Rightarrow> 'x permanent \<times> ('x, 'q, 's) volatile" where
  "nv_rest t = ((t_permanent t)\<lparr>pm_nv := [], pm_nv_max_counter := 0, pm_shutdown := Shutdown_None\<rparr>,
     (t_volatile t)\<lparr>vo_nv_orderly := []\<rparr>)"

lemma nv_rest_simps [simp]:
  "nv_rest (permanent_mut (pm_nv_update f) t) = nv_rest t"
  "nv_rest (permanent_mut (pm_nv_max_counter_update g) t) = nv_rest t"
  "nv_rest (permanent_mut (pm_shutdown_update h) t) = nv_rest t"
  "nv_rest (volatile_mut (vo_nv_orderly_update k) t) = nv_rest t"
  by (cases "t_permanent t"; cases "t_volatile t"; simp add: nv_rest_def)+

lemma nv_rest_clear_orderly [simp]: "nv_rest (clear_orderly t) = nv_rest t"
  by (simp add: clear_orderly_def)

lemma find_update_key:
  assumes "\<And>x. key (f x) = key x"
  shows "find (\<lambda>x. key x = j) (update_key key k f xs) = map_option (\<lambda>x. if key x = k then f x else x) (find (\<lambda>x. key x = j) xs)"
  by (induction xs) (auto simp: update_key_def assms)

lemma set_entry_simps [simp]:
  "ni_index (set_entry a d e) = ni_index e" "ni_data (set_entry a d e) = d" "ni_auth (set_entry a d e) = ni_auth e"
  "ni_public (set_entry a d e) = (ni_public e)\<lparr>np_attributes := a\<rparr>"
  by (simp_all add: set_entry_def)

lemma same_set_entry:
  "same_index e (set_entry a d e) \<longleftrightarrow> agree (np_attributes (ni_public e)) a \<and> length d = length (ni_data e)"
  by (auto simp: same_index_def)

lemma list_all2_update_key:
  "(\<And>x. R x x) \<Longrightarrow> (\<And>x. x \<in> set xs \<Longrightarrow> key x = k \<Longrightarrow> R x (f x)) \<Longrightarrow> list_all2 R xs (update_key key k f xs)"
  by (auto simp: update_key_def list_all2_conv_all_nth)

lemma nv_update_position:
  assumes "sorted_wrt (<) (map ni_index (t_nv t))"
  shows "t_nv (case nv_position i t of None \<Rightarrow> t | Some n \<Rightarrow> permanent_mut (pm_nv_update (\<lambda>nv. nv[n := f (nv ! n)])) t)
     = update_key ni_index i f (t_nv t)"
proof (cases "nv_position i t")
  case None
  then have "i \<notin> set (map ni_index (t_nv t))"
    using binary_search_Some [OF assms, of i] by (auto simp: nv_position_def in_set_conv_nth) blast
  then have "update_key ni_index i f (t_nv t) = t_nv t" unfolding update_key_def by (intro map_idI) auto
  then show ?thesis using None by simp
next
  case (Some n)
  then have "n < length (t_nv t)" "ni_index (t_nv t ! n) = i"
    using binary_search_Some [OF assms, of i n] by (auto simp: nv_position_def)
  then show ?thesis
    using Some list_update_key [of ni_index "t_nv t" n i f] assms by (simp add: strict_sorted_iff)
qed

lemma nv_set_live_nv:
  assumes "nv_ok t" and "nv_entry i t = Some e"
  shows "t_nv (nv_set_live i a d t) =
      (if np_has (ni_public e) ORDERLY then t_nv t else update_key ni_index i (set_entry a d) (t_nv t))"
    and "t_ram (nv_set_live i a d t) =
      (if np_has (ni_public e) ORDERLY then update_key or_index i (\<lambda>r. r\<lparr>or_attributes := a, or_data := d\<rparr>) (t_ram t)
       else t_ram t)"
    and "nv_rest (nv_set_live i a d t) = nv_rest t"
    and "pm_shutdown (t_permanent (nv_set_live i a d t)) = pm_shutdown (t_permanent t)"
    and "pm_nv_max_counter (t_permanent (nv_set_live i a d t)) = pm_nv_max_counter (t_permanent t)"
  using nv_update_position [OF nv_ok_distinct(3) [OF assms(1)], where i = i and f = "set_entry a d"] assms(2)
    update_first_key [OF nv_ok_distinct(2) [OF assms(1)], where k = i and f = "\<lambda>r. r\<lparr>or_attributes := a, or_data := d\<rparr>"]
  by (auto simp: nv_set_live_def split: option.split)

lemma nv_set_live_ok:
  assumes ok: "nv_ok t" and live: "nv_live i t = Some (a0, d0)" and a: "agree a0 a" and d: "length d = length d0"
  shows "nv_same t (nv_set_live i a d t)"
    and "nv_live j (nv_set_live i a d t) = (if j = i then Some (a, d) else nv_live j t)"
proof -
  obtain e where e: "nv_entry i t = Some e" using live by (auto simp: nv_live_def Option.bind_eq_Some_conv)
  note eff = nv_set_live_nv [OF ok e, of a d]
  show same: "nv_same t (nv_set_live i a d t)" using ok
  proof (cases rule: nv_live_cases [where i = i])
    case (stored e')
    have "list_all2 same_index (t_nv t) (update_key ni_index i (set_entry a d) (t_nv t))"
    proof (rule list_all2_update_key)
      fix x assume "x \<in> set (t_nv t)" "ni_index x = i"
      then have "x = e" using e nv_entry_Some [OF ok] by (metis option.inject)
      then show "same_index x (set_entry a d x)" using stored e live a d by (simp add: same_set_entry)
    qed simp
    then show ?thesis using eff stored e by (simp add: nv_same_def list_all2_refl)
  next
    case (orderly e' r)
    have "list_all2 same_ram (t_ram t) (update_key or_index i (\<lambda>r. r\<lparr>or_attributes := a, or_data := d\<rparr>) (t_ram t))"
    proof (rule list_all2_update_key)
      fix x assume "x \<in> set (t_ram t)" "or_index x = i"
      then have "x = r" using orderly(3) orderly_ram_Some [OF ok] by (metis option.inject)
      then show "same_ram x (x\<lparr>or_attributes := a, or_data := d\<rparr>)"
        using orderly live a d by (simp add: same_ram_def)
    qed simp
    then show ?thesis using eff orderly e by (simp add: nv_same_def list_all2_refl)
  qed (use live in simp)
  note ok' = nv_ok_same [OF same ok]
  have o': "orderly_ram_of j (nv_set_live i a d t) = map_option (\<lambda>r. if np_has (ni_public e) ORDERLY \<and> or_index r = i
      then r\<lparr>or_attributes := a, or_data := d\<rparr> else r) (orderly_ram_of j t)"
    by (simp add: orderly_ram_of_def eff find_update_key option.map_ident)
  have n': "nv_entry j (nv_set_live i a d t) = map_option (\<lambda>x. if \<not> np_has (ni_public e) ORDERLY \<and> ni_index x = i
      then set_entry a d x else x) (nv_entry j t)"
    by (simp add: nv_entry_find [OF ok] nv_entry_find [OF ok'] eff find_update_key option.map_ident)
  have k: "np_has ((ni_public e)\<lparr>np_attributes := a\<rparr>) ORDERLY = np_has (ni_public e) ORDERLY"
    if "a0 = np_attributes (ni_public e)"
    using agree_and [of a0 a ORDERLY] that a by (simp add: np_has_def)
  have x: "ni_index e = i" using e nv_entry_Some [OF ok] by simp
  show "nv_live j (nv_set_live i a d t) = (if j = i then Some (a, d) else nv_live j t)"
  proof (cases "j = i")
    case True
    show ?thesis using ok
    proof (cases rule: nv_live_cases [where i = i])
      case (stored e')
      then have o: "\<not> np_has (ni_public e) ORDERLY" and a0: "a0 = np_attributes (ni_public e)" using e live by auto
      show ?thesis using True e x o k [OF a0] n' by (simp add: nv_live_def)
    next
      case (orderly e' r)
      then have "or_index r = i" using orderly_ram_Some [OF ok] by simp
      with orderly(1-3) show ?thesis using True e x n' o' by (simp add: nv_live_def)
    qed (use live in simp)
  next
    case False
    have "nv_entry j (nv_set_live i a d t) = nv_entry j t"
      using False unfolding n' by (intro option.map_ident_strong) (auto simp: nv_entry_Some [OF ok])
    moreover have "orderly_ram_of j (nv_set_live i a d t) = orderly_ram_of j t"
      using False unfolding o' by (intro option.map_ident_strong) (auto simp: orderly_ram_Some [OF ok])
    ultimately have "nv_live j (nv_set_live i a d t) = nv_live j t" by (rule nv_live_cong)
    then show ?thesis using False by simp
  qed
qed

text \<open>What storing the RAM copies makes of an entry.\<close>

definition stored_entry :: "orderly_ram list \<Rightarrow> nv_index \<Rightarrow> nv_index" where
  "stored_entry ram e =
     (case find (\<lambda>r. or_index r = ni_index e) ram of
        None \<Rightarrow> e
      | Some r \<Rightarrow> set_entry (or_attributes r) (or_data r) e)"

lemma ni_index_stored [simp]: "ni_index (stored_entry ram e) = ni_index e"
  by (simp add: stored_entry_def split: option.split)

lemma store_ram_facts [simp]:
  "t_ram (store_ram r t) = t_ram t" "nv_rest (store_ram r t) = nv_rest t"
  "pm_shutdown (t_permanent (store_ram r t)) = pm_shutdown (t_permanent t)"
  "pm_nv_max_counter (t_permanent (store_ram r t)) = pm_nv_max_counter (t_permanent t)"
  by (simp_all add: store_ram_def split: option.split)

lemma fold_store_ram:
  assumes "distinct (map or_index rs)" and "sorted_wrt (<) (map ni_index (t_nv t))"
  shows "t_nv (fold store_ram rs t) = map (stored_entry rs) (t_nv t)"
    and "t_ram (fold store_ram rs t) = t_ram t" and "nv_rest (fold store_ram rs t) = nv_rest t"
    and "pm_shutdown (t_permanent (fold store_ram rs t)) = pm_shutdown (t_permanent t)"
    and "pm_nv_max_counter (t_permanent (fold store_ram rs t)) = pm_nv_max_counter (t_permanent t)"
proof -
  show "t_nv (fold store_ram rs t) = map (stored_entry rs) (t_nv t)"
    using assms
  proof (induction rs arbitrary: t)
    case Nil
    then show ?case by (simp add: stored_entry_def map_idI)
  next
    case (Cons r rs)
    let ?s = "set_entry (or_attributes r) (or_data r)"
    have u: "t_nv (store_ram r t) = update_key ni_index (or_index r) ?s (t_nv t)"
      unfolding store_ram_def by (rule nv_update_position [OF Cons.prems(2)])
    moreover have "map ni_index (update_key ni_index (or_index r) ?s (t_nv t)) = map ni_index (t_nv t)"
      by (simp add: update_key_def)
    moreover have "map (stored_entry rs) (update_key ni_index (or_index r) ?s (t_nv t)) = map (stored_entry (r # rs)) (t_nv t)"
      unfolding update_key_def map_map o_def
    proof (rule map_cong [OF refl])
      fix e
      have "or_index r = ni_index e \<Longrightarrow> find (\<lambda>x. or_index x = ni_index e) rs = None"
        using Cons.prems(1) by (auto simp: find_None_iff image_iff)
      then show "stored_entry rs (if ni_index e = or_index r then ?s e else e) = stored_entry (r # rs) e"
        by (auto simp: stored_entry_def)
    qed
    ultimately show ?case using Cons by simp
  qed
  show "t_ram (fold store_ram rs t) = t_ram t" and "nv_rest (fold store_ram rs t) = nv_rest t"
    and "pm_shutdown (t_permanent (fold store_ram rs t)) = pm_shutdown (t_permanent t)"
    and "pm_nv_max_counter (t_permanent (fold store_ram rs t)) = pm_nv_max_counter (t_permanent t)"
    by (induction rs arbitrary: t) simp_all
qed

lemma nv_store_orderly_facts:
  assumes "nv_ok t"
  shows "t_nv (nv_store_orderly t) = map (stored_entry (t_ram t)) (t_nv t)"
    and "t_ram (nv_store_orderly t) = t_ram t" and "nv_rest (nv_store_orderly t) = nv_rest t"
    and "pm_shutdown (t_permanent (nv_store_orderly t)) = pm_shutdown (t_permanent t)"
    and "pm_nv_max_counter (t_permanent (nv_store_orderly t)) = pm_nv_max_counter (t_permanent t)"
  using fold_store_ram [OF nv_ok_distinct(2,3) [OF assms]] by (simp_all add: nv_store_orderly_def)

lemma find_map_key: "(\<And>x. key (f x) = key x) \<Longrightarrow> find (\<lambda>x. key x = k) (map f xs) = map_option f (find (\<lambda>x. key x = k) xs)"
  by (induction xs) auto

lemma nv_store_orderly_ok:
  assumes ok: "nv_ok t"
  shows "nv_same t (nv_store_orderly t)" and "nv_live j (nv_store_orderly t) = nv_live j t"
    and "nv_entry j (nv_store_orderly t) = map_option (stored_entry (t_ram t)) (nv_entry j t)"
    and "orderly_ram_of j (nv_store_orderly t) = orderly_ram_of j t"
proof -
  note eff = nv_store_orderly_facts [OF ok]
  have s: "same_index e (stored_entry (t_ram t) e)" if e: "e \<in> set (t_nv t)" for e
  proof (cases "orderly_ram_of (ni_index e) t")
    case (Some r)
    have "nv_entry (ni_index e) t = Some e" using e nv_entry_Some [OF ok] by simp
    from orderly_ram_iff(2) [OF ok this Some] Some e ok show ?thesis
      by (auto simp: stored_entry_def orderly_ram_of_def same_set_entry nv_ok_def nv_list_ok_def list_all_iff nv_index_ok_def)
  qed (simp add: stored_entry_def orderly_ram_of_def)
  then show same: "nv_same t (nv_store_orderly t)"
    by (auto simp: nv_same_def eff list_all2_refl list_all2_conv_all_nth)
  show entry: "nv_entry j (nv_store_orderly t) = map_option (stored_entry (t_ram t)) (nv_entry j t)"
    using nv_entry_find [OF nv_ok_same [OF same ok]] nv_entry_find [OF ok]
    by (simp add: eff find_map_key)
  show ram: "orderly_ram_of j (nv_store_orderly t) = orderly_ram_of j t" by (simp add: orderly_ram_of_def eff)
  show "nv_live j (nv_store_orderly t) = nv_live j t" using ok
  proof (cases rule: nv_live_cases [where i = j])
    case absent
    then show ?thesis by (simp add: nv_live_def entry)
  next
    case (stored e)
    then have "stored_entry (t_ram t) e = e"
      using nv_entry_Some [OF ok] by (auto simp: stored_entry_def orderly_ram_of_def)
    then show ?thesis using stored entry ram by (intro nv_live_cong) simp_all
  next
    case (orderly e r)
    then have "np_has (ni_public (stored_entry (t_ram t) e)) ORDERLY"
      using nv_entry_Some [OF ok] same_index_facts(2) [OF s] by simp
    then show ?thesis using orderly entry ram by (simp add: nv_live_def [of j "nv_store_orderly t"])
  qed
qed

section \<open>Writing and locking\<close>

text \<open>A recorded shutdown stays, or is not orderly any more.\<close>

definition voids :: "('x, 'q, 's) tpm \<Rightarrow> ('x, 'q, 's) tpm \<Rightarrow> bool" where
  "voids t t' \<longleftrightarrow> pm_shutdown (t_permanent t') = pm_shutdown (t_permanent t) \<or> \<not> is_orderly (pm_shutdown (t_permanent t'))"

lemma voids_refl [simp]: "voids t t"
  and voids_trans: "voids t u \<Longrightarrow> voids u v \<Longrightarrow> voids t v"
  and voids_clear_orderly [simp]: "voids t (clear_orderly u)"
  by (auto simp: voids_def)

text \<open>What an operation on one live index does: nothing but that index, and possibly the kind of
  shutdown, changes.\<close>

definition nv_updates :: "u32 \<Rightarrow> u32 \<Rightarrow> bytes \<Rightarrow> ('x, 'q, 's) tpm \<Rightarrow> ('x, 'q, 's) tpm \<Rightarrow> bool" where
  "nv_updates i a d t t' \<longleftrightarrow> nv_same t t' \<and> (\<forall>j. nv_live j t' = (if j = i then Some (a, d) else nv_live j t))
     \<and> nv_rest t' = nv_rest t \<and> pm_nv_max_counter (t_permanent t') = pm_nv_max_counter (t_permanent t)
     \<and> voids t t'"

lemma nv_updates_set_live:
  assumes "nv_ok t" and "nv_live i t = Some (a0, d0)" and "agree a0 a" and "length d = length d0"
  shows "nv_updates i a d t (nv_set_live i a d t)"
proof -
  obtain e where e: "nv_entry i t = Some e" using assms(2) by (auto simp: nv_live_def Option.bind_eq_Some_conv)
  show ?thesis
    using nv_set_live_ok [OF assms] nv_set_live_nv(3-5) [OF assms(1) e] by (simp add: nv_updates_def voids_def)
qed

lemma nv_live_clear_orderly [simp]: "nv_live j (clear_orderly t) = nv_live j t"
  by (rule nv_live_cong) (simp_all add: nv_entry_def nv_position_def orderly_ram_of_def)

lemma nv_updates_clear_orderly: "nv_updates i a d t u \<Longrightarrow> nv_updates i a d t (clear_orderly u)"
  by (simp add: nv_updates_def nv_same_def)

lemma nv_updates_store:
  assumes "nv_ok t" and "nv_updates i a d t u"
  shows "nv_updates i a d t (nv_store_orderly u)"
proof -
  have "nv_ok u" using assms nv_ok_same by (auto simp: nv_updates_def)
  note s = nv_store_orderly_ok [OF this] nv_store_orderly_facts [OF this]
  show ?thesis using assms(2) s nv_same_trans by (auto simp: nv_updates_def voids_def)
qed

lemma nv_set_attributes_updates:
  assumes "nv_ok t" and "nv_live i t = Some (a0, d)" and "agree a0 a"
  shows "nv_updates i a d t (nv_set_attributes i a t)"
  using nv_updates_set_live [OF assms refl] assms(2)
  by (simp add: nv_set_attributes_def Let_def nv_updates_clear_orderly nv_updates_store [OF assms(1)])

definition written_data :: "u32 \<Rightarrow> bytes \<Rightarrow> bytes" where
  "written_data a d = (if a AND WRITTEN = 0 \<and> kind_of a = Some Ordinary
     then replicate (length d) (erased_byte (a AND ORDERLY \<noteq> 0)) else d)"

lemma nv_write_updates:
  assumes ok: "nv_ok t" and live: "nv_live i t = Some (a, d)" and fits: "offset + length bs \<le> length d"
    and small: "length d \<le> usize_max"
  obtains t' where "nv_write i offset bs t = (Inr (), t')"
    "nv_updates i (a OR WRITTEN) (splice (written_data a d) offset bs) t t'"
proof -
  let ?d = "splice (written_data a d) offset bs"
  have l: "length (written_data a d) = length d" by (simp add: written_data_def)
  have "length ?d = length d" using fits l by (simp add: length_splice)
  then have u: "nv_updates i (a OR WRITTEN) ?d t (nv_set_live i (a OR WRITTEN) ?d t)"
    by (intro nv_updates_set_live [OF ok live]) (simp_all add: agree_or)
  have "checked_add offset (length bs) = Some (offset + length bs)"
    using fits small by (simp add: checked_add_def)
  then have "nv_write i offset bs t = (Inr (), if a AND ORDERLY \<noteq> 0
      then (if a AND WRITTEN = 0 \<and> kind_of a = Some Counter
        then nv_store_orderly (clear_orderly (nv_set_live i (a OR WRITTEN) ?d t))
        else clear_orderly (nv_set_live i (a OR WRITTEN) ?d t))
      else nv_set_live i (a OR WRITTEN) ?d t)"
    unfolding nv_write_def using live fits l by (simp add: Let_def written_data_def del: checked_add_eq_Some)
  moreover note nv_updates_clear_orderly [OF u] nv_updates_store [OF ok nv_updates_clear_orderly [OF u]]
  ultimately show ?thesis using that u by simp
qed

lemma nv_live_small:
  assumes "nv_ok t" and "nv_live i t = Some (a, d)"
  shows "length d \<le> MAX_NV_INDEX_SIZE"
  using assms(1)
proof (cases rule: nv_live_cases [where i = i])
  case absent
  then show ?thesis using assms by simp
next
  case (stored e)
  then have "nv_index_ok e" using assms(1) nv_entry_Some [OF assms(1)] by (auto simp: nv_ok_def nv_list_ok_def list_all_iff)
  then show ?thesis using stored assms by (auto simp: nv_index_ok_def nv_public_ok_def)
next
  case (orderly e r)
  then have "nv_index_ok e" using assms(1) nv_entry_Some [OF assms(1)] by (auto simp: nv_ok_def nv_list_ok_def list_all_iff)
  then show ?thesis using orderly assms by (auto simp: nv_index_ok_def nv_public_ok_def)
qed

section \<open>Defining and deleting\<close>

lemma nv_list_ok_filter: "nv_list_ok is \<Longrightarrow> nv_list_ok (filter p is)"
proof -
  assume ok: "nv_list_ok is"
  have "sum_list (map f (filter p xs)) \<le> sum_list (map f xs)" for f :: "'b \<Rightarrow> nat" and p xs
    by (induction xs) auto
  then have "nv_used (filter p is) \<le> nv_used is"
    and "sum_list (map (\<lambda>i. saturating_add RAM_HEADER (length (ni_data i))) (filter p (filter (\<lambda>i. np_has (ni_public i) ORDERLY) is)))
      \<le> ram_used is"
    unfolding nv_used_def ram_used_def by blast+
  then have "nv_used (filter p is) \<le> nv_used is" "ram_used (filter p is) \<le> ram_used is"
    by (simp_all add: ram_used_def conj_commute)
  with ok show ?thesis
    by (auto simp: nv_list_ok_def list_all_iff sorted_wrt_map intro: sorted_wrt_filter)
qed

lemma ram_ok_filter:
  assumes "ram_ok is ram"
  shows "ram_ok (filter (\<lambda>e. ni_index e \<noteq> i) is) (filter (\<lambda>r. or_index r \<noteq> i) ram)"
  using assms unfolding ram_ok_def is_copy_iff
  by (auto simp: distinct_map_filter) (metis (mono_tags, lifting) image_iff)+

end
