(* ===== verification/Tpm_Nv_Ops.thy ===== *)
theory Tpm_Nv_Ops
  imports Tpm_Nv_Live
begin

text \<open>
  Deleting, defining and starting up: the operations that change which indices there are, or where
  the RAM copies come from. Each keeps \<open>nv_ok\<close>, and its effect on \<open>nv_live\<close> is stated for every index.
\<close>

section \<open>Deleting\<close>

text \<open>A lookup by key in a list from which a key was removed.\<close>

lemma find_filter_key:
  "find (\<lambda>x. key x = j) (filter (\<lambda>x. key x \<noteq> i) xs) = (if j = i then None else find (\<lambda>x. key x = j) xs)"
  by (induction xs) auto

definition deleted_max :: "u32 \<Rightarrow> ('x, 'q, 's) tpm \<Rightarrow> u64" where
  "deleted_max i t =
     (case nv_live i t of
        Some (a, d) \<Rightarrow> if kind_of a = Some Counter \<and> a AND WRITTEN \<noteq> 0
          then max (pm_nv_max_counter (t_permanent t)) (be_u64 d) else pm_nv_max_counter (t_permanent t)
      | None \<Rightarrow> pm_nv_max_counter (t_permanent t))"

lemma nv_remove:
  assumes ok: "nv_ok t" and u: "t_nv u = filter (\<lambda>e. ni_index e \<noteq> i) (t_nv t)"
    "t_ram u = filter (\<lambda>r. or_index r \<noteq> i) (t_ram t)"
  shows "nv_ok u" and "nv_live j u = (if j = i then None else nv_live j t)"
    and "nv_entry j u = (if j = i then None else nv_entry j t)"
    and "orderly_ram_of j u = (if j = i then None else orderly_ram_of j t)"
proof -
  show ok': "nv_ok u" using ok nv_list_ok_filter ram_ok_filter by (auto simp: nv_ok_def u)
  show e: "nv_entry j u = (if j = i then None else nv_entry j t)"
    unfolding nv_entry_find [OF ok] nv_entry_find [OF ok'] u find_filter_key ..
  show r: "orderly_ram_of j u = (if j = i then None else orderly_ram_of j t)"
    unfolding orderly_ram_of_def u find_filter_key ..
  show "nv_live j u = (if j = i then None else nv_live j t)"
  proof (cases "j = i")
    case False
    with e r have "nv_live j u = nv_live j t" by (intro nv_live_cong) simp_all
    with False show ?thesis by simp
  qed (use e in \<open>simp add: nv_live_def\<close>)
qed

lemma nv_public_of_None:
  assumes "nv_ok t"
  shows "nv_public_of i t = None \<longleftrightarrow> nv_live i t = None" and "nv_public_of i t = None \<longleftrightarrow> nv_entry i t = None"
  using assms by (cases rule: nv_live_cases [where i = i], simp_all)+

lemma nv_delete_facts:
  assumes ok: "nv_ok t"
  shows "nv_ok (nv_delete i t)" and "nv_live j (nv_delete i t) = (if j = i then None else nv_live j t)"
    and "nv_rest (nv_delete i t) = nv_rest t"
    and "pm_shutdown (t_permanent (nv_delete i t)) = pm_shutdown (t_permanent t)"
    and "pm_nv_max_counter (t_permanent (nv_delete i t)) = deleted_max i t"
    and "j \<noteq> i \<Longrightarrow> nv_entry j (nv_delete i t) = nv_entry j t
       \<or> nv_entry j (nv_delete i t) = map_option (stored_entry (filter (\<lambda>r. or_index r \<noteq> i) (t_ram t))) (nv_entry j t)"
    and "orderly_ram_of j (nv_delete i t) = (if j = i then None else orderly_ram_of j t)"
proof -
  have thesis: "nv_ok (nv_delete i t) \<and> nv_live j (nv_delete i t) = (if j = i then None else nv_live j t)
    \<and> nv_rest (nv_delete i t) = nv_rest t \<and> pm_shutdown (t_permanent (nv_delete i t)) = pm_shutdown (t_permanent t)
    \<and> pm_nv_max_counter (t_permanent (nv_delete i t)) = deleted_max i t
    \<and> (j \<noteq> i \<longrightarrow> nv_entry j (nv_delete i t) = nv_entry j t
       \<or> nv_entry j (nv_delete i t) = map_option (stored_entry (filter (\<lambda>r. or_index r \<noteq> i) (t_ram t))) (nv_entry j t))
    \<and> orderly_ram_of j (nv_delete i t) = (if j = i then None else orderly_ram_of j t)" for j
  proof (cases "nv_public_of i t")
    case None
    then have n: "nv_live i t = None" "nv_entry i t = None" using nv_public_of_None [OF ok] by simp_all
    have "orderly_ram_of i t = None"
      using n(2) ok by (auto simp: orderly_ram_Some nv_ok_def ram_ok_def is_copy_iff nv_entry_Some [OF ok] not_Some_eq [symmetric]
          simp del: not_Some_eq)
    with None n ok show ?thesis by (simp add: nv_delete_def deleted_max_def)
  next
    case (Some p)
    from nv_public_live [OF ok Some] obtain d where
      d: "nv_live i t = Some (np_attributes p, d)" "nv_data i t = Some d" .
    define u where "u = volatile_mut (vo_nv_orderly_update (filter (\<lambda>r. or_index r \<noteq> i)))
      (permanent_mut (pm_nv_update (filter (\<lambda>e. ni_index e \<noteq> i)))
        (if np_kind p = Some Counter \<and> np_has p WRITTEN
         then permanent_mut (pm_nv_max_counter_update (\<lambda>m. max m (nv_u64 i t))) t else t))"
    have e: "nv_delete i t = (if np_has p ORDERLY then nv_store_orderly u else u)"
      using Some by (simp add: nv_delete_def u_def Let_def)
    have u: "t_nv u = filter (\<lambda>e. ni_index e \<noteq> i) (t_nv t)" "t_ram u = filter (\<lambda>r. or_index r \<noteq> i) (t_ram t)"
      "nv_rest u = nv_rest t" "pm_shutdown (t_permanent u) = pm_shutdown (t_permanent t)"
      "pm_nv_max_counter (t_permanent u) = deleted_max i t"
      using d by (auto simp: u_def deleted_max_def np_kind_def np_has_def nv_u64_def)
    note r = nv_remove [OF ok u(1,2)]
    show ?thesis
      using r nv_store_orderly_ok [OF r(1)] nv_store_orderly_facts [OF r(1)] nv_ok_same [OF _ r(1)] u
      unfolding e by auto
  qed
  show "nv_ok (nv_delete i t)" "nv_live j (nv_delete i t) = (if j = i then None else nv_live j t)"
    "nv_rest (nv_delete i t) = nv_rest t" "pm_shutdown (t_permanent (nv_delete i t)) = pm_shutdown (t_permanent t)"
    "pm_nv_max_counter (t_permanent (nv_delete i t)) = deleted_max i t"
    "j \<noteq> i \<Longrightarrow> nv_entry j (nv_delete i t) = nv_entry j t
       \<or> nv_entry j (nv_delete i t) = map_option (stored_entry (filter (\<lambda>r. or_index r \<noteq> i) (t_ram t))) (nv_entry j t)"
    "orderly_ram_of j (nv_delete i t) = (if j = i then None else orderly_ram_of j t)"
    using thesis [of j] by blast+
qed

section \<open>Defining\<close>

lemma list_insert_partition:
  "list_insert (partition_point p xs) x xs = takeWhile p xs @ x # dropWhile p xs"
  by (simp add: list_insert_def partition_point_def takeWhile_eq_take [symmetric] dropWhile_eq_drop [symmetric])

lemma sorted_insert:
  fixes key :: "'a \<Rightarrow> 'k::linorder"
  assumes "sorted_wrt (<) (map key xs)" and "key x \<notin> set (map key xs)"
  shows "sorted_wrt (<) (map key (takeWhile (\<lambda>y. key y < key x) xs @ x # dropWhile (\<lambda>y. key y < key x) xs))"
  using assms
proof (induction xs)
  case (Cons y ys)
  then have "key y \<noteq> key x" by auto
  then consider "key y < key x" | "key x < key y" using linorder_neq_iff by blast
  then show ?case
  proof cases
    case 1
    with Cons show ?thesis by (auto dest: set_takeWhileD set_dropWhileD)
  qed (use Cons in auto)
qed simp

lemma find_insert_key:
  assumes "key x \<notin> set (map key xs)"
  shows "find (\<lambda>y. key y = j) (takeWhile p xs @ x # dropWhile p xs) = (if j = key x then Some x else find (\<lambda>y. key y = j) xs)"
  using assms by (induction xs) auto

lemma set_insert_partition: "set (takeWhile p xs @ x # dropWhile p xs) = insert x (set xs)"
  by (induction xs) auto

lemma sum_list_insert: "sum_list (map f (takeWhile p xs @ x # dropWhile p xs)) = sum_list (map f xs) + (f x :: nat)"
  by (induction xs) auto

lemma sum_list_filter_insert:
  "sum_list (map f (filter q (takeWhile p xs @ x # dropWhile p xs)))
     = (if q x then sum_list (map f (filter q xs)) + (f x :: nat) else sum_list (map f (filter q xs)))"
  by (cases "q x"; induction xs) auto

lemma find_snoc: "find p (xs @ [y]) = (if find p xs = None \<and> p y then Some y else find p xs)"
  by (induction xs) auto

definition ram_image :: "nv_index \<Rightarrow> orderly_ram" where
  "ram_image e = \<lparr>or_index = ni_index e, or_attributes = np_attributes (ni_public e), or_data = ni_data e\<rparr>"

lemma nv_insert:
  assumes ok: "nv_ok t" and new: "nv_entry (ni_index x) t = None" and x: "nv_index_ok x"
    and nv: "nv_used (t_nv t) + ni_cost x \<le> NV_INDEX_SPACE"
    and ram: "np_has (ni_public x) ORDERLY \<Longrightarrow> ram_used (t_nv t) + saturating_add RAM_HEADER (length (ni_data x)) \<le> RAM_INDEX_SPACE"
    and u: "t_nv u = takeWhile (\<lambda>e. ni_index e < ni_index x) (t_nv t) @ x # dropWhile (\<lambda>e. ni_index e < ni_index x) (t_nv t)"
      "t_ram u = (if np_has (ni_public x) ORDERLY then t_ram t @ [ram_image x] else t_ram t)"
  shows "nv_ok u" and "nv_live j u = (if j = ni_index x then Some (np_attributes (ni_public x), ni_data x) else nv_live j t)"
    and "nv_entry j u = (if j = ni_index x then Some x else nv_entry j t)"
    and "orderly_ram_of j u = (if j = ni_index x \<and> np_has (ni_public x) ORDERLY then Some (ram_image x) else orderly_ram_of j t)"
proof -
  let ?p = "\<lambda>e. ni_index e < ni_index x"
  have n: "ni_index x \<notin> set (map ni_index (t_nv t))"
  proof
    assume "ni_index x \<in> set (map ni_index (t_nv t))"
    then obtain e where "e \<in> set (t_nv t)" "ni_index e = ni_index x" by auto
    then have "nv_entry (ni_index x) t = Some e" using nv_entry_Some [OF ok] by simp
    with new show False by simp
  qed
  have r: "ni_index x \<notin> set (map or_index (t_ram t))"
  proof
    assume "ni_index x \<in> set (map or_index (t_ram t))"
    then obtain r where r: "r \<in> set (t_ram t)" "or_index r = ni_index x" by auto
    then have "is_copy (t_nv t) r" using ok by (auto simp: nv_ok_def ram_ok_def)
    then show False using n r(2) by (auto simp: is_copy_iff image_iff)
  qed
  have s: "set (t_nv u) = insert x (set (t_nv t))" unfolding u(1) by (rule set_insert_partition)
  have "ram_used (t_nv u) = (if np_has (ni_public x) ORDERLY
      then ram_used (t_nv t) + saturating_add RAM_HEADER (length (ni_data x)) else ram_used (t_nv t))"
    unfolding ram_used_def u(1) by (rule sum_list_filter_insert)
  then have l: "nv_list_ok (t_nv u)"
    using ok x nv ram sorted_insert [OF nv_ok_distinct(3) [OF ok] n] s
    by (auto simp: nv_list_ok_def nv_ok_def nv_used_def sum_list_insert u(1) list_all_iff simp del: map_append)
  have "ram_ok (t_nv u) (t_ram u)"
    using ok r x unfolding nv_ok_def ram_ok_def is_copy_iff u(2) s
    by (auto simp: ram_image_def nv_index_ok_def)
  with l show ok': "nv_ok u" by (simp add: nv_ok_def)
  show e: "nv_entry j u = (if j = ni_index x then Some x else nv_entry j t)"
    unfolding nv_entry_find [OF ok] nv_entry_find [OF ok'] u(1) find_insert_key [OF n] ..
  have "find (\<lambda>r. or_index r = ni_index x) (t_ram t) = None" using r by (auto simp: find_None_iff image_iff)
  then show o': "orderly_ram_of j u
      = (if j = ni_index x \<and> np_has (ni_public x) ORDERLY then Some (ram_image x) else orderly_ram_of j t)"
    by (auto simp: orderly_ram_of_def u(2) ram_image_def find_snoc)
  show "nv_live j u = (if j = ni_index x then Some (np_attributes (ni_public x), ni_data x) else nv_live j t)"
  proof (cases "j = ni_index x")
    case False
    with e o' have "nv_live j u = nv_live j t" by (intro nv_live_cong) simp_all
    with False show ?thesis by simp
  qed (use e o' in \<open>simp add: nv_live_def ram_image_def\<close>)
qed

text \<open>What the checks of a definition establish.\<close>

lemma rd_run_Inr: "rd_run m r = Inr x \<longleftrightarrow> (\<exists>s. m r = Inr (x, s))"
  by (auto simp: rd_run_def split: sum.splits)

lemma refuse_Inr [simp]: "refuse c e = Inr u \<longleftrightarrow> \<not> c"
  by (simp add: refuse_def)

lemma length_strip_zeros: "length (strip_zeros b) \<le> length b"
  using length_dropWhile_le [of _ "rev b"] by (simp add: strip_zeros_def)

lemma nv_public_read_sized_ok: "nv_public_read_sized b = Inr (p, r) \<Longrightarrow> nv_public_ok p"
proof -
  assume "nv_public_read_sized b = Inr (p, r)"
  then obtain x s where c: "(case nv_public_read s of Inl e \<Rightarrow> Inl e
      | Inr (q, r') \<Rightarrow> if saturating_sub (length s) (length r') \<noteq> unat (x :: u16) then Inl RC_SIZE else Inr (q, r')) = Inr (p, r)"
    unfolding nv_public_read_sized_def by (auto split: if_splits)
  then have "nv_public_read s = Inr (p, r)" by (cases "nv_public_read s") (auto split: if_splits)
  then show ?thesis by (simp add: nv_public.get_iff)
qed

lemma define_space_parse_ok:
  assumes "rd_run define_space_parse r = Inr (auth, public)"
  shows "length auth \<le> MAX_DIGEST" and "nv_public_ok public"
  using assms unfolding rd_run_Inr define_space_parse_def by (auto dest: nv_public_read_sized_ok)

lemma saturating_add_small: "c < usize_max \<Longrightarrow> \<not> saturating_add a b > c \<Longrightarrow> a + b \<le> c"
  by (auto simp: saturating_add_def split: if_splits)

lemma define_space_entry_ok:
  assumes ok: "nv_ok t" and d: "define_space_entry handles r t = Inr x"
  shows "nv_index_ok x" and "nv_entry (ni_index x) t = None"
    and "nv_used (t_nv t) + ni_cost x \<le> NV_INDEX_SPACE"
    and "np_has (ni_public x) ORDERLY \<Longrightarrow> ram_used (t_nv t) + saturating_add RAM_HEADER (length (ni_data x)) \<le> RAM_INDEX_SPACE"
    and "ni_data x = replicate (np_size (ni_public x)) (erased_byte (np_has (ni_public x) ORDERLY))"
    and "np_attributes (ni_public x) AND WRITTEN = 0"
proof -
  from d obtain auth public k where p: "rd_run define_space_parse r = Inr (auth, public)"
    and x: "x = \<lparr>ni_public = public, ni_auth = strip_zeros auth,
      ni_data = replicate (np_size public) (erased_byte (np_attributes public AND ORDERLY \<noteq> 0))\<rparr>"
    and f: "size_fits public" "\<not> attributes_refused k (np_attributes public)" "nv_position (np_index public) t = None"
    and nv: "\<not> saturating_add (nv_used (t_nv t)) (ni_cost x) > NV_INDEX_SPACE"
    and ram: "\<not> (np_has public ORDERLY
         \<and> saturating_add (ram_used (t_nv t)) (saturating_add RAM_HEADER (length (ni_data x))) > RAM_INDEX_SPACE)"
    unfolding define_space_entry_def by (auto simp: sum_bind_eq_Inr Let_def)
  note parse = define_space_parse_ok [OF p]
  have "length (strip_zeros auth) \<le> MAX_DIGEST" using parse(1) length_strip_zeros le_trans by blast
  then show "nv_index_ok x" using parse(2) f(1) by (simp add: x nv_index_ok_def)
  show "nv_entry (ni_index x) t = None" using f(3) by (simp add: x nv_entry_def)
  show "nv_used (t_nv t) + ni_cost x \<le> NV_INDEX_SPACE"
    by (rule saturating_add_small [OF _ nv]) (simp add: NV_INDEX_SPACE_def usize_max_def)
  show "ram_used (t_nv t) + saturating_add RAM_HEADER (length (ni_data x)) \<le> RAM_INDEX_SPACE"
    if "np_has (ni_public x) ORDERLY"
    using ram that by (intro saturating_add_small) (simp_all add: RAM_INDEX_SPACE_def usize_max_def x)
  show "ni_data x = replicate (np_size (ni_public x)) (erased_byte (np_has (ni_public x) ORDERLY))"
    by (simp add: x np_has_def)
  show "np_attributes (ni_public x) AND WRITTEN = 0" using f(2) by (simp add: x attributes_refused_def)
qed

lemma define_space_facts:
  assumes ok: "nv_ok t" and d: "define_space_entry handles r t = Inr x" and res: "define_space handles r t = (y, t')"
  shows "nv_ok t'" and "nv_live j t' = (if j = ni_index x then Some (np_attributes (ni_public x), ni_data x) else nv_live j t)"
    and "nv_rest t' = nv_rest t" and "y = Inr []"
    and "pm_shutdown (t_permanent t') = pm_shutdown (t_permanent t)"
    and "pm_nv_max_counter (t_permanent t') = pm_nv_max_counter (t_permanent t)"
    and "j \<noteq> ni_index x \<Longrightarrow> nv_entry j t' = nv_entry j t \<or> nv_entry j t' = map_option (stored_entry (t_ram t @ [ram_image x])) (nv_entry j t)"
    and "orderly_ram_of j t' = (if j = ni_index x \<and> np_has (ni_public x) ORDERLY then Some (ram_image x) else orderly_ram_of j t)"
    and "nv_entry (ni_index x) t' = Some x"
proof -
  note x = define_space_entry_ok [OF ok d]
  define u where "u = (if np_has (ni_public x) ORDERLY
    then volatile_mut (vo_nv_orderly_update (\<lambda>ram. ram @ [ram_image x])) (insert_index x t) else insert_index x t)"
  have t': "t' = (if np_has (ni_public x) ORDERLY then nv_store_orderly u else u)" and y: "y = Inr []"
    using res d x(5) by (auto simp: define_space_def attempt_def Let_def u_def ram_image_def erased_byte_def)
  have u: "t_nv u = takeWhile (\<lambda>e. ni_index e < ni_index x) (t_nv t) @ x # dropWhile (\<lambda>e. ni_index e < ni_index x) (t_nv t)"
    "t_ram u = (if np_has (ni_public x) ORDERLY then t_ram t @ [ram_image x] else t_ram t)"
    "nv_rest u = nv_rest t" "pm_shutdown (t_permanent u) = pm_shutdown (t_permanent t)"
    "pm_nv_max_counter (t_permanent u) = pm_nv_max_counter (t_permanent t)"
    by (simp_all add: u_def insert_index_def list_insert_partition)
  note n = nv_insert [OF ok x(2,1,3,4) u(1,2)]
  have "stored_entry (t_ram t @ [ram_image x]) x = x" if "np_has (ni_public x) ORDERLY"
  proof -
    have "orderly_ram_of (ni_index x) u = Some (ram_image x)" using n(4) that by simp
    then show ?thesis using that u(2)
      by (cases x) (simp add: orderly_ram_of_def stored_entry_def ram_image_def set_entry_def)
  qed
  then show "nv_entry (ni_index x) t' = Some x"
    using n(3) nv_store_orderly_ok(3) [OF n(1)] u(2) by (simp add: t')
  show "nv_ok t'" using n(1) nv_ok_same [OF nv_store_orderly_ok(1) [OF n(1)] n(1)] by (simp add: t')
  show "nv_live j t' = (if j = ni_index x then Some (np_attributes (ni_public x), ni_data x) else nv_live j t)"
    using n(2) nv_store_orderly_ok(2) [OF n(1)] by (simp add: t')
  show "nv_rest t' = nv_rest t" "pm_shutdown (t_permanent t') = pm_shutdown (t_permanent t)"
    "pm_nv_max_counter (t_permanent t') = pm_nv_max_counter (t_permanent t)"
    using u(3-5) nv_store_orderly_facts(3-5) [OF n(1)] by (simp_all add: t')
  show "j \<noteq> ni_index x \<Longrightarrow> nv_entry j t' = nv_entry j t \<or> nv_entry j t' = map_option (stored_entry (t_ram t @ [ram_image x])) (nv_entry j t)"
    using n(3) nv_store_orderly_ok(3) [OF n(1)] u(2) by (simp add: t')
  show "orderly_ram_of j t' = (if j = ni_index x \<and> np_has (ni_public x) ORDERLY then Some (ram_image x) else orderly_ram_of j t)"
    using n(4) nv_store_orderly_ok(4) [OF n(1)] by (simp add: t')
  show "y = Inr []" by (rule y)
qed

section \<open>Starting up\<close>

lemma orderly_images_eq: "orderly_images is = map ram_image (filter (\<lambda>i. np_has (ni_public i) ORDERLY) is)"
  by (simp add: orderly_images_def ram_image_def)

lemma ram_ok_images: "nv_list_ok is \<Longrightarrow> ram_ok is (orderly_images is)"
  by (auto simp: ram_ok_def orderly_images_eq is_copy_iff ram_image_def nv_list_ok_def list_all_iff nv_index_ok_def
      strict_sorted_iff o_def distinct_map_filter image_image)

lemma find_images:
  assumes "distinct (map ni_index is)"
  shows "find (\<lambda>r. or_index r = j) (orderly_images is) =
    (case find (\<lambda>e. ni_index e = j) is of None \<Rightarrow> None
     | Some e \<Rightarrow> if np_has (ni_public e) ORDERLY then Some (ram_image e) else None)"
  using assms
proof (induction "is")
  case (Cons e es)
  have "find (\<lambda>e. ni_index e = j) es = None" if "ni_index e = j"
    using Cons.prems that by (auto simp: find_None_iff image_iff)
  then show ?case using Cons by (auto simp: orderly_images_eq ram_image_def)
qed (simp add: orderly_images_eq)

lemma startup_entry_facts [simp]:
  "ni_index (startup_entry kind e) = ni_index e" "same_index e (startup_entry kind e)"
  by (auto simp: startup_entry_def same_index_def agree_sym [OF agree_startup])

lemma startup_ram_facts [simp]:
  "or_index (startup_ram kind orderly r) = or_index r" "same_ram r (startup_ram kind orderly r)"
  "or_attributes (startup_ram kind orderly r) = startup_attributes kind (or_attributes r)"
  by (auto simp: startup_ram_def Let_def same_ram_def agree_sym [OF agree_startup] length_splice)

lemma list_all2_map_right: "(\<And>x. R x (f x)) \<Longrightarrow> list_all2 R xs (map f xs)"
  by (simp add: list_all2_conv_all_nth)

lemma nv_power_on_ok: "nv_list_ok (pm_nv p) \<Longrightarrow> nv_ok (tpm_power_on p)"
  by (simp add: nv_ok_def tpm_power_on_def volatile_power_on_def ram_ok_images)

lemma nv_startup_facts:
  assumes "nv_list_ok (t_nv t)"
  shows "nv_ok (nv_startup kind orderly t)" and "nv_rest (nv_startup kind orderly t) = nv_rest t"
    and "pm_shutdown (t_permanent (nv_startup kind orderly t)) = pm_shutdown (t_permanent t)"
    and "pm_nv_max_counter (t_permanent (nv_startup kind orderly t)) = pm_nv_max_counter (t_permanent t)"
    and "t_nv (nv_startup kind orderly t) = (if kind = Resume then t_nv t else map (startup_entry kind) (t_nv t))"
    and "t_ram (nv_startup kind orderly t) = (if kind = Resume then orderly_images (t_nv t)
           else map (startup_ram kind orderly) (orderly_images (t_nv t)))"
proof -
  show nv: "t_nv (nv_startup kind orderly t) = (if kind = Resume then t_nv t else map (startup_entry kind) (t_nv t))"
    and ram: "t_ram (nv_startup kind orderly t) = (if kind = Resume then orderly_images (t_nv t)
           else map (startup_ram kind orderly) (orderly_images (t_nv t)))"
    and "nv_rest (nv_startup kind orderly t) = nv_rest t"
    and "pm_shutdown (t_permanent (nv_startup kind orderly t)) = pm_shutdown (t_permanent t)"
    and "pm_nv_max_counter (t_permanent (nv_startup kind orderly t)) = pm_nv_max_counter (t_permanent t)"
    by (simp_all add: nv_startup_def Let_def)
  have "list_all2 same_index (t_nv t) (t_nv (nv_startup kind orderly t))"
    and "list_all2 same_ram (orderly_images (t_nv t)) (t_ram (nv_startup kind orderly t))"
    by (auto simp: nv ram list_all2_refl intro!: list_all2_map_right)
  then show "nv_ok (nv_startup kind orderly t)"
    using nv_list_ok_same ram_ok_same [OF _ _ ram_ok_images [OF assms]] assms by (auto simp: nv_ok_def)
qed

lemma nv_startup_lookup:
  assumes "nv_ok t" and "kind \<noteq> Resume"
  shows "nv_entry j (nv_startup kind orderly t) = map_option (startup_entry kind) (nv_entry j t)"
    and "orderly_ram_of j (nv_startup kind orderly t) = (case nv_entry j t of None \<Rightarrow> None
      | Some e \<Rightarrow> if np_has (ni_public e) ORDERLY then Some (startup_ram kind orderly (ram_image e)) else None)"
proof -
  have l: "nv_list_ok (t_nv t)" using assms(1) by (simp add: nv_ok_def)
  note f = nv_startup_facts [OF l, of kind orderly]
  show "nv_entry j (nv_startup kind orderly t) = map_option (startup_entry kind) (nv_entry j t)"
    unfolding nv_entry_find [OF f(1)] nv_entry_find [OF assms(1)] using f(5) assms(2) by (simp add: find_map_key)
  show "orderly_ram_of j (nv_startup kind orderly t) = (case nv_entry j t of None \<Rightarrow> None
      | Some e \<Rightarrow> if np_has (ni_public e) ORDERLY then Some (startup_ram kind orderly (ram_image e)) else None)"
    unfolding orderly_ram_of_def nv_entry_find [OF assms(1)] using f(6) assms(2) nv_ok_distinct(1) [OF assms(1)]
    by (simp add: find_map_key find_images split: option.split)
qed

lemma nv_resume_lookup:
  assumes "nv_ok t"
  shows "nv_entry j (nv_startup Resume orderly t) = nv_entry j t"
    and "orderly_ram_of j (nv_startup Resume orderly t) = (case nv_entry j t of None \<Rightarrow> None
      | Some e \<Rightarrow> if np_has (ni_public e) ORDERLY then Some (ram_image e) else None)"
proof -
  have l: "nv_list_ok (t_nv t)" using assms(1) by (simp add: nv_ok_def)
  note f = nv_startup_facts [OF l, of Resume orderly]
  show "nv_entry j (nv_startup Resume orderly t) = nv_entry j t"
    unfolding nv_entry_find [OF f(1)] nv_entry_find [OF assms(1)] using f(5) by simp
  show "orderly_ram_of j (nv_startup Resume orderly t) = (case nv_entry j t of None \<Rightarrow> None
      | Some e \<Rightarrow> if np_has (ni_public e) ORDERLY then Some (ram_image e) else None)"
    unfolding orderly_ram_of_def nv_entry_find [OF assms(1)] using f(6) nv_ok_distinct(1) [OF assms(1)]
    by (simp add: find_images)
qed

section \<open>Folds\<close>

lemma nv_delete_fold:
  assumes "nv_ok t"
  shows "nv_ok (fold nv_delete js t)"
    and "nv_live j (fold nv_delete js t) = (if j \<in> set js then None else nv_live j t)"
    and "nv_rest (fold nv_delete js t) = nv_rest t"
    and "pm_shutdown (t_permanent (fold nv_delete js t)) = pm_shutdown (t_permanent t)"
proof -
  have "nv_ok (fold nv_delete js t) \<and> nv_live j (fold nv_delete js t) = (if j \<in> set js then None else nv_live j t)
    \<and> nv_rest (fold nv_delete js t) = nv_rest t
    \<and> pm_shutdown (t_permanent (fold nv_delete js t)) = pm_shutdown (t_permanent t)" for j
    using assms by (induction js arbitrary: t) (simp_all add: nv_delete_facts)
  then show "nv_ok (fold nv_delete js t)" "nv_rest (fold nv_delete js t) = nv_rest t"
    "nv_live j (fold nv_delete js t) = (if j \<in> set js then None else nv_live j t)"
    "pm_shutdown (t_permanent (fold nv_delete js t)) = pm_shutdown (t_permanent t)" by blast+
qed

lemma nv_flush_owner_facts:
  assumes ok: "nv_ok t"
  shows "nv_ok (nv_flush_owner t)"
    and "nv_live j (nv_flush_owner t) = (case nv_live j t of None \<Rightarrow> None
      | Some (a, d) \<Rightarrow> if a AND PLATFORMCREATE \<noteq> 0 then Some (a, d) else None)"
    and "nv_rest (nv_flush_owner t) = nv_rest t"
    and "pm_shutdown (t_permanent (nv_flush_owner t)) = pm_shutdown (t_permanent t)"
proof -
  let ?is = "map ni_index (filter (\<lambda>e. \<not> np_has (ni_public e) PLATFORMCREATE) (t_nv t))"
  note f = nv_delete_fold [OF ok, where js = ?is, folded nv_flush_owner_def]
  show "nv_ok (nv_flush_owner t)" "nv_rest (nv_flush_owner t) = nv_rest t"
    "pm_shutdown (t_permanent (nv_flush_owner t)) = pm_shutdown (t_permanent t)" by (fact f)+
  have m: "j \<in> set ?is \<longleftrightarrow> (\<exists>e. nv_entry j t = Some e \<and> \<not> np_has (ni_public e) PLATFORMCREATE)"
    by (auto simp: nv_entry_Some [OF ok])
  show "nv_live j (nv_flush_owner t) = (case nv_live j t of None \<Rightarrow> None
      | Some (a, d) \<Rightarrow> if a AND PLATFORMCREATE \<noteq> 0 then Some (a, d) else None)"
    using ok
  proof (cases rule: nv_live_cases [where i = j])
    case absent
    then show ?thesis using f(2) [of j] by simp
  next
    case (stored e)
    then show ?thesis using f(2) [of j] m by (auto simp: np_has_def)
  next
    case (orderly e r)
    then show ?thesis using f(2) [of j] m agree_and [OF orderly(7), of PLATFORMCREATE] by (auto simp: np_has_def)
  qed
qed

end
