(* ===== verification/Tpm_Hierarchy.thy ===== *)
theory Tpm_Hierarchy
  imports Tpm_Nv
begin

text \<open>
  The operations of \<^verbatim>\<open>vk-tpm/src/hierarchy.rs\<close>: dictionary-attack protection and the commands that
  administer the hierarchies. An \<open>i64\<close> is an integer, clamped where the source saturates.
\<close>

section \<open>Dictionary attack\<close>

definition I64_MAX :: int where "I64_MAX = 2 ^ 63 - 1"
definition I64_MIN :: int where "I64_MIN = - (2 ^ 63)"

definition clamp_i64 :: "int \<Rightarrow> int" where
  "clamp_i64 x = max I64_MIN (min I64_MAX x)"

text \<open>\<open>i64::try_from(x).unwrap_or(i64::MAX)\<close> of a \<open>u64\<close>, and \<open>u32::saturating_add\<close>,
  \<open>saturating_sub\<close>.\<close>

definition i64_of :: "u64 \<Rightarrow> int" where
  "i64_of x = min I64_MAX (uint x)"

definition sat_add_u32 :: "u32 \<Rightarrow> u32 \<Rightarrow> u32" where
  "sat_add_u32 a b = (if unat a + unat b < 2 ^ 32 then a + b else 0xffffffff)"

definition sat_sub_u32 :: "u32 \<Rightarrow> u32 \<Rightarrow> u32" where
  "sat_sub_u32 a b = (if b \<le> a then a - b else 0)"

text \<open>Rust's division truncates toward zero.\<close>

definition div_trunc :: "int \<Rightarrow> int \<Rightarrow> int" where
  "div_trunc a b = (if 0 \<le> a then a div b else - ((- a) div b))"

text \<open>The failures one call of \<open>da_self_heal\<close> forgets.\<close>

definition healed :: "int \<Rightarrow> int \<Rightarrow> u32 \<Rightarrow> u32" where
  "healed now timer recovery =
     (let elapsed = div_trunc (clamp_i64 (now - timer)) 1000;
          h = (if recovery = 0 then 0 else div_trunc elapsed (uint recovery));
          h = max h 0
      in if h < 2 ^ 32 then word_of_int h else 0xffffffff)"

definition heal :: "int \<Rightarrow> dictionary_attack \<times> da_timers \<Rightarrow> dictionary_attack \<times> da_timers" where
  "heal now = (\<lambda>(da, timers).
     let (da, timers) =
       (if failed_tries da = 0 then (da, timers)
        else if recovery_time da = 0 then (da\<lparr>failed_tries := 0\<rparr>, timers)
        else
          let h = healed now (self_heal_timer timers) (recovery_time da)
          in (da\<lparr>failed_tries := sat_sub_u32 (failed_tries da) h\<rparr>,
              timers\<lparr>self_heal_timer := clamp_i64 (self_heal_timer timers
                + clamp_i64 (clamp_i64 (uint h * uint (recovery_time da)) * 1000))\<rparr>));
         da = (if \<not> lockout_auth_enabled da \<and> lockout_recovery da \<noteq> 0
                  \<and> div_trunc (clamp_i64 (now - lockout_timer timers)) 1000 \<ge> uint (lockout_recovery da)
               then da\<lparr>lockout_auth_enabled := True\<rparr> else da)
     in (da, timers))"

definition da_self_heal :: "('x, 'q, 's) tpm \<Rightarrow> ('x, 'q, 's) tpm" where
  "da_self_heal t =
     (let (da, timers) = heal (i64_of (vo_time (t_volatile t))) (pm_da (t_permanent t), vo_da_timers (t_volatile t));
          t = volatile_mut (vo_da_timers_update (\<lambda>_. timers)) t
      in if da \<noteq> pm_da (t_permanent t) then permanent_mut (pm_da_update (\<lambda>_. da)) t else t)"

definition da_startup :: "bool \<Rightarrow> bool \<Rightarrow> bool \<Rightarrow> ('x, 'q, 's) tpm \<Rightarrow> ('x, 'q, 's) tpm" where
  "da_startup orderly time_reset da_used t =
     (let t = (if time_reset
               then volatile_mut (vo_da_timers_update (\<lambda>timers.
                      if orderly
                      then let shut = i64_of (pm_shutdown_time (t_permanent t))
                           in timers\<lparr>self_heal_timer := clamp_i64 (self_heal_timer timers - shut),
                                lockout_timer := clamp_i64 (lockout_timer timers - shut)\<rparr>
                      else da_timers_default)) t
               else t);
          t = permanent_mut (pm_da_update (\<lambda>da.
                let da = (if lockout_recovery da = 0 then da\<lparr>lockout_auth_enabled := True\<rparr> else da)
                in if recovery_time da \<noteq> 0 \<and> failed_tries da < max_tries da \<and> \<not> orderly \<and> da_used
                   then da\<lparr>failed_tries := sat_add_u32 (failed_tries da) 1\<rparr> else da)) t
      in da_self_heal t)"

definition check_locked_out :: "bool \<Rightarrow> ('x, 'q, 's) tpm \<Rightarrow> (rc + unit) \<times> ('x, 'q, 's) tpm" where
  "check_locked_out lockout t =
     (let da = pm_da (t_permanent t) in
      if lockout then (if \<not> lockout_auth_enabled da then (Inl RC_LOCKOUT, t) else (Inr (), t))
      else if in_lockout da then (Inl RC_LOCKOUT, t)
      else if \<not> vo_da_used (t_volatile t)
      then (Inr (), permanent_mut (pm_shutdown_update (\<lambda>_. DaUsed)) (volatile_mut (vo_da_used_update (\<lambda>_. True)) t))
      else (Inr (), t))"

definition da_failure :: "bool \<Rightarrow> ('x, 'q, 's) tpm \<Rightarrow> ('x, 'q, 's) tpm" where
  "da_failure lockout t =
     (let now = i64_of (vo_time (t_volatile t)) in
      if lockout
      then volatile_mut (vo_da_timers_update (lockout_timer_update (\<lambda>_. now)))
             (permanent_mut (pm_da_update (lockout_auth_enabled_update (\<lambda>_. False))) t)
      else volatile_mut (vo_da_timers_update (self_heal_timer_update (\<lambda>_. now)))
             (permanent_mut (pm_da_update (\<lambda>da.
                if recovery_time da \<noteq> 0 then da\<lparr>failed_tries := sat_add_u32 (failed_tries da) 1\<rparr> else da)) t))"

section \<open>Commands\<close>

definition flush_hierarchy :: "u32 \<Rightarrow> ('x, 'q, 's) tpm \<Rightarrow> ('x, 'q, 's) tpm" where
  "flush_hierarchy h t = volatile_mut (vo_objects_update (map (\<lambda>slot.
     case slot of Some (Key k) \<Rightarrow> if k_hierarchy k = h then None else slot | _ \<Rightarrow> slot))) t"

definition flush_persistent :: "u32 \<Rightarrow> ('x, 'q, 's) tpm \<Rightarrow> ('x, 'q, 's) tpm" where
  "flush_persistent h t = permanent_mut (pm_persistent_update (filter (\<lambda>(_, k). k_hierarchy k \<noteq> h))) t"

definition read_yes_no :: "(rc, bool) rd" where
  "read_yes_no = rd_bind rd_u8 (\<lambda>b.
     if b = 0 then rd_return False else if b = 1 then rd_return True else rd_fail RC_VALUE)"

definition hierarchy_control_parse :: "(rc, u32 \<times> bool) rd" where
  "hierarchy_control_parse =
     rd_bind (rd_map_err (rc_param 1) rd_u32) (\<lambda>enable.
     if enable \<notin> {TPM_RH_OWNER, TPM_RH_ENDORSEMENT, TPM_RH_PLATFORM, TPM_RH_PLATFORM_NV}
     then rd_fail (rc_param 1 RC_VALUE)
     else rd_bind (rd_map_err (rc_param 2) read_yes_no) (\<lambda>state. rd_end (enable, state)))"

definition hierarchy_allowed :: "clear_state \<Rightarrow> u32 \<Rightarrow> u32 \<Rightarrow> bool \<Rightarrow> bool" where
  "hierarchy_allowed c auth enable state =
     (if enable = TPM_RH_OWNER then auth = TPM_RH_PLATFORM \<or> auth = TPM_RH_OWNER \<and> (sh_enable c \<or> \<not> state)
      else if enable = TPM_RH_ENDORSEMENT
      then auth = TPM_RH_PLATFORM \<or> auth = TPM_RH_ENDORSEMENT \<and> (eh_enable c \<or> \<not> state)
      else auth = TPM_RH_PLATFORM)"

definition hierarchy_enabled :: "u32 \<Rightarrow> ('x, 'q, 's) volatile \<Rightarrow> bool" where
  "hierarchy_enabled enable v =
     (if enable = TPM_RH_OWNER then sh_enable (vo_clear v)
      else if enable = TPM_RH_ENDORSEMENT then eh_enable (vo_clear v)
      else if enable = TPM_RH_PLATFORM then vo_ph_enable v
      else ph_enable_nv (vo_clear v))"

definition hierarchy_set :: "u32 \<Rightarrow> bool \<Rightarrow> ('x, 'q, 's) volatile \<Rightarrow> ('x, 'q, 's) volatile" where
  "hierarchy_set enable state v =
     (if enable = TPM_RH_OWNER then v\<lparr>vo_clear := (vo_clear v)\<lparr>sh_enable := state\<rparr>\<rparr>
      else if enable = TPM_RH_ENDORSEMENT then v\<lparr>vo_clear := (vo_clear v)\<lparr>eh_enable := state\<rparr>\<rparr>
      else if enable = TPM_RH_PLATFORM then v\<lparr>vo_ph_enable := state\<rparr>
      else v\<lparr>vo_clear := (vo_clear v)\<lparr>ph_enable_nv := state\<rparr>\<rparr>)"

definition hierarchy_control :: "u32 list \<Rightarrow> bytes \<Rightarrow> ('x, 'q, 's) tpm \<Rightarrow> (rc + bytes) \<times> ('x, 'q, 's) tpm" where
  "hierarchy_control handles r t =
     attempt (sum_bind (rd_run hierarchy_control_parse r) (\<lambda>(enable, state).
       sum_bind (first_handle handles) (\<lambda>auth.
       sum_bind (refuse (\<not> hierarchy_allowed (vo_clear (t_volatile t)) auth enable state) RC_AUTH_TYPE) (\<lambda>_.
       Inr (enable, state)))))
       (\<lambda>(enable, state) t.
         (Inr [],
          if hierarchy_enabled enable (t_volatile t) \<noteq> state
          then (let t = volatile_mut (hierarchy_set enable state) t;
                    t = (if \<not> state \<and> enable \<noteq> TPM_RH_PLATFORM_NV then flush_hierarchy enable t else t)
                in clear_orderly t)
          else t)) t"

text \<open>\<open>let h = &mut tpm.permanent.hierarchies\<close> marks the permanent state before the handle is looked at.\<close>

definition set_primary_policy :: "u32 list \<Rightarrow> bytes \<Rightarrow> ('x, 'q, 's) tpm \<Rightarrow> (rc + bytes) \<times> ('x, 'q, 's) tpm" where
  "set_primary_policy handles r t =
     attempt (sum_bind (rd_run (rd_bind (rd_map_err (rc_param 1) (rd_tpm2b MAX_DIGEST)) (\<lambda>d.
         rd_bind (rd_map_err (rc_param 2) hash_read_or_null) (\<lambda>h. rd_end (d, h)))) r) (\<lambda>(d, h).
       sum_bind (refuse (length d \<noteq> policy_size h) (rc_param 1 RC_SIZE)) (\<lambda>_.
       Inr \<lparr>pol_hash = h, pol_digest = d\<rparr>)))
       (\<lambda>p t. attempt (first_handle handles) (\<lambda>handle t.
         (Inr [],
          if handle = TPM_RH_OWNER then permanent_mut (pm_hierarchies_update (owner_policy_update (\<lambda>_. p))) t
          else if handle = TPM_RH_ENDORSEMENT then permanent_mut (pm_hierarchies_update (endorsement_policy_update (\<lambda>_. p))) t
          else if handle = TPM_RH_LOCKOUT then permanent_mut (pm_hierarchies_update (lockout_policy_update (\<lambda>_. p))) t
          else clear_orderly (volatile_mut (vo_clear_update (platform_policy_update (\<lambda>_. p))) t)))
         (permanent_mut id t)) t"

definition hierarchy_change_auth :: "u32 list \<Rightarrow> bytes \<Rightarrow> ('x, 'q, 's) tpm \<Rightarrow> (rc + bytes) \<times> ('x, 'q, 's) tpm" where
  "hierarchy_change_auth handles r t =
     attempt (rd_run (rd_bind (rd_map_err (rc_param 1) (rd_tpm2b MAX_DIGEST)) (\<lambda>a. rd_end (strip_zeros a))) r)
       (\<lambda>a t. attempt (first_handle handles) (\<lambda>handle t.
         (Inr [],
          if handle = TPM_RH_OWNER then permanent_mut (pm_hierarchies_update (owner_auth_update (\<lambda>_. a))) t
          else if handle = TPM_RH_ENDORSEMENT then permanent_mut (pm_hierarchies_update (endorsement_auth_update (\<lambda>_. a))) t
          else if handle = TPM_RH_LOCKOUT then permanent_mut (pm_hierarchies_update (lockout_auth_update (\<lambda>_. a))) t
          else clear_orderly (volatile_mut (vo_clear_update (platform_auth_update (\<lambda>_. a))) t)))
         (permanent_mut id t)) t"

text \<open>A seed drawn: \<open>rng_seed()?\<close>.\<close>

definition draw :: "seed option \<Rightarrow> (seed \<Rightarrow> 't \<Rightarrow> (rc + 'b) \<times> 't) \<Rightarrow> 't \<Rightarrow> (rc + 'b) \<times> 't" where
  "draw s k t = (case s of None \<Rightarrow> (Inl RC_FAILURE, t) | Some s \<Rightarrow> k s t)"

definition change_pps :: "seed option \<Rightarrow> seed option \<Rightarrow> bytes \<Rightarrow> ('x, 'q, 's) tpm \<Rightarrow> (rc + bytes) \<times> ('x, 'q, 's) tpm" where
  "change_pps s1 s2 r t =
     attempt (rd_run (rd_end ()) r) (\<lambda>_.
     draw s1 (\<lambda>pps t. let t = permanent_mut (pm_pps_update (\<lambda>_. pps)) t in
     draw s2 (\<lambda>proof t.
       let t = permanent_mut (pm_hierarchies_update (ph_proof_update (\<lambda>_. proof))) t;
           t = volatile_mut (vo_clear_update (platform_policy_update (\<lambda>_. policy_default))) t;
           t = flush_hierarchy TPM_RH_PLATFORM t;
           t = flush_persistent TPM_RH_PLATFORM t
       in (Inr [], clear_orderly t)) t)) t"

definition change_eps :: "seed option \<Rightarrow> seed option \<Rightarrow> bytes \<Rightarrow> ('x, 'q, 's) tpm \<Rightarrow> (rc + bytes) \<times> ('x, 'q, 's) tpm" where
  "change_eps s1 s2 r t =
     attempt (rd_run (rd_end ()) r) (\<lambda>_.
     draw s1 (\<lambda>eps t. let t = permanent_mut (pm_eps_update (\<lambda>_. eps)) t in
     draw s2 (\<lambda>proof t.
       let t = permanent_mut (pm_hierarchies_update (\<lambda>h. h\<lparr>eh_proof := proof, endorsement_auth := [],
                 endorsement_policy := policy_default\<rparr>)) t;
           t = volatile_mut (vo_clear_update (eh_enable_update (\<lambda>_. True))) t;
           t = flush_hierarchy TPM_RH_ENDORSEMENT t;
           t = flush_persistent TPM_RH_ENDORSEMENT t
       in (Inr [], clear_orderly t)) t)) t"

text \<open>What \<open>clear\<close> does once its seeds are drawn.\<close>

definition clear_action :: "seed \<Rightarrow> ('x, 'q, 's) tpm \<Rightarrow> ('x, 'q, 's) tpm" where
  "clear_action eh t =
     (let t = permanent_mut (pm_hierarchies_update (\<lambda>h. h\<lparr>eh_proof := eh, owner_auth := [], endorsement_auth := [],
                lockout_auth := [], owner_policy := policy_default, endorsement_policy := policy_default,
                lockout_policy := policy_default\<rparr>)) t;
          t = volatile_mut (vo_clear_update (\<lambda>c. c\<lparr>sh_enable := True, eh_enable := True\<rparr>)) t;
          t = flush_persistent TPM_RH_OWNER (flush_hierarchy TPM_RH_OWNER t);
          t = flush_persistent TPM_RH_ENDORSEMENT (flush_hierarchy TPM_RH_ENDORSEMENT t);
          t = nv_flush_owner t;
          t = permanent_mut (\<lambda>p. p\<lparr>pm_da := da_default, pm_clock := 0, pm_clock_safe := True, pm_reset_count := 0\<rparr>) t;
          t = volatile_mut (\<lambda>v. v\<lparr>vo_restart_count := 0, vo_clear_count := 0\<rparr>) t;
          t = permanent_mut (pm_allocation_update (\<lambda>_. vo_allocation (t_volatile t))) t;
          t = volatile_mut (vo_pcrs_update (pcrs_changed 0)) t
      in clear_orderly t)"

definition tpm_clear :: "seed option \<Rightarrow> seed option \<Rightarrow> seed option \<Rightarrow> bytes \<Rightarrow> ('x, 'q, 's) tpm \<Rightarrow> (rc + bytes) \<times> ('x, 'q, 's) tpm" where
  "tpm_clear s1 s2 s3 r t =
     attempt (sum_bind (rd_run (rd_end ()) r) (\<lambda>_.
       refuse (disable_clear (pm_hierarchies (t_permanent t))) RC_DISABLED)) (\<lambda>_.
     draw s1 (\<lambda>sps t. let t = permanent_mut (pm_sps_update (\<lambda>_. sps)) t in
     draw s2 (\<lambda>sh t. let t = permanent_mut (pm_hierarchies_update (sh_proof_update (\<lambda>_. sh))) t in
     draw s3 (\<lambda>eh t. (Inr [], clear_action eh t)) t) t)) t"

definition clear_control :: "u32 list \<Rightarrow> bytes \<Rightarrow> ('x, 'q, 's) tpm \<Rightarrow> (rc + bytes) \<times> ('x, 'q, 's) tpm" where
  "clear_control handles r t =
     attempt (sum_bind (rd_run (rd_bind (rd_map_err (rc_param 1) read_yes_no) rd_end) r) (\<lambda>disable.
       sum_bind (first_handle handles) (\<lambda>handle.
       sum_bind (refuse (handle = TPM_RH_LOCKOUT \<and> \<not> disable) RC_AUTH_FAIL) (\<lambda>_. Inr disable))))
       (\<lambda>disable t. (Inr [], permanent_mut (pm_hierarchies_update (disable_clear_update (\<lambda>_. disable))) t)) t"

definition dictionary_attack_lock_reset :: "bytes \<Rightarrow> ('x, 'q, 's) tpm \<Rightarrow> (rc + bytes) \<times> ('x, 'q, 's) tpm" where
  "dictionary_attack_lock_reset r t =
     attempt (rd_run (rd_end ()) r) (\<lambda>_ t. (Inr [], permanent_mut (pm_da_update (failed_tries_update (\<lambda>_. 0))) t)) t"

definition dictionary_attack_parameters :: "bytes \<Rightarrow> ('x, 'q, 's) tpm \<Rightarrow> (rc + bytes) \<times> ('x, 'q, 's) tpm" where
  "dictionary_attack_parameters r t =
     attempt (rd_run (rd_bind (rd_map_err (rc_param 1) rd_u32) (\<lambda>mt.
         rd_bind (rd_map_err (rc_param 2) rd_u32) (\<lambda>rt.
         rd_bind (rd_map_err (rc_param 3) rd_u32) (\<lambda>lr. rd_end (mt, rt, lr))))) r)
       (\<lambda>(mt, rt, lr) t. (Inr [], permanent_mut (pm_da_update (\<lambda>da.
          da\<lparr>max_tries := mt, recovery_time := rt, lockout_recovery := lr\<rparr>)) t)) t"

end
