(* ===== verification/Tpm_Commands.thy ===== *)
theory Tpm_Commands
  imports Tpm_Hierarchy Tpm_Nv_Commands
begin

text \<open>
  The handlers of \<^verbatim>\<open>vk-tpm/src/commands.rs\<close>: startup and shutdown, the PCR commands and the short ones
  beside them. The handlers read the clock and draw seeds where the source does: what the host's
  clock says and what the host's random source gives (\<^term>\<open>None\<close> when it fails) are arguments.
\<close>

definition LOCALITY :: nat where "LOCALITY = 0"
definition MAX_EVENT :: nat where "MAX_EVENT = 1024"
definition MAX_SYM_DATA :: nat where "MAX_SYM_DATA = 128"
definition TPM_SU_CLEAR :: u16 where "TPM_SU_CLEAR = 0"
definition TPM_SU_STATE :: u16 where "TPM_SU_STATE = 1"
definition MAX_LOADED :: nat where "MAX_LOADED = 3"
definition FIRST_CONTEXT :: u64 where "FIRST_CONTEXT = word_of_nat MAX_LOADED + 1"

section \<open>Startup and shutdown\<close>

definition read_su :: "(rc, bool) rd" where
  "read_su = rd_bind rd_u16 (\<lambda>x.
     if x = TPM_SU_CLEAR then rd_return False else if x = TPM_SU_STATE then rd_return True else rd_fail RC_VALUE)"

definition restore_session :: "u32 \<times> u64 \<Rightarrow> 's session_slot list \<Rightarrow> 's session_slot list" where
  "restore_session = (\<lambda>(i, sequence) ss. if unat i < length ss then ss[unat i := Saved sequence] else ss)"

definition startup_reset_data ::
  "seed option \<Rightarrow> seed option \<Rightarrow> startup \<Rightarrow> reset_data option \<Rightarrow> ('x, 'q, 's) tpm \<Rightarrow> (rc + unit) \<times> ('x, 'q, 's) tpm" where
  "startup_reset_data s1 s2 kind saved t =
     (let t = volatile_mut (vo_sessions_update (map (\<lambda>_. Free))) t in
      case (if kind = Reset then None else saved) of
        Some d \<Rightarrow>
          (Inr (), volatile_mut (\<lambda>v. v\<lparr>vo_null_proof := rs_null_proof d, vo_null_seed := rs_null_seed d,
             vo_clear_count := (if kind = Restart then rs_clear_count d + 1 else rs_clear_count d),
             vo_restart_count := rs_restart_count d + 1,
             vo_object_context_id := rs_object_context_id d,
             vo_context_counter := rs_context_counter d,
             vo_sessions := fold restore_session (rs_saved_sessions d) (vo_sessions v)\<rparr>) t)
      | None \<Rightarrow>
          draw s1 (\<lambda>proof t. let t = volatile_mut (vo_null_proof_update (\<lambda>_. proof)) t in
          draw s2 (\<lambda>seed t.
            let t = volatile_mut (\<lambda>v. v\<lparr>vo_null_seed := seed, vo_clear_count := 0, vo_restart_count := 0,
                      vo_object_context_id := 0, vo_context_counter := FIRST_CONTEXT\<rparr>) t
            in (Inr (), permanent_mut (\<lambda>p. p\<lparr>pm_reset_count := pm_reset_count p + 1,
                  pm_total_reset_count := pm_total_reset_count p + 1\<rparr>) t)) t) t)"

definition saved_state :: "shutdown \<Rightarrow> saved option" where
  "saved_state s = (case s of Shutdown_State d \<Rightarrow> Some d | _ \<Rightarrow> None)"

definition startup_kind :: "bool \<Rightarrow> saved option \<Rightarrow> rc + startup" where
  "startup_kind state saved =
     (if state then (if saved = None then Inl (rc_param 1 RC_VALUE) else Inr Resume)
      else Inr (if saved = None then Reset else Restart))"

text \<open>What \<open>startup\<close> does before \<open>startup_reset_data\<close>, and after it.\<close>

definition startup_before :: "u64 \<Rightarrow> startup \<Rightarrow> ('x, 'q, 's) tpm \<Rightarrow> ('x, 'q, 's) tpm" where
  "startup_before now kind t =
     (let previous = pm_shutdown (t_permanent t);
          orderly = is_orderly previous;
          saved = saved_state previous;
          t = update_time now t;
          time_reset = vo_time_reset (t_volatile t);
          t = volatile_mut (vo_time_reset_update (\<lambda>_. False)) t;
          t = (if time_reset then permanent_mut (pm_time_epoch_update (\<lambda>e. e + 1)) t else t);
          t = da_startup orderly time_reset (previous = DaUsed) t;
          t = volatile_mut (\<lambda>v. v\<lparr>vo_ph_enable := True,
                vo_clear := (case saved of Some d \<Rightarrow> if kind = Resume then sa_clear d else clear_state_default
                             | None \<Rightarrow> clear_state_default),
                vo_pcrs := pcrs_startup (vo_allocation v) kind (map_option sa_pcrs saved) (vo_pcrs v),
                vo_pcr_reconfig := False\<rparr>) t
      in if \<not> orderly then permanent_mut (pm_clock_safe_update (\<lambda>_. False)) t else t)"

definition startup_after :: "startup \<Rightarrow> bool \<Rightarrow> ('x, 'q, 's) tpm \<Rightarrow> ('x, 'q, 's) tpm" where
  "startup_after kind orderly t =
     (let t = nv_startup kind orderly t;
          t = volatile_mut (\<lambda>v. v\<lparr>vo_objects := map (\<lambda>_. None) (vo_objects v), vo_exclusive_audit := None,
                vo_orderly_startup := orderly, vo_da_used := False, vo_started := True\<rparr>) t
      in permanent_mut (pm_shutdown_update (\<lambda>_. Shutdown_None)) t)"

definition startup_command ::
  "u64 \<Rightarrow> seed option \<Rightarrow> seed option \<Rightarrow> bytes \<Rightarrow> ('x, 'q, 's) tpm \<Rightarrow> (rc + bytes) \<times> ('x, 'q, 's) tpm" where
  "startup_command now s1 s2 r t =
     (let previous = pm_shutdown (t_permanent t); saved = saved_state previous in
      attempt (sum_bind (rd_run (rd_bind (rd_map_err (rc_param 1) read_su) rd_end) r)
          (\<lambda>state. startup_kind state saved))
        (\<lambda>kind t.
          case startup_reset_data s1 s2 kind (map_option sa_reset saved) (startup_before now kind t) of
            (Inl e, t) \<Rightarrow> (Inl e, t)
          | (Inr _, t) \<Rightarrow> (Inr [], startup_after kind (is_orderly previous) t)) t)"

definition shutdown_command :: "bytes \<Rightarrow> ('x, 'q, 's) tpm \<Rightarrow> (rc + bytes) \<times> ('x, 'q, 's) tpm" where
  "shutdown_command r t =
     attempt (sum_bind (rd_run (rd_bind (rd_map_err (rc_param 1) read_su) rd_end) r) (\<lambda>state.
         sum_bind (refuse (state \<and> vo_pcr_reconfig (t_volatile t)) (rc_param 1 RC_TYPE)) (\<lambda>_. Inr state)))
       (\<lambda>state t.
         let t = volatile_mut (vo_da_used_update (\<lambda>_. False)) t;
             t = nv_store_orderly t
         in (Inr [], permanent_mut (\<lambda>p. p\<lparr>pm_shutdown_time := vo_time (t_volatile t),
               pm_shutdown := (if state
                 then Shutdown_State \<lparr>sa_pcrs = pcrs_save (vo_pcrs (t_volatile t)), sa_clear = vo_clear (t_volatile t),
                        sa_reset = volatile_reset_data (t_volatile t)\<rparr>
                 else Shutdown_Clear)\<rparr>) t)) t"

section \<open>Short commands\<close>

definition self_test :: "bytes \<Rightarrow> rc + bytes" where
  "self_test r = rd_run (rd_bind (rd_map_err (rc_param 1) read_yes_no) (\<lambda>_. rd_end [])) r"

text \<open>\<open>random n\<close>: what the host's random source answers when asked for \<open>n\<close> bytes.\<close>

definition get_random :: "(nat \<Rightarrow> bytes option) \<Rightarrow> bytes \<Rightarrow> rc + bytes" where
  "get_random random r = sum_bind (rd_run (rd_bind (rd_map_err (rc_param 1) rd_u16) rd_end) r) (\<lambda>wanted.
     sum_bind (ok_or RC_FAILURE (random (min (unat wanted) MAX_DIGEST))) (\<lambda>bs. Inr (put_tpm2b bs)))"

definition stir_random :: "bytes \<Rightarrow> rc + bytes" where
  "stir_random r = rd_run (rd_bind (rd_map_err (rc_param 1) (rd_tpm2b MAX_SYM_DATA)) (\<lambda>_. rd_end [])) r"

definition get_test_result :: "bytes \<Rightarrow> rc + bytes" where
  "get_test_result r = rd_run (rd_end (put_tpm2b [] @ to_be_bytes (0 :: u32))) r"

definition write_clock_info :: "('x, 'q, 's) tpm \<Rightarrow> bytes" where
  "write_clock_info t =
     to_be_bytes (pm_clock (t_permanent t)) @ to_be_bytes (pm_reset_count (t_permanent t))
     @ to_be_bytes (vo_restart_count (t_volatile t)) @ [bool_byte (pm_clock_safe (t_permanent t))]"

definition read_clock :: "bytes \<Rightarrow> ('x, 'q, 's) tpm \<Rightarrow> rc + bytes" where
  "read_clock r t = rd_run (rd_end (to_be_bytes (vo_time (t_volatile t)) @ write_clock_info t)) r"

section \<open>PCR commands\<close>

definition read_digest_values :: "(rc, (hash \<times> bytes) list) rd" where
  "read_digest_values = rd_bind (rd_count (length HASH_ALL)) (\<lambda>n.
     rd_times n (rd_bind hash_read (\<lambda>h. rd_bind (rd_bytes (hash_size h)) (\<lambda>d. rd_return (h, d)))))"

definition write_digest_values :: "(hash \<times> bytes) list \<Rightarrow> bytes" where
  "write_digest_values ds = put_count (length ds) @ concat (map (\<lambda>(h, d). to_be_bytes (hash_id h) @ d) ds)"

definition pcr_read_command :: "bytes \<Rightarrow> ('x, 'q, 's) tpm \<Rightarrow> rc + bytes" where
  "pcr_read_command r t =
     sum_bind (rd_run (rd_bind (rd_map_err (rc_param 1) read_selections) rd_end) r) (\<lambda>selections.
       let pcrs = vo_pcrs (t_volatile t);
           (selected, digests) = pcrs_read (vo_allocation (t_volatile t)) selections pcrs
       in Inr (to_be_bytes (p_counter pcrs) @ write_selections selected @ put_count (length digests)
                @ concat (map put_tpm2b digests)))"

definition pcr_to_extend :: "u32 \<Rightarrow> ('x, 'q, 's) tpm \<Rightarrow> (rc + nat option) \<times> ('x, 'q, 's) tpm" where
  "pcr_to_extend handle t =
     (if handle = TPM_RH_NULL then (Inr None, t)
      else let pcr = unat handle in
        if \<not> may_extend pcr LOCALITY then (Inl RC_LOCALITY, t)
        else (Inr (Some pcr), if is_state_saved pcr then clear_orderly t else t))"

definition tpm_extend :: "digest_fun \<Rightarrow> nat \<Rightarrow> (hash \<times> bytes) list \<Rightarrow> ('x, 'q, 's) tpm \<Rightarrow> ('x, 'q, 's) tpm" where
  "tpm_extend D pcr digests t = fold (\<lambda>(h, d) t.
     volatile_mut (\<lambda>v. v\<lparr>vo_pcrs := pcrs_extend D (vo_allocation v) pcr h d (vo_pcrs v)\<rparr>) t) digests t"

definition pcr_extend :: "digest_fun \<Rightarrow> u32 list \<Rightarrow> bytes \<Rightarrow> ('x, 'q, 's) tpm \<Rightarrow> (rc + bytes) \<times> ('x, 'q, 's) tpm" where
  "pcr_extend D handles r t =
     attempt (sum_bind (rd_run (rd_bind (rd_map_err (rc_param 1) read_digest_values) rd_end) r) (\<lambda>digests.
         sum_bind (first_handle handles) (\<lambda>handle. Inr (digests, handle))))
       (\<lambda>(digests, handle) t.
         case pcr_to_extend handle t of
           (Inl e, t) \<Rightarrow> (Inl e, t)
         | (Inr None, t) \<Rightarrow> (Inr [], t)
         | (Inr (Some pcr), t) \<Rightarrow> (Inr [], tpm_extend D pcr digests t)) t"

definition pcr_event :: "digest_fun \<Rightarrow> u32 list \<Rightarrow> bytes \<Rightarrow> ('x, 'q, 's) tpm \<Rightarrow> (rc + bytes) \<times> ('x, 'q, 's) tpm" where
  "pcr_event D handles r t =
     attempt (sum_bind (rd_run (rd_bind (rd_map_err (rc_param 1) (rd_tpm2b MAX_EVENT)) rd_end) r) (\<lambda>d.
         sum_bind (first_handle handles) (\<lambda>handle. Inr (d, handle))))
       (\<lambda>(d, handle) t.
         case pcr_to_extend handle t of
           (Inl e, t) \<Rightarrow> (Inl e, t)
         | (Inr pcr, t) \<Rightarrow>
             let digests = map (\<lambda>h. (h, hash_digest D h [d])) HASH_ALL
             in (Inr (write_digest_values digests),
                 case pcr of None \<Rightarrow> t | Some pcr \<Rightarrow> tpm_extend D pcr digests t)) t"

definition pcr_reset :: "u32 list \<Rightarrow> bytes \<Rightarrow> ('x, 'q, 's) tpm \<Rightarrow> (rc + bytes) \<times> ('x, 'q, 's) tpm" where
  "pcr_reset handles r t =
     attempt (sum_bind (rd_run (rd_end ()) r) (\<lambda>_.
         sum_bind (first_handle handles) (\<lambda>handle.
         sum_bind (refuse (\<not> may_reset (unat handle) LOCALITY) RC_LOCALITY) (\<lambda>_. Inr (unat handle)))))
       (\<lambda>pcr t.
         let t = (if is_state_saved pcr then clear_orderly t else t)
         in (Inr [], volatile_mut (\<lambda>v. v\<lparr>vo_pcrs := pcrs_reset (vo_allocation v) pcr (vo_pcrs v)\<rparr>) t)) t"

definition allocate_bank :: "selection \<Rightarrow> selection list \<Rightarrow> selection list" where
  "allocate_bank s = update_first (\<lambda>b. s_hash b = s_hash s) (\<lambda>_. s)"

definition pcr_allocate :: "bytes \<Rightarrow> ('x, 'q, 's) tpm \<Rightarrow> (rc + bytes) \<times> ('x, 'q, 's) tpm" where
  "pcr_allocate r t =
     attempt (sum_bind (rd_run (rd_bind (rd_map_err (rc_param 1) read_selections) rd_end) r) (\<lambda>requested.
         let allocation = fold allocate_bank requested (vo_allocation (t_volatile t));
             kept = (\<lambda>pcr. list_ex (\<lambda>s. selection_has s pcr) allocation)
         in sum_bind (refuse (\<not> kept HCRTM_PCR \<or> \<not> kept DRTM_PCR) RC_PCR) (\<lambda>_. Inr allocation)))
       (\<lambda>allocation t.
         let needed = sum_list (map (\<lambda>s. selection_count s * hash_size (s_hash s)) allocation);
             t = permanent_mut (pm_allocation_update (\<lambda>_. allocation)) t;
             t = volatile_mut (vo_pcr_reconfig_update (\<lambda>_. True)) t
         in (Inr (1 # to_be_bytes (word_of_nat PCR_COUNT :: u32)
                    @ to_be_bytes (case u32_try_from needed of Some n \<Rightarrow> n | None \<Rightarrow> 0xffffffff)
                    @ to_be_bytes PCR_MEMORY), t)) t"

end
