(* ===== verification/Tpm_Permanent.thy ===== *)
theory Tpm_Permanent
  imports Tpm_State
begin

text \<open>
  The permanent state as bytes: \<open>Permanent::serialize\<close> and \<open>Permanent::deserialize\<close> of
  \<^verbatim>\<open>vk-tpm/src/state.rs\<close>, and a newly manufactured TPM. How a key is written is a parameter
  (\<open>put_key\<close>, \<open>get_key\<close>), since reading one back rebuilds its RSA private key; it is assumed to be an encoding
  (\<open>codec\<close>). \<open>permanent_ok\<close> is exactly what can be stored: a state is read back as it was written,
  and nothing that does not satisfy it is ever read.
\<close>

section \<open>Manufacture\<close>

text \<open>A seed of the host's random source, which may fail.\<close>

definition new_seed :: "seed option \<Rightarrow> state_error + seed" where
  "new_seed s = ok_or (StateError ''no entropy for the seeds'') s"

definition hierarchies_manufacture :: "seed option \<Rightarrow> seed option \<Rightarrow> seed option \<Rightarrow> state_error + hierarchies" where
  "hierarchies_manufacture s1 s2 s3 =
     sum_bind (new_seed s1) (\<lambda>ph. sum_bind (new_seed s2) (\<lambda>sh. sum_bind (new_seed s3) (\<lambda>eh.
     Inr \<lparr>owner_auth = [], endorsement_auth = [], lockout_auth = [], owner_policy = policy_default,
      endorsement_policy = policy_default, lockout_policy = policy_default, ph_proof = ph, sh_proof = sh,
      eh_proof = eh, disable_clear = False\<rparr>)))"

definition permanent_manufacture ::
  "seed option \<Rightarrow> seed option \<Rightarrow> seed option \<Rightarrow> seed option \<Rightarrow> seed option \<Rightarrow> seed option \<Rightarrow> state_error + 'x permanent" where
  "permanent_manufacture s1 s2 s3 s4 s5 s6 =
     sum_bind (new_seed s1) (\<lambda>eps. sum_bind (new_seed s2) (\<lambda>sps. sum_bind (new_seed s3) (\<lambda>pps.
     sum_bind (hierarchies_manufacture s4 s5 s6) (\<lambda>h.
     Inr \<lparr>pm_eps = eps, pm_sps = sps, pm_pps = pps, pm_hierarchies = h,
          pm_allocation = map (\<lambda>h. selection_all h True) HASH_ALL, pm_da = da_default,
          pm_shutdown = Shutdown_Clear, pm_shutdown_time = 0, pm_persistent = [], pm_reset_count = 0,
          pm_total_reset_count = 0, pm_clock = 0, pm_clock_safe = True, pm_time_epoch = 0, pm_nv = [],
          pm_nv_max_counter = 0\<rparr>))))"

section \<open>Serialization\<close>

definition PERMANENT_MAGIC :: bytes where
  "PERMANENT_MAGIC = map (\<lambda>c. word_of_nat (of_char c)) ''VKTPM-P'' @ [0]"

definition VERSION :: u16 where "VERSION = 1"

definition MAX_PERSISTENT :: nat where "MAX_PERSISTENT = 16"

definition expect_header :: "bytes \<Rightarrow> (state_error, unit) rd" where
  "expect_header magic = rd_bind (rd_state (rd_bytes (length magic))) (\<lambda>b.
     if b \<noteq> magic then rd_fail (StateError ''not a vk-tpm state'')
     else rd_bind (rd_state rd_u16) (\<lambda>v.
       if v \<noteq> VERSION then rd_fail (StateError ''unknown format version'') else rd_return ()))"

definition expect_end :: "'a \<Rightarrow> (state_error, 'a) rd" where
  "expect_end x r = (if r = [] then Inr (x, r) else Inl (StateError ''trailing bytes''))"

definition write_persistent :: "('x key \<Rightarrow> bytes) \<Rightarrow> (u32 \<times> 'x key) list \<Rightarrow> bytes" where
  "write_persistent put_key ks = put_count (length ks) @ concat (map (\<lambda>(h, k). to_be_bytes h @ put_key k) ks)"

primrec read_persistent_loop ::
  "(state_error, 'x key) rd \<Rightarrow> nat \<Rightarrow> (u32 \<times> 'x key) list \<Rightarrow> (state_error, (u32 \<times> 'x key) list) rd" where
  "read_persistent_loop get_key 0 acc = rd_return acc"
| "read_persistent_loop get_key (Suc n) acc = rd_bind (rd_state rd_u32) (\<lambda>handle.
     if acc \<noteq> [] \<and> fst (last acc) \<ge> handle then rd_fail (StateError ''persistent objects out of order'')
     else rd_bind get_key (\<lambda>k. read_persistent_loop get_key n (acc @ [(handle, k)])))"

definition read_persistent :: "(state_error, 'x key) rd \<Rightarrow> (state_error, (u32 \<times> 'x key) list) rd" where
  "read_persistent get_key = rd_bind (rd_state (rd_count MAX_PERSISTENT)) (\<lambda>n. read_persistent_loop get_key n [])"

definition permanent_serialize :: "('x key \<Rightarrow> bytes) \<Rightarrow> 'x permanent \<Rightarrow> bytes" where
  "permanent_serialize put_key p =
     PERMANENT_MAGIC @ to_be_bytes VERSION @ put_tpm2b (pm_eps p) @ put_tpm2b (pm_sps p) @ put_tpm2b (pm_pps p)
     @ hierarchies_write (pm_hierarchies p) @ write_selections (pm_allocation p) @ da_write (pm_da p)
     @ write_shutdown (pm_shutdown p) @ to_be_bytes (pm_shutdown_time p) @ write_persistent put_key (pm_persistent p)
     @ to_be_bytes (pm_reset_count p) @ to_be_bytes (pm_total_reset_count p) @ to_be_bytes (pm_clock p)
     @ [bool_byte (pm_clock_safe p)] @ to_be_bytes (pm_time_epoch p) @ write_nv (pm_nv p) (pm_nv_max_counter p)"

definition permanent_deserialize :: "(state_error, 'x key) rd \<Rightarrow> (state_error, 'x permanent) rd" where
  "permanent_deserialize get_key =
     rd_bind (expect_header PERMANENT_MAGIC) (\<lambda>_.
     rd_bind read_seed (\<lambda>eps. rd_bind read_seed (\<lambda>sps. rd_bind read_seed (\<lambda>pps.
     rd_bind hierarchies_read (\<lambda>hierarchies.
     rd_bind read_allocation (\<lambda>allocation.
     rd_bind da_read (\<lambda>da.
     rd_bind read_shutdown (\<lambda>shutdown.
     rd_bind (rd_state rd_u64) (\<lambda>shutdown_time.
     rd_bind (read_persistent get_key) (\<lambda>persistent.
     rd_bind (rd_state rd_u32) (\<lambda>reset_count.
     rd_bind (rd_state rd_u64) (\<lambda>total_reset_count.
     rd_bind (rd_state rd_u64) (\<lambda>clock.
     rd_bind read_bool (\<lambda>clock_safe.
     rd_bind (rd_state rd_u32) (\<lambda>time_epoch.
     rd_bind read_nv (\<lambda>(nv, max_counter).
     expect_end \<lparr>pm_eps = eps, pm_sps = sps, pm_pps = pps, pm_hierarchies = hierarchies, pm_allocation = allocation,
       pm_da = da, pm_shutdown = shutdown, pm_shutdown_time = shutdown_time, pm_persistent = persistent,
       pm_reset_count = reset_count, pm_total_reset_count = total_reset_count, pm_clock = clock,
       pm_clock_safe = clock_safe, pm_time_epoch = time_epoch, pm_nv = nv, pm_nv_max_counter = max_counter\<rparr>))))))))))))))))"

section \<open>What can be stored\<close>

definition seed_ok :: "seed \<Rightarrow> bool" where
  "seed_ok s \<longleftrightarrow> length s = SEED_SIZE"

definition banks_allocated :: "selection list \<Rightarrow> bool" where
  "banks_allocated ss \<longleftrightarrow> allocation_ok ss \<and> distinct (map s_hash ss)"

definition persistent_ok :: "(u32 \<times> 'x key) list \<Rightarrow> bool" where
  "persistent_ok ks \<longleftrightarrow> sorted_wrt (<) (map fst ks) \<and> length ks \<le> MAX_PERSISTENT"

definition permanent_ok :: "'x permanent \<Rightarrow> bool" where
  "permanent_ok p \<longleftrightarrow> seed_ok (pm_eps p) \<and> seed_ok (pm_sps p) \<and> seed_ok (pm_pps p) \<and> hierarchies_ok (pm_hierarchies p)
     \<and> banks_allocated (pm_allocation p) \<and> shutdown_ok (pm_shutdown p) \<and> nv_list_ok (pm_nv p)
     \<and> persistent_ok (pm_persistent p)"

lemma expect_header_iff [simp]: "expect_header magic b = Inr (u, r) \<longleftrightarrow> b = magic @ to_be_bytes VERSION @ r"
  by (auto simp: expect_header_def)

lemma expect_end_iff [simp]: "expect_end x b = Inr (y, r) \<longleftrightarrow> y = x \<and> r = [] \<and> b = []"
  by (auto simp: expect_end_def)

lemma sorted_snoc:
  "acc = [] \<or> sorted_wrt (<) (map fst acc) \<Longrightarrow>
     sorted_wrt (<) (map fst (acc @ [y])) \<longleftrightarrow> acc = [] \<or> fst (last acc) < (fst y :: u32)"
  by (cases acc rule: rev_cases) (auto simp: sorted_wrt_append)

lemma read_persistent_loop_iff:
  assumes "codec put_key get_key key_ok" and "sorted_wrt (<) (map fst acc)"
  shows "read_persistent_loop get_key n acc b = Inr (xs, r) \<longleftrightarrow>
     (\<exists>ys. xs = acc @ ys \<and> b = concat (map (\<lambda>(h, k). to_be_bytes h @ put_key k) ys) @ r \<and> length ys = n
        \<and> list_all (\<lambda>(_, k). key_ok k) ys \<and> sorted_wrt (<) (map fst (acc @ ys)))"
  using assms(2)
proof (induction n arbitrary: acc b)
  case 0
  then show ?case by auto
next
  case (Suc n)
  note get = codec.get_iff [OF assms(1)]
  let ?w = "\<lambda>(h, k). to_be_bytes h @ put_key k"
  have "read_persistent_loop get_key (Suc n) acc b = Inr (xs, r) \<longleftrightarrow>
      (\<exists>y r'. b = ?w y @ r' \<and> key_ok (snd y) \<and> sorted_wrt (<) (map fst (acc @ [y]))
        \<and> read_persistent_loop get_key n (acc @ [y]) r' = Inr (xs, r))"
    using sorted_snoc [of acc] Suc.prems by (auto simp: get not_le)
  also have "\<dots> \<longleftrightarrow> (\<exists>y ys. xs = acc @ y # ys \<and> b = concat (map ?w (y # ys)) @ r \<and> length ys = n
      \<and> list_all (\<lambda>(_, k). key_ok k) (y # ys) \<and> sorted_wrt (<) (map fst (acc @ y # ys)))"
  proof -
    have step: "sorted_wrt (<) (map fst (acc @ [y])) \<and> read_persistent_loop get_key n (acc @ [y]) r' = Inr (xs, r) \<longleftrightarrow>
        (\<exists>ys. xs = acc @ y # ys \<and> r' = concat (map ?w ys) @ r \<and> length ys = n \<and> list_all (\<lambda>(_, k). key_ok k) ys
           \<and> sorted_wrt (<) (map fst (acc @ y # ys)))" for y r'
      using Suc.IH [of "acc @ [y]" r'] by (cases "sorted_wrt (<) (map fst (acc @ [y]))") (auto simp: sorted_wrt_append)
    show ?thesis unfolding step by (auto simp: case_prod_beta)
  qed
  also have "\<dots> \<longleftrightarrow> (\<exists>ys. xs = acc @ ys \<and> b = concat (map ?w ys) @ r \<and> length ys = Suc n
      \<and> list_all (\<lambda>(_, k). key_ok k) ys \<and> sorted_wrt (<) (map fst (acc @ ys)))"
    unfolding length_Suc_conv by blast
  finally show ?case .
qed

lemma read_persistent_iff:
  assumes "codec put_key get_key key_ok"
  shows "read_persistent get_key b = Inr (ks, r) \<longleftrightarrow>
     b = write_persistent put_key ks @ r \<and> persistent_ok ks \<and> list_all (\<lambda>(_, k). key_ok k) ks"
proof -
  have "length ks \<le> MAX_PERSISTENT \<Longrightarrow> length ks < 4294967296" by (simp add: MAX_PERSISTENT_def)
  then show ?thesis
    by (auto simp: read_persistent_def write_persistent_def persistent_ok_def read_persistent_loop_iff [OF assms])
qed

text \<open>The state is read back exactly as it was written, and only a storable one is ever read.\<close>

lemma permanent_deserialize_iff:
  assumes "codec put_key get_key key_ok"
  shows "permanent_deserialize get_key b = Inr (p, r) \<longleftrightarrow>
     r = [] \<and> b = permanent_serialize put_key p \<and> permanent_ok p \<and> list_all (\<lambda>(_, k). key_ok k) (pm_persistent p)"
proof -
  have nv: "read_nv b = Inr ((xs, m), r) \<longleftrightarrow> b = write_nv xs m @ r \<and> nv_list_ok xs" for b xs m r
    using nv.get_iff [of b "(xs, m)" r] by simp
  show ?thesis
    by (cases p) (auto simp: permanent_deserialize_def permanent_serialize_def permanent_ok_def seed_ok_def
        banks_allocated_def seed.get_iff hierarchies.get_iff allocation.get_iff dictionary_attack.get_iff
        shutdown.get_iff read_persistent_iff [OF assms] nv)
qed

lemma permanent_manufacture_ok:
  assumes "permanent_manufacture s1 s2 s3 s4 s5 s6 = Inr p"
    and "list_all (pred_option (\<lambda>s. length s = SEED_SIZE)) [s1, s2, s3, s4, s5, s6]"
  shows "permanent_ok p"
proof -
  have "banks_allocated (map (\<lambda>h. selection_all h True) HASH_ALL)"
    by (simp add: banks_allocated_def allocation_ok_def HASH_ALL_def selection_all_def PCR_SELECT_def PCR_COUNT_def)
  moreover have "policy_ok policy_default" by (simp add: policy_ok_def policy_default_def policy_size_def)
  moreover have "persistent_ok []" "nv_list_ok []" "shutdown_ok Shutdown_Clear"
    by (simp_all add: persistent_ok_def nv_list_ok_def nv_used_def ram_used_def shutdown_ok_def)
  ultimately show ?thesis using assms
    by (auto simp: permanent_manufacture_def hierarchies_manufacture_def new_seed_def sum_bind_eq_Inr permanent_ok_def
        seed_ok_def hierarchies_ok_def)
qed

end
