(* ===== verification/Tpm_Machine.thy ===== *)
theory Tpm_Machine
  imports Tpm_Commands Tpm_Permanent Vk_Machine
begin

text \<open>
  The TPM as a machine. \<open>execute\<close> is what \<open>Tpm::execute\<close> of \<^verbatim>\<open>vk-tpm/src/lib.rs\<close> does around a handler
  that is modelled: the order of TPM2_Startup and the other commands, the time, the dictionary-attack
  timers, the handler. A step of the machine is such a command with any handles and any parameters,
  whether or not it was authorized, or one of the things authorization and the commands about keys,
  sessions and contexts do to the state, or a loss of power, which leaves what was stored last.
\<close>

section \<open>Commands\<close>

text \<open>The commands whose handlers are modelled, and their codes.\<close>

datatype nv_command =
  NvUndefineSpaceSpecial | NvUndefineSpace | NvDefineSpace | NvGlobalWriteLock | NvIncrement
| NvSetBits | NvExtend | NvWrite | NvWriteLock | NvChangeAuth | NvRead | NvReadLock | NvReadPublic

datatype hierarchy_command =
  HierarchyControl | ChangeEps | ChangePps | Clear | ClearControl | HierarchyChangeAuth | SetPrimaryPolicy
| DictionaryAttackLockReset | DictionaryAttackParameters

datatype basic_command =
  PcrAllocate | PcrEvent | PcrReset | SelfTest | StartupCommand | ShutdownCommand | StirRandom
| GetRandom | GetTestResult | PcrRead | ReadClock | PcrExtend

datatype command = Nv nv_command | Hierarchy hierarchy_command | Basic basic_command

primrec nv_code :: "nv_command \<Rightarrow> u32" where
  "nv_code NvUndefineSpaceSpecial = 0x11f"
| "nv_code NvUndefineSpace = 0x122"
| "nv_code NvDefineSpace = 0x12a"
| "nv_code NvGlobalWriteLock = 0x132"
| "nv_code NvIncrement = 0x134"
| "nv_code NvSetBits = 0x135"
| "nv_code NvExtend = 0x136"
| "nv_code NvWrite = 0x137"
| "nv_code NvWriteLock = 0x138"
| "nv_code NvChangeAuth = 0x13b"
| "nv_code NvRead = 0x14e"
| "nv_code NvReadLock = 0x14f"
| "nv_code NvReadPublic = 0x169"

primrec hierarchy_code :: "hierarchy_command \<Rightarrow> u32" where
  "hierarchy_code HierarchyControl = 0x121"
| "hierarchy_code ChangeEps = 0x124"
| "hierarchy_code ChangePps = 0x125"
| "hierarchy_code Clear = 0x126"
| "hierarchy_code ClearControl = 0x127"
| "hierarchy_code HierarchyChangeAuth = 0x129"
| "hierarchy_code SetPrimaryPolicy = 0x12e"
| "hierarchy_code DictionaryAttackLockReset = 0x139"
| "hierarchy_code DictionaryAttackParameters = 0x13a"

primrec basic_code :: "basic_command \<Rightarrow> u32" where
  "basic_code PcrAllocate = 0x12b"
| "basic_code PcrEvent = 0x13c"
| "basic_code PcrReset = 0x13d"
| "basic_code SelfTest = 0x143"
| "basic_code StartupCommand = 0x144"
| "basic_code ShutdownCommand = 0x145"
| "basic_code StirRandom = 0x146"
| "basic_code GetRandom = 0x17b"
| "basic_code GetTestResult = 0x17c"
| "basic_code PcrRead = 0x17e"
| "basic_code ReadClock = 0x181"
| "basic_code PcrExtend = 0x182"

primrec command_code :: "command \<Rightarrow> u32" where
  "command_code (Nv c) = nv_code c"
| "command_code (Hierarchy c) = hierarchy_code c"
| "command_code (Basic c) = basic_code c"

text \<open>What the host gives a command: its clock, and its random source, asked for up to three seeds.\<close>

record host =
  h_now :: u64
  h_seed1 :: "seed option"
  h_seed2 :: "seed option"
  h_seed3 :: "seed option"
  h_random :: "nat \<Rightarrow> bytes option"

primrec run_nv :: "digest_fun \<Rightarrow> nv_command \<Rightarrow> u32 list \<Rightarrow> bytes \<Rightarrow> ('x, 'q, 's) tpm \<Rightarrow> (rc + bytes) \<times> ('x, 'q, 's) tpm" where
  "run_nv D NvUndefineSpaceSpecial hs r t = undefine_space_special hs r t"
| "run_nv D NvUndefineSpace hs r t = undefine_space hs r t"
| "run_nv D NvDefineSpace hs r t = define_space hs r t"
| "run_nv D NvGlobalWriteLock hs r t = nv_global_write_lock r t"
| "run_nv D NvIncrement hs r t = nv_increment hs r t"
| "run_nv D NvSetBits hs r t = nv_set_bits hs r t"
| "run_nv D NvExtend hs r t = nv_extend D hs r t"
| "run_nv D NvWrite hs r t = nv_write_command hs r t"
| "run_nv D NvWriteLock hs r t = nv_write_lock hs r t"
| "run_nv D NvChangeAuth hs r t = nv_change_auth hs r t"
| "run_nv D NvRead hs r t = nv_read_command hs r t"
| "run_nv D NvReadLock hs r t = nv_read_lock hs r t"
| "run_nv D NvReadPublic hs r t = read_public D hs r t"

primrec run_hierarchy :: "host \<Rightarrow> hierarchy_command \<Rightarrow> u32 list \<Rightarrow> bytes \<Rightarrow> ('x, 'q, 's) tpm \<Rightarrow> (rc + bytes) \<times> ('x, 'q, 's) tpm" where
  "run_hierarchy h HierarchyControl hs r t = hierarchy_control hs r t"
| "run_hierarchy h ChangeEps hs r t = change_eps (h_seed1 h) (h_seed2 h) r t"
| "run_hierarchy h ChangePps hs r t = change_pps (h_seed1 h) (h_seed2 h) r t"
| "run_hierarchy h Clear hs r t = tpm_clear (h_seed1 h) (h_seed2 h) (h_seed3 h) r t"
| "run_hierarchy h ClearControl hs r t = clear_control hs r t"
| "run_hierarchy h HierarchyChangeAuth hs r t = hierarchy_change_auth hs r t"
| "run_hierarchy h SetPrimaryPolicy hs r t = set_primary_policy hs r t"
| "run_hierarchy h DictionaryAttackLockReset hs r t = dictionary_attack_lock_reset r t"
| "run_hierarchy h DictionaryAttackParameters hs r t = dictionary_attack_parameters r t"

primrec run_basic :: "digest_fun \<Rightarrow> host \<Rightarrow> basic_command \<Rightarrow> u32 list \<Rightarrow> bytes \<Rightarrow> ('x, 'q, 's) tpm \<Rightarrow> (rc + bytes) \<times> ('x, 'q, 's) tpm" where
  "run_basic D h PcrAllocate hs r t = pcr_allocate r t"
| "run_basic D h PcrEvent hs r t = pcr_event D hs r t"
| "run_basic D h PcrReset hs r t = pcr_reset hs r t"
| "run_basic D h SelfTest hs r t = (self_test r, t)"
| "run_basic D h StartupCommand hs r t = startup_command (h_now h) (h_seed1 h) (h_seed2 h) r t"
| "run_basic D h ShutdownCommand hs r t = shutdown_command r t"
| "run_basic D h StirRandom hs r t = (stir_random r, t)"
| "run_basic D h GetRandom hs r t = (get_random (h_random h) r, t)"
| "run_basic D h GetTestResult hs r t = (get_test_result r, t)"
| "run_basic D h PcrRead hs r t = (pcr_read_command r t, t)"
| "run_basic D h ReadClock hs r t = (read_clock r t, t)"
| "run_basic D h PcrExtend hs r t = pcr_extend D hs r t"

primrec run :: "digest_fun \<Rightarrow> host \<Rightarrow> command \<Rightarrow> u32 list \<Rightarrow> bytes \<Rightarrow> ('x, 'q, 's) tpm \<Rightarrow> (rc + bytes) \<times> ('x, 'q, 's) tpm" where
  "run D h (Nv c) hs r t = run_nv D c hs r t"
| "run D h (Hierarchy c) hs r t = run_hierarchy h c hs r t"
| "run D h (Basic c) hs r t = run_basic D h c hs r t"

definition begin_command :: "u64 \<Rightarrow> ('x, 'q, 's) tpm \<Rightarrow> ('x, 'q, 's) tpm" where
  "begin_command now t = (if vo_started (t_volatile t) then da_self_heal (update_time now t) else t)"

text \<open>The handles and parameters reach the handler after \<open>Tpm::execute\<close> has read and checked them and authorized
  the command. Here they are any: what is proved of every run of a handler holds of the authorized ones.\<close>

definition execute :: "digest_fun \<Rightarrow> host \<Rightarrow> command \<Rightarrow> u32 list \<Rightarrow> bytes \<Rightarrow> ('x, 'q, 's) tpm
    \<Rightarrow> (rc + bytes) \<times> ('x, 'q, 's) tpm" where
  "execute D h c hs r t =
     (if (c = Basic StartupCommand) \<noteq> (\<not> vo_started (t_volatile t)) then (Inl RC_INITIALIZE, t)
      else run D h c hs r (begin_command (h_now h) t))"

section \<open>Provisioning\<close>

datatype ek_kind = Rsa2048 | EccNistP256

primrec ek_handle :: "ek_kind \<Rightarrow> u32" where
  "ek_handle Rsa2048 = 0x81010001"
| "ek_handle EccNistP256 = 0x81010002"

primrec certificate_index :: "ek_kind \<Rightarrow> u32" where
  "certificate_index Rsa2048 = 0x01c00002"
| "certificate_index EccNistP256 = 0x01c0000a"

definition CERTIFICATE_ATTRIBUTES :: u32 where
  "CERTIFICATE_ATTRIBUTES = PLATFORMCREATE OR PPWRITE OR PPREAD OR OWNERREAD OR AUTHREAD OR NO_DA OR WRITEDEFINE
     OR WRITTEN OR WRITELOCKED"

definition certificate_public :: "ek_kind \<Rightarrow> u16 \<Rightarrow> nv_public" where
  "certificate_public kind n =
     \<lparr>np_index = certificate_index kind, np_name_alg = Sha256, np_attributes = CERTIFICATE_ATTRIBUTES,
      np_auth_policy = [], np_data_size = n\<rparr>"

text \<open>\<open>ek\<close>: what \<open>primary_key\<close> makes of the endorsement seed and the template.\<close>

definition provision_endorsement_key ::
  "rc + 'x key \<Rightarrow> ek_kind \<Rightarrow> bytes option \<Rightarrow> ('x, 'q, 's) tpm \<Rightarrow> (rc + unit) \<times> ('x, 'q, 's) tpm" where
  "provision_endorsement_key ek kind certificate t =
     attempt (sum_bind ek (\<lambda>k. sum_bind (refuse (length (pm_persistent (t_permanent t)) \<ge> MAX_PERSISTENT
         \<and> \<not> list_ex (\<lambda>(h, _). h = ek_handle kind) (pm_persistent (t_permanent t))) RC_NV_SPACE) (\<lambda>_. Inr k)))
       (\<lambda>k t. let handle = ek_handle kind; index = certificate_index kind in
         case (case certificate of
                 None \<Rightarrow> (Inr (), nv_delete index t)
               | Some der \<Rightarrow>
                   if length der > MAX_NV_INDEX_SIZE then (Inl RC_SIZE, t)
                   else (case u16_try_from (length der) of
                           None \<Rightarrow> (Inl RC_SIZE, t)
                         | Some n \<Rightarrow> nv_provision (certificate_public kind n) der t)) of
           (Inl e, t) \<Rightarrow> (Inl e, t)
         | (Inr _, t) \<Rightarrow> (Inr (), permanent_mut (pm_persistent_update (\<lambda>ps.
             let ps = filter (\<lambda>(h, _). h \<noteq> handle) ps
             in list_insert (partition_point (\<lambda>(h, _). h < handle) ps) (handle, k) ps)) t)) t"

section \<open>The machine\<close>

text \<open>What authorization and the commands on keys, sessions, sequences and contexts do to the part of the
  TPM the model has: they count failures and PIN uses, extend a PCR at the end of an event sequence, and
  replace objects, sessions and persistent keys (which stay in order and at most \<open>MAX_PERSISTENT\<close>, as
  \<open>evict_control\<close> inserts one at its place or removes one), and may void a recorded shutdown.\<close>

definition session_work ::
  "('q, 'x) object option list \<Rightarrow> 's session_slot list \<Rightarrow> u32 option \<Rightarrow> u64 \<Rightarrow> u64 \<Rightarrow> ('x, 'q, 's) tpm \<Rightarrow> ('x, 'q, 's) tpm" where
  "session_work os ss audit object_id counter t =
     volatile_mut (\<lambda>v. v\<lparr>vo_objects := os, vo_sessions := ss, vo_exclusive_audit := audit,
       vo_object_context_id := object_id, vo_context_counter := counter\<rparr>) t"

inductive internal :: "digest_fun \<Rightarrow> ('x, 'q, 's) tpm \<Rightarrow> ('x, 'q, 's) tpm \<Rightarrow> bool" for D where
  time: "vo_started (t_volatile t) \<Longrightarrow> internal D t (begin_command now t)"
| locked_out: "check_locked_out lockout t = (x, t') \<Longrightarrow> internal D t t'"
| failure: "internal D t (da_failure lockout t)"
| pin_use: "nv_pin_authorized index success t = (x, t') \<Longrightarrow> internal D t t'"
| sequence: "pcr_to_extend handle t = (Inr (Some pcr), u) \<Longrightarrow> internal D t (tpm_extend D pcr digests u)"
| session: "length ss = length (vo_sessions (t_volatile t)) \<Longrightarrow> internal D t (session_work os ss audit i n t)"
| persistent: "persistent_ok ks \<Longrightarrow> internal D t (permanent_mut (pm_persistent_update (\<lambda>_. ks)) t)"
| void: "internal D t (clear_orderly t)"
| provision: "provision_endorsement_key ek kind certificate t = (x, t') \<Longrightarrow> internal D t t'"

text \<open>The TPM and the permanent state the host stored last.\<close>

record ('x, 'q, 's) machine =
  m_tpm :: "('x, 'q, 's) tpm"
  m_stored :: "'x permanent"

text \<open>What the device does after a command: it stores the permanent state if that was marked.\<close>

definition settle :: "('x, 'q, 's) tpm \<Rightarrow> 'x permanent \<Rightarrow> ('x, 'q, 's) machine" where
  "settle t stored = (case take_permanent_changed t of (ch, t') \<Rightarrow>
     \<lparr>m_tpm = t', m_stored = (if ch then t_permanent t' else stored)\<rparr>)"

text \<open>The host's seeds are arrays of \<open>SEED_SIZE\<close> bytes.\<close>

definition host_ok :: "host \<Rightarrow> bool" where
  "host_ok h \<longleftrightarrow> pred_option (\<lambda>s. length s = SEED_SIZE) (h_seed1 h) \<and> pred_option (\<lambda>s. length s = SEED_SIZE) (h_seed2 h)
     \<and> pred_option (\<lambda>s. length s = SEED_SIZE) (h_seed3 h)"

inductive tpm_step :: "digest_fun \<Rightarrow> ('x, 'q, 's) machine \<Rightarrow> ('x, 'q, 's) machine \<Rightarrow> bool" for D where
  command: "host_ok h \<Longrightarrow> execute D h c hs r (m_tpm m) = (x, t) \<Longrightarrow> tpm_step D m (settle t (m_stored m))"
| internal: "internal D (m_tpm m) t \<Longrightarrow> tpm_step D m (settle t (m_stored m))"
| power_cycle: "tpm_step D m \<lparr>m_tpm = tpm_power_on (m_stored m), m_stored = m_stored m\<rparr>"

definition machine_start :: "'x permanent \<Rightarrow> ('x, 'q, 's) machine" where
  "machine_start p = \<lparr>m_tpm = tpm_power_on p, m_stored = p\<rparr>"

definition tpm_reachable :: "digest_fun \<Rightarrow> 'x permanent \<Rightarrow> ('x, 'q, 's) machine \<Rightarrow> bool" where
  "tpm_reachable D p m \<longleftrightarrow> (tpm_step D)\<^sup>*\<^sup>* (machine_start p) m"

end
