(* ===== verification/Tpm_Nv_Effects.thy ===== *)
theory Tpm_Nv_Effects
  imports Tpm_Nv_Ops Tpm_Machine
begin

text \<open>
  What each NV command does: refused, it changes nothing; accepted, it deletes an index, defines one, or
  updates the attributes and data of live ones. Every command keeps \<open>nv_ok\<close> and touches nothing but the
  indices, the counter floor and the kind of the recorded shutdown.
\<close>

text \<open>What a command that names an existing index found out about it.\<close>

lemma index_public_live:
  assumes "nv_ok t" and "index_public i t = Inr p"
  obtains d where "nv_live i t = Some (np_attributes p, d)" "nv_data i t = Some d" "length d = np_size p"
    "np_index p = i" "size_fits p" "length d \<le> usize_max"
proof -
  from assms(2) have "nv_public_of i t = Some p" by (simp add: index_public_def)
  from nv_public_live [OF assms(1) this] obtain d where
    d: "nv_live i t = Some (np_attributes p, d)" "nv_data i t = Some d" "length d = np_size p" "np_index p = i" "size_fits p"
    by metis
  moreover have "length d \<le> usize_max"
    using nv_live_small [OF assms(1) d(1)] by (simp add: MAX_NV_INDEX_SIZE_def usize_max_def)
  ultimately show ?thesis by (rule that)
qed

lemma write_target_Inr:
  "write_target kind hs t = Inr (i, p) \<longleftrightarrow>
     (\<exists>auth. auth_and_index hs = Inr (auth, i) \<and> index_public i t = Inr p \<and> write_access auth i p = Inr ()
       \<and> np_kind p = Some kind)"
  by (auto simp: write_target_def sum_bind_eq_Inr)

section \<open>Each command's effect\<close>

lemma nv_write_command_effect:
  assumes ok: "nv_ok t" and c: "nv_write_command hs r t = (x, t')"
  shows "t' = t \<and> (\<exists>e. x = Inl e) \<or> (\<exists>auth i p n bs d. auth_and_index hs = Inr (auth, i) \<and> index_public i t = Inr p
    \<and> write_access auth i p = Inr () \<and> np_kind p \<notin> {Some Counter, Some Bits, Some Extend}
    \<and> nv_live i t = Some (np_attributes p, d) \<and> n + length bs \<le> length d \<and> x = Inr []
    \<and> rd_run write_parse r = Inr (bs, word_of_nat n) \<and> n < 65536
    \<and> nv_updates i (np_attributes p OR WRITTEN) (splice (written_data (np_attributes p) d) n bs) t t')"
proof (cases "write_check hs r t")
  case (Inl e)
  then show ?thesis using c by (auto simp: nv_write_command_def attempt_def)
next
  case (Inr y)
  then obtain i n bs where y: "y = (i, n, bs)" by (metis prod_cases3)
  from Inr obtain off auth p where p: "rd_run write_parse r = Inr (bs, off)" "n = unat off" "auth_and_index hs = Inr (auth, i)"
    "index_public i t = Inr p" "write_access auth i p = Inr ()" "np_kind p \<notin> {Some Counter, Some Bits, Some Extend}"
    "n \<le> np_size p" "length bs \<le> saturating_sub (np_size p) n"
    unfolding y write_check_def by (auto simp: sum_bind_eq_Inr Let_def not_less)
  from index_public_live [OF ok p(4)] obtain d where d: "nv_live i t = Some (np_attributes p, d)" "length d = np_size p"
    "length d \<le> usize_max" by metis
  have fit: "n + length bs \<le> length d" using p(7,8) d(2) by (simp add: saturating_sub_def)
  from nv_write_updates [OF ok d(1) fit d(3)] obtain u where
    u: "nv_write i n bs t = (Inr (), u)"
      "nv_updates i (np_attributes p OR WRITTEN) (splice (written_data (np_attributes p) d) n bs) t u" .
  then have "x = Inr []" "t' = u" using c Inr by (simp_all add: nv_write_command_def attempt_def y answer_def)
  moreover have "off = word_of_nat n" "n < 65536" using p(2) unat_lt_u16 [of off] by simp_all
  ultimately show ?thesis using p d(1) fit u(2) by auto
qed

lemma nv_write_fixed:
  assumes ok: "nv_ok t" and p: "index_public i t = Inr p" and l: "length bs = np_size p"
  obtains u where "nv_write i 0 bs t = (Inr (), u)" "nv_updates i (np_attributes p OR WRITTEN) bs t u"
proof -
  from index_public_live [OF ok p] obtain d where d: "nv_live i t = Some (np_attributes p, d)" "length d = np_size p"
    "length d \<le> usize_max" by metis
  from nv_write_updates [OF ok d(1) _ d(3), of 0 bs] l d(2) obtain u where
    u: "nv_write i 0 bs t = (Inr (), u)" "nv_updates i (np_attributes p OR WRITTEN) (splice (written_data (np_attributes p) d) 0 bs) t u"
    by auto
  have "splice (written_data (np_attributes p) d) 0 bs = bs"
    using l d(2) by (simp add: splice_def written_data_def)
  with u that show ?thesis by simp
qed

lemma length_to_be_bytes_64 [simp]: "length (to_be_bytes (v :: u64)) = 8"
  by (simp add: to_be_bytes_def)

lemma size_fits_8: "size_fits p \<Longrightarrow> np_kind p = Some k \<Longrightarrow> k \<noteq> Ordinary \<Longrightarrow> k \<noteq> Extend \<Longrightarrow> np_size p = 8"
  by (cases k) (simp_all add: size_fits_def)

lemma nv_increment_effect:
  assumes ok: "nv_ok t" and c: "nv_increment hs r t = (x, t')"
  shows "t' = t \<and> (\<exists>e. x = Inl e) \<or> (\<exists>i p v. write_target Counter hs t = Inr (i, p) \<and> x = Inr []
    \<and> v = (if np_has p WRITTEN then nv_u64 i t else pm_nv_max_counter (t_permanent t)) + 1
    \<and> nv_updates i (np_attributes p OR WRITTEN) (to_be_bytes v) t t')"
proof (cases "sum_bind (rd_run (rd_end ()) r) (\<lambda>_. write_target Counter hs t)")
  case (Inl e)
  then show ?thesis using c by (auto simp: nv_increment_def attempt_def)
next
  case (Inr y)
  then obtain i p where y: "y = (i, p)" and w: "write_target Counter hs t = Inr (i, p)"
    by (cases y) (auto simp: sum_bind_eq_Inr)
  then obtain auth where p: "index_public i t = Inr p" "np_kind p = Some Counter" by (auto simp: write_target_Inr)
  define v where "v = (if np_has p WRITTEN then nv_u64 i t else pm_nv_max_counter (t_permanent t)) + 1"
  from index_public_live [OF ok p(1)] have "size_fits p" by blast
  then have "length (to_be_bytes v) = np_size p" using size_fits_8 p(2) by simp
  from nv_write_fixed [OF ok p(1) this] obtain u where
    u: "nv_write i 0 (to_be_bytes v) t = (Inr (), u)" "nv_updates i (np_attributes p OR WRITTEN) (to_be_bytes v) t u" .
  have "x = Inr [] \<and> (t' = u \<or> t' = nv_store_orderly u)"
    using c Inr u(1) unfolding nv_increment_def attempt_def y by (auto simp: Let_def nv_write_u64_def v_def split: if_splits)
  with u(2) nv_updates_store [OF ok u(2)] w show ?thesis unfolding v_def by blast
qed

lemma nv_set_bits_effect:
  assumes ok: "nv_ok t" and c: "nv_set_bits hs r t = (x, t')"
  shows "t' = t \<and> (\<exists>e. x = Inl e) \<or> (\<exists>i p bits. write_target Bits hs t = Inr (i, p) \<and> x = Inr []
    \<and> nv_updates i (np_attributes p OR WRITTEN)
        (to_be_bytes ((if np_has p WRITTEN then nv_u64 i t else 0) OR bits)) t t')"
proof (cases "sum_bind (rd_run (rd_bind (rd_map_err (rc_param 1) rd_u64) rd_end) r)
       (\<lambda>bits. sum_bind (write_target Bits hs t) (\<lambda>(index, public). Inr (bits, index, public)))")
  case (Inl e)
  then show ?thesis using c by (auto simp: nv_set_bits_def attempt_def)
next
  case (Inr y)
  then obtain bits i p where y: "y = (bits, i, p)" and w: "write_target Bits hs t = Inr (i, p)"
    by (cases y) (auto simp: sum_bind_eq_Inr)
  then obtain auth where p: "index_public i t = Inr p" "np_kind p = Some Bits" by (auto simp: write_target_Inr)
  define v where "v = (if np_has p WRITTEN then nv_u64 i t else 0) OR bits"
  from index_public_live [OF ok p(1)] have "size_fits p" by blast
  then have "length (to_be_bytes v) = np_size p" using size_fits_8 p(2) by simp
  from nv_write_fixed [OF ok p(1) this] obtain u where
    u: "nv_write i 0 (to_be_bytes v) t = (Inr (), u)" "nv_updates i (np_attributes p OR WRITTEN) (to_be_bytes v) t u" .
  have "x = Inr [] \<and> t' = u"
    using c Inr u(1) unfolding nv_set_bits_def attempt_def y
    by (auto simp: Let_def nv_write_u64_def v_def answer_def split: if_splits)
  with u(2) w show ?thesis unfolding v_def by blast
qed

lemma nv_extend_effect:
  assumes D: "digest_ok D" and ok: "nv_ok t" and c: "nv_extend D hs r t = (x, t')"
  shows "t' = t \<and> (\<exists>e. x = Inl e) \<or> (\<exists>i p bs d. write_target Extend hs t = Inr (i, p) \<and> x = Inr []
    \<and> nv_live i t = Some (np_attributes p, d)
    \<and> nv_updates i (np_attributes p OR WRITTEN)
        (hash_digest D (np_name_alg p) [if np_has p WRITTEN then d else replicate (hash_size (np_name_alg p)) 0, bs]) t t')"
proof (cases "sum_bind (rd_run (rd_bind (rd_map_err (rc_param 1) (rd_tpm2b MAX_NV_BUFFER_SIZE)) rd_end) r)
       (\<lambda>d. sum_bind (write_target Extend hs t) (\<lambda>(index, public). Inr (d, index, public)))")
  case (Inl e)
  then show ?thesis using c by (auto simp: nv_extend_def attempt_def)
next
  case (Inr y)
  then obtain bs i p where y: "y = (bs, i, p)" and w: "write_target Extend hs t = Inr (i, p)"
    by (cases y) (auto simp: sum_bind_eq_Inr)
  then obtain auth where p: "index_public i t = Inr p" "np_kind p = Some Extend" by (auto simp: write_target_Inr)
  from index_public_live [OF ok p(1)] obtain d where
    d: "size_fits p" "nv_data i t = Some d" "nv_live i t = Some (np_attributes p, d)" by metis
  let ?v = "hash_digest D (np_name_alg p) [if np_has p WRITTEN then d else replicate (hash_size (np_name_alg p)) 0, bs]"
  have "length ?v = np_size p" using d(1) p(2) D by (simp add: size_fits_def length_hash_digest)
  from nv_write_fixed [OF ok p(1) this] obtain u where
    u: "nv_write i 0 ?v t = (Inr (), u)" "nv_updates i (np_attributes p OR WRITTEN) ?v t u" .
  have "x = Inr [] \<and> t' = u"
    using c Inr u(1) d(2) unfolding nv_extend_def attempt_def y by (auto simp: Let_def answer_def split: if_splits)
  with u(2) w d(3) show ?thesis by blast
qed

lemma lock_updates:
  assumes ok: "nv_ok t" and p: "index_public i t = Inr p" and b: "b AND NOT CHANGING = 0"
  obtains d where "nv_live i t = Some (np_attributes p, d)"
    "nv_updates i (np_attributes p OR b) d t (nv_set_attributes i (np_attributes p OR b) t)"
proof -
  from index_public_live [OF ok p] obtain d where d: "nv_live i t = Some (np_attributes p, d)" by metis
  from nv_set_attributes_updates [OF ok d, of "np_attributes p OR b"] b d that show ?thesis by (simp add: agree_or)
qed

lemma nv_lock_effect:
  assumes ok: "nv_ok t" and c: "nv_write_lock hs r t = (x, t') \<or> nv_read_lock hs r t = (x, t')"
  shows "t' = t \<or> (\<exists>auth i p b d. auth_and_index hs = Inr (auth, i) \<and> index_public i t = Inr p
    \<and> b \<in> {WRITELOCKED, READLOCKED} \<and> nv_live i t = Some (np_attributes p, d) \<and> x = Inr []
    \<and> nv_updates i (np_attributes p OR b) d t t')"
proof -
  let ?m = "sum_bind (rd_run (rd_end ()) r) (\<lambda>_. sum_bind (auth_and_index hs) (\<lambda>(auth, index).
       sum_bind (index_public index t) (\<lambda>public. Inr (auth, index, public))))"
  show ?thesis
  proof (cases ?m)
    case (Inl e)
    then show ?thesis using c by (auto simp: nv_write_lock_def nv_read_lock_def attempt_def)
  next
    case (Inr y)
    then obtain auth i p where y: "y = (auth, i, p)" and a: "auth_and_index hs = Inr (auth, i)" and p: "index_public i t = Inr p"
      by (cases y) (auto simp: sum_bind_eq_Inr)
    from c Inr y consider "t' = t" | "t' = nv_set_attributes i (np_attributes p OR WRITELOCKED) t" "x = Inr []"
      | "t' = nv_set_attributes i (np_attributes p OR READLOCKED) t" "x = Inr []"
      unfolding nv_write_lock_def nv_read_lock_def attempt_def by (auto split: sum.splits if_splits)
    then show ?thesis
    proof cases
      case 2
      from lock_updates [OF ok p changing_bits(2)] obtain d where "nv_live i t = Some (np_attributes p, d)"
        "nv_updates i (np_attributes p OR WRITELOCKED) d t t'" using 2(1) by blast
      then show ?thesis using a p 2(2) by blast
    next
      case 3
      from lock_updates [OF ok p changing_bits(3)] obtain d where "nv_live i t = Some (np_attributes p, d)"
        "nv_updates i (np_attributes p OR READLOCKED) d t t'" using 3(1) by blast
      then show ?thesis using a p 3(2) by blast
    qed simp
  qed
qed

text \<open>Changing an authValue leaves every live index as it is.\<close>

definition nv_quiet :: "('x, 'q, 's) tpm \<Rightarrow> ('x, 'q, 's) tpm \<Rightarrow> bool" where
  "nv_quiet t t' \<longleftrightarrow> nv_same t t' \<and> (\<forall>j. nv_live j t' = nv_live j t) \<and> nv_rest t' = nv_rest t
     \<and> (\<forall>j. map_option (ni_auth_update (\<lambda>_. [])) (nv_entry j t') = map_option (ni_auth_update (\<lambda>_. [])) (nv_entry j t))
     \<and> t_ram t' = t_ram t
     \<and> pm_nv_max_counter (t_permanent t') = pm_nv_max_counter (t_permanent t) \<and> voids t t'"

lemma nv_quiet_refl [simp]: "nv_quiet t t"
  by (simp add: nv_quiet_def)

lemma nv_change_auth_effect:
  assumes ok: "nv_ok t" and c: "nv_change_auth hs r t = (x, t')"
  shows "nv_quiet t t'"
proof -
  let ?m = "sum_bind (rd_run (rd_bind (rd_map_err (rc_param 1) (rd_tpm2b MAX_DIGEST)) rd_end) r) (\<lambda>auth.
       sum_bind (first_handle hs) (\<lambda>index.
       sum_bind (index_public index t) (\<lambda>public.
       let auth = strip_zeros auth in
       sum_bind (refuse (length auth > hash_size (np_name_alg public)) (rc_param 1 RC_SIZE)) (\<lambda>_.
       sum_bind (ok_or RC_FAILURE (nv_position index t)) (\<lambda>i. Inr (i, auth))))))"
  show ?thesis
  proof (cases ?m)
    case (Inl e)
    then show ?thesis using c by (auto simp: nv_change_auth_def attempt_def)
  next
    case (Inr y)
    then obtain n b i where y: "y = (n, strip_zeros b)" and n: "nv_position i t = Some n" and b: "length b \<le> MAX_DIGEST"
      by (cases y) (auto simp: sum_bind_eq_Inr Let_def rd_run_Inr)
    let ?f = "\<lambda>e. e\<lparr>ni_auth := strip_zeros b\<rparr>"
    have t': "t' = permanent_mut (pm_nv_update (\<lambda>nv. nv[n := ?f (nv ! n)])) t"
      using c Inr y by (simp add: nv_change_auth_def attempt_def)
    have nv: "t_nv t' = update_key ni_index i ?f (t_nv t)"
      using nv_update_position [OF nv_ok_distinct(3) [OF ok], where i = i and f = ?f] n t' by simp
    have "list_all2 same_index (t_nv t) (t_nv t')"
      using length_strip_zeros [of b] b unfolding nv by (intro list_all2_update_key) (auto simp: same_index_def)
    then have s: "nv_same t t'" by (simp add: nv_same_def t' list_all2_refl)
    have ram: "orderly_ram_of j t' = orderly_ram_of j t" for j by (simp add: orderly_ram_of_def t')
    have "nv_entry j t' = map_option (\<lambda>e. if ni_index e = i then ?f e else e) (nv_entry j t)" for j
      unfolding nv_entry_find [OF ok] nv_entry_find [OF nv_ok_same [OF s ok]] nv by (simp add: find_update_key)
    then have "nv_live j t' = nv_live j t"
      "map_option (ni_auth_update (\<lambda>_. [])) (nv_entry j t') = map_option (ni_auth_update (\<lambda>_. [])) (nv_entry j t)" for j
      using ram by (cases "nv_entry j t"; simp add: nv_live_def)+
    moreover have "nv_rest t' = nv_rest t" "t_ram t' = t_ram t"
      "pm_nv_max_counter (t_permanent t') = pm_nv_max_counter (t_permanent t)" "voids t t'" by (simp_all add: t' voids_def)
    ultimately show ?thesis using s by (simp add: nv_quiet_def)
  qed
qed

section \<open>The NV commands together\<close>

definition nv_effect :: "('x, 'q, 's) tpm \<Rightarrow> ('x, 'q, 's) tpm \<Rightarrow> bool" where
  "nv_effect t t' \<longleftrightarrow> nv_ok t' \<and> nv_rest t' = nv_rest t \<and> voids t t'"

lemma nv_effect_refl [simp]: "nv_effect t t \<longleftrightarrow> nv_ok t"
  by (simp add: nv_effect_def)

lemma nv_effect_trans: "nv_effect t u \<Longrightarrow> nv_effect u v \<Longrightarrow> nv_effect t v"
  by (auto simp: nv_effect_def intro: voids_trans)

lemma nv_effect_updates: "nv_ok t \<Longrightarrow> nv_updates i a d t t' \<Longrightarrow> nv_effect t t'"
  by (auto simp: nv_effect_def nv_updates_def intro: nv_ok_same)

lemma nv_effect_quiet: "nv_ok t \<Longrightarrow> nv_quiet t t' \<Longrightarrow> nv_effect t t'"
  by (auto simp: nv_effect_def nv_quiet_def intro: nv_ok_same)

lemma nv_effect_delete: "nv_ok t \<Longrightarrow> nv_effect t (nv_delete i t)"
  by (simp add: nv_effect_def voids_def nv_delete_facts(1,3,4))

lemma nv_effect_define:
  assumes "nv_ok t" and "define_space hs r t = (x, t')"
  shows "nv_effect t t'"
proof (cases "define_space_entry hs r t")
  case (Inl e)
  then show ?thesis using assms by (simp add: define_space_def attempt_def)
next
  case (Inr e)
  from define_space_facts(1,3,5) [OF assms(1) Inr assms(2)] show ?thesis by (simp add: nv_effect_def voids_def)
qed

lemma global_lock_effect:
  assumes "nv_ok t"
  shows "global_lock i t = t \<or> (\<exists>a d. nv_live i t = Some (a, d) \<and> a AND GLOBALLOCK \<noteq> 0 \<and> nv_updates i (a OR WRITELOCKED) d t (global_lock i t))"
proof (cases "nv_public_of i t")
  case (Some p)
  then have p: "index_public i t = Inr p" by (simp add: index_public_def)
  from lock_updates [OF assms p, of WRITELOCKED] Some show ?thesis
    by (auto simp: global_lock_def np_has_def)
qed (simp add: global_lock_def)

lemma nv_effect_global_lock: "nv_ok t \<Longrightarrow> nv_effect t (fold global_lock is t)"
proof (induction "is" arbitrary: t)
  case (Cons i js)
  have "nv_effect t (global_lock i t)"
    using global_lock_effect [OF Cons.prems, of i] nv_effect_updates [OF Cons.prems] Cons.prems by auto
  with Cons.IH [of "global_lock i t"] show ?case by (auto simp: nv_effect_def intro: voids_trans)
qed simp

lemma run_nv_effect:
  assumes D: "digest_ok D" and ok: "nv_ok t" and r: "run_nv D c hs r t = (x, t')"
  shows "nv_effect t t'"
proof -
  note u = nv_effect_updates [OF ok]
  show ?thesis
  proof (cases c)
    case NvUndefineSpaceSpecial
    then show ?thesis using r ok by (auto simp: undefine_space_special_def attempt_def nv_effect_delete split: sum.splits)
  next
    case NvUndefineSpace
    then show ?thesis using r ok by (auto simp: undefine_space_def attempt_def nv_effect_delete split: sum.splits)
  next
    case NvDefineSpace
    then show ?thesis using r nv_effect_define [OF ok] by simp
  next
    case NvGlobalWriteLock
    then show ?thesis using r ok
      by (auto simp: nv_global_write_lock_def attempt_def nv_effect_global_lock split: sum.splits)
  next
    case NvIncrement
    then show ?thesis using r nv_increment_effect [OF ok, of hs r x t'] u ok by auto
  next
    case NvSetBits
    then show ?thesis using r nv_set_bits_effect [OF ok, of hs r x t'] u ok by auto
  next
    case NvExtend
    then show ?thesis using r nv_extend_effect [OF D ok, of hs r x t'] u ok by auto
  next
    case NvWrite
    then show ?thesis using r nv_write_command_effect [OF ok, of hs r x t'] u ok by auto
  next
    case NvWriteLock
    then show ?thesis using r nv_lock_effect [OF ok, of hs r x t'] u ok by auto
  next
    case NvReadLock
    then show ?thesis using r nv_lock_effect [OF ok, of hs r x t'] u ok by auto
  next
    case NvChangeAuth
    then show ?thesis using r nv_change_auth_effect [OF ok] nv_effect_quiet [OF ok] by simp
  next
    case NvRead
    then show ?thesis using r ok by (simp add: nv_read_command_def)
  next
    case NvReadPublic
    then show ?thesis using r ok by (auto simp: read_public_def attempt_def split: sum.splits)
  qed
qed

section \<open>PINs and provisioning\<close>

text \<open>A use of a PIN index counts in its data.\<close>

lemma nv_pin_effect:
  assumes ok: "nv_ok t" and c: "nv_pin_authorized i success t = (x, t')"
  shows "t' = t \<and> x = Inr () \<or> (\<exists>p d n. index_public i t = Inr p \<and> np_kind p \<in> {Some PinFail, Some PinPass}
    \<and> np_has p WRITTEN \<and> nv_live i t = Some (np_attributes p, d) \<and> x = Inr ()
    \<and> n = (if np_kind p = Some PinFail \<and> success then 0 else fst (pin d) + 1)
    \<and> nv_updates i (np_attributes p OR WRITTEN) (to_be_bytes n @ to_be_bytes (snd (pin d))) t t')"
proof (cases "nv_public_of i t")
  case None
  then show ?thesis using c by (simp add: nv_pin_authorized_def)
next
  case (Some p)
  then have p: "index_public i t = Inr p" by (simp add: index_public_def)
  from index_public_live [OF ok p] obtain d where d: "nv_live i t = Some (np_attributes p, d)" "nv_data i t = Some d"
    "size_fits p" by metis
  show ?thesis
  proof (cases "t' = t \<and> x = Inr ()")
    case False
    define n where "n = (if np_kind p = Some PinFail \<and> success then 0 else fst (pin d) + 1)"
    have w: "np_has p WRITTEN" "np_kind p \<in> {Some PinFail, Some PinPass}"
      "nv_write i 0 (to_be_bytes n @ to_be_bytes (snd (pin d))) t = (x, t')"
      using c Some d(2) False unfolding nv_pin_authorized_def n_def
      by (auto simp: Let_def case_prod_beta split: if_splits option.splits nv_kind.splits)
    then have "length (to_be_bytes n @ to_be_bytes (snd (pin d))) = np_size p"
      using d(3) by (auto simp: size_fits_def to_be_bytes_def)
    from nv_write_fixed [OF ok p this] w(3) have "x = Inr ()"
      "nv_updates i (np_attributes p OR WRITTEN) (to_be_bytes n @ to_be_bytes (snd (pin d))) t t'" by auto
    then show ?thesis using p w(1,2) d(1) n_def by blast
  qed simp
qed

lemma nv_used_remove:
  "distinct (map ni_index is) \<Longrightarrow> find (\<lambda>e. ni_index e = i) is = Some e \<Longrightarrow>
     nv_used (filter (\<lambda>e. ni_index e \<noteq> i) is) + ni_cost e = nv_used is"
proof (induction "is")
  case (Cons x xs)
  show ?case
  proof (cases "ni_index x = i")
    case True
    then have "filter (\<lambda>e. ni_index e \<noteq> i) xs = xs" using Cons.prems(1) by (auto simp: filter_id_conv image_iff)
    then show ?thesis using True Cons.prems by (simp add: nv_used_def)
  next
    case False
    then show ?thesis using Cons by (simp add: nv_used_def)
  qed
qed simp

lemma nv_used_delete:
  assumes ok: "nv_ok t"
  shows "nv_used (t_nv (nv_delete i t)) + (case nv_entry i t of None \<Rightarrow> 0 | Some e \<Rightarrow> ni_cost e) = nv_used (t_nv t)"
proof (cases "nv_public_of i t")
  case None
  then have "nv_delete i t = t" by (simp add: nv_delete_def)
  moreover have "nv_entry i t = None" using None nv_public_of_None(2) [OF ok, of i] by simp
  ultimately show ?thesis by simp
next
  case (Some p)
  then obtain e where e: "nv_entry i t = Some e" using nv_public_of_None(2) [OF ok, of i] by (cases "nv_entry i t") auto
  define u where "u = volatile_mut (vo_nv_orderly_update (filter (\<lambda>r. or_index r \<noteq> i)))
      (permanent_mut (pm_nv_update (filter (\<lambda>e. ni_index e \<noteq> i)))
        (if np_kind p = Some Counter \<and> np_has p WRITTEN
         then permanent_mut (pm_nv_max_counter_update (\<lambda>m. max m (nv_u64 i t))) t else t))"
  have d: "nv_delete i t = (if np_has p ORDERLY then nv_store_orderly u else u)"
    using Some by (simp add: nv_delete_def u_def Let_def)
  have u: "t_nv u = filter (\<lambda>e. ni_index e \<noteq> i) (t_nv t)" "t_ram u = filter (\<lambda>r. or_index r \<noteq> i) (t_ram t)"
    by (auto simp: u_def)
  have "nv_used (t_nv (nv_store_orderly u)) = nv_used (t_nv u)"
    using list_all2_map_eq [of same_index "t_nv u" "t_nv (nv_store_orderly u)" ni_cost]
      nv_store_orderly_ok(1) [OF nv_remove(1) [OF ok u]] same_index_facts(6)
    by (simp add: nv_same_def nv_used_def)
  then show ?thesis
    using nv_used_remove [of "t_nv t" i e] nv_ok_distinct(1) [OF ok] e nv_entry_find [OF ok, of i] u(1) d by simp
qed

lemma nv_provision_effect:
  assumes ok: "nv_ok t" and p: "nv_public_ok public" and f: "size_fits public" and c: "nv_provision public d t = (x, t')"
  shows "t' = t \<or> nv_effect t t' \<and> (\<forall>j. nv_live j t' = (if j = np_index public then Some (np_attributes public, d) else nv_live j t))
    \<and> pm_nv_max_counter (t_permanent t') = deleted_max (np_index public) t
    \<and> pm_shutdown (t_permanent t') = pm_shutdown (t_permanent t)"
proof (cases "t' = t")
  case False
  let ?i = "np_index public"
  let ?e = "\<lparr>ni_public = public, ni_auth = [], ni_data = d\<rparr>"
  let ?u = "nv_delete ?i t"
  have x: "\<not> np_has public ORDERLY" "length d = np_size public" "t' = insert_index ?e ?u"
    "\<not> saturating_add (saturating_sub (nv_used (t_nv t)) (case nv_entry ?i t of None \<Rightarrow> 0 | Some e \<Rightarrow> ni_cost e)) (ni_cost ?e) > NV_INDEX_SPACE"
    using c False unfolding nv_provision_def by (auto simp: Let_def split: if_splits)
  note del = nv_delete_facts [OF ok, where i = ?i]
  have gone: "nv_entry (ni_index ?e) ?u = None"
    using del(2) [of ?i] nv_public_of_None [OF del(1), of ?i] by simp
  have used: "nv_used (t_nv ?u) + ni_cost ?e \<le> NV_INDEX_SPACE"
  proof -
    have "saturating_sub (nv_used (t_nv t)) (case nv_entry ?i t of None \<Rightarrow> 0 | Some e \<Rightarrow> ni_cost e) = nv_used (t_nv ?u)"
      using nv_used_delete [OF ok, of ?i] by (simp add: saturating_sub_def)
    then show ?thesis using x(4) by (intro saturating_add_small) (simp_all add: NV_INDEX_SPACE_def usize_max_def)
  qed
  have ins: "nv_index_ok ?e" using p f x(2) by (simp add: nv_index_ok_def)
  have n: "t_nv t' = takeWhile (\<lambda>e. ni_index e < ni_index ?e) (t_nv ?u) @ ?e # dropWhile (\<lambda>e. ni_index e < ni_index ?e) (t_nv ?u)"
    "t_ram t' = (if np_has (ni_public ?e) ORDERLY then t_ram ?u @ [ram_image ?e] else t_ram ?u)"
    using x(1) by (simp_all add: x(3) insert_index_def list_insert_partition)
  note i = nv_insert [OF del(1) gone ins used _ n]
  have m: "nv_ok t'" "nv_live j t' = (if j = ?i then Some (np_attributes public, d) else nv_live j ?u)" for j
    using i(1,2) x(1) by simp_all
  moreover have "nv_rest t' = nv_rest t" "pm_shutdown (t_permanent t') = pm_shutdown (t_permanent t)"
    "pm_nv_max_counter (t_permanent t') = deleted_max ?i t"
    using del(3-5) by (simp_all add: x(3) insert_index_def)
  ultimately show ?thesis using del(2) by (simp add: nv_effect_def voids_def)
qed simp

lemma certificate_public_ok:
  assumes "length d = unat n" and "length d \<le> MAX_NV_INDEX_SIZE"
  shows "nv_public_ok (certificate_public kind n)" and "size_fits (certificate_public kind n)"
    and "kind_of CERTIFICATE_ATTRIBUTES = Some Ordinary"
proof -
  show k: "kind_of CERTIFICATE_ATTRIBUTES = Some Ordinary"
    by (simp add: kind_of_def CERTIFICATE_ATTRIBUTES_def nv_attr_defs)
  have "CERTIFICATE_ATTRIBUTES AND NV_RESERVED = 0" by (simp add: CERTIFICATE_ATTRIBUTES_def nv_attr_defs)
  then show "nv_public_ok (certificate_public kind n)"
    using assms by (cases kind) (simp_all add: nv_public_ok_def certificate_public_def is_nv_index_def NV_INDEX_FIRST_def
        NV_INDEX_LAST_def np_size_def)
  show "size_fits (certificate_public kind n)"
    using assms k by (simp add: size_fits_def certificate_public_def np_kind_def np_size_def)
qed

end
