(* ===== verification/Tpm_Track.thy ===== *)
theory Tpm_Track
  imports Tpm_Machine Tpm_Nv_Ops
begin

text \<open>
  Change tracking. A mutable access to the permanent state marks it, and the host stores it when it is
  marked: so what is stored is the permanent state of the running TPM, except for the clock, which is
  advanced without a mark. This is what \<open>Tpm::process\<close> asserts after each command in a test build.
\<close>

definition unclocked :: "'x permanent \<Rightarrow> 'x permanent" where
  "unclocked p = p\<lparr>pm_clock := 0, pm_clock_safe := False\<rparr>"

definition tracked :: "('x, 'q, 's) tpm \<Rightarrow> ('x, 'q, 's) tpm \<Rightarrow> bool" where
  "tracked t t' \<longleftrightarrow> (t_changed t \<longrightarrow> t_changed t')
     \<and> (t_changed t' \<or> unclocked (t_permanent t') = unclocked (t_permanent t))"

lemma tracked_refl [simp]: "tracked t t"
  by (simp add: tracked_def)

lemma tracked_trans: "tracked t u \<Longrightarrow> tracked u v \<Longrightarrow> tracked t v"
  by (auto simp: tracked_def)

text \<open>A marked access is always noticed; an access to the volatile state changes nothing that is
  stored.\<close>

lemma tracked_mut [simp]:
  "tracked t (permanent_mut f u)" "tracked t (volatile_mut g u) \<longleftrightarrow> tracked t u"
  by (simp_all add: tracked_def permanent_mut_def volatile_mut_def)

lemma tracked_update_time [simp]: "tracked t (update_time now u) \<longleftrightarrow> tracked t u"
  by (simp add: tracked_def update_time_def untracked_mut_def volatile_mut_def unclocked_def Let_def)

lemma tracked_clear_orderly: "tracked t u \<Longrightarrow> tracked t (clear_orderly u)"
  by (simp add: clear_orderly_def)

lemma tracked_fold: "(\<And>x v. tracked t v \<Longrightarrow> tracked t (f x v)) \<Longrightarrow> tracked t u \<Longrightarrow> tracked t (fold f xs u)"
  by (induction xs arbitrary: u) auto

lemma tracked_attempt: "(\<And>x. tracked t (snd (k x u))) \<Longrightarrow> tracked t u \<Longrightarrow> tracked t (snd (attempt m k u))"
  by (simp add: attempt_def split: sum.split)

lemma tracked_draw: "(\<And>x. tracked t (snd (k x u))) \<Longrightarrow> tracked t u \<Longrightarrow> tracked t (snd (draw m k u))"
  by (simp add: draw_def split: option.split)

named_theorems track \<open>operations that keep what is stored in step\<close>

lemmas tracked_rules [track] = tracked_clear_orderly tracked_fold tracked_attempt tracked_draw

section \<open>NV\<close>

lemma tracked_nv [track]:
  assumes "tracked t u"
  shows "tracked t (nv_set_live i a d u)" and "tracked t (store_ram r u)" and "tracked t (insert_index e u)"
  using assms by (simp_all add: nv_set_live_def store_ram_def insert_index_def split: option.split)

lemma tracked_store [track]: "tracked t u \<Longrightarrow> tracked t (nv_store_orderly u)"
  by (auto simp: nv_store_orderly_def intro: track)

lemma tracked_nv_ops [track]:
  assumes "tracked t u"
  shows "tracked t (nv_set_attributes i a u)" and "tracked t (snd (nv_write i n bs u))"
    and "tracked t (snd (nv_write_u64 i v u))" and "tracked t (nv_delete i u)" and "tracked t (snd (nv_provision p d u))"
  using assms
  by (auto simp: nv_set_attributes_def nv_write_def nv_write_u64_def nv_delete_def nv_provision_def Let_def
      split: option.split intro!: track)

lemma tracked_nv_more [track]:
  assumes "tracked t u"
  shows "tracked t (nv_flush_owner u)" and "tracked t (nv_startup kind orderly u)" and "tracked t (global_lock i u)"
    and "tracked t (snd (nv_pin_authorized i success u))"
  using assms
  by (auto simp: nv_flush_owner_def nv_startup_def global_lock_def nv_pin_authorized_def Let_def
      split: option.split nv_kind.split prod.split intro!: track)

lemma tracked_answer [track]: "tracked t (snd y) \<Longrightarrow> tracked t (snd (answer y))"
  by (cases y) (simp add: answer_def)

lemma tracked_run_nv: "tracked t (snd (run_nv D c hs r t))"
proof (cases c)
  case NvIncrement
  have "tracked t (snd (case nv_write_u64 i v t of (Inl e, t) \<Rightarrow> (Inl e, t) | (Inr z, t) \<Rightarrow> (Inr [], if b then nv_store_orderly t else t)))"
    for i v b
    using tracked_nv_ops(3) [OF tracked_refl, of t i v]
    by (cases "nv_write_u64 i v t") (auto split: sum.split intro: track)
  then show ?thesis unfolding NvIncrement run_nv.simps nv_increment_def Let_def by (auto intro!: tracked_attempt)
next
  case NvWriteLock
  then show ?thesis by (auto simp: nv_write_lock_def split: sum.split intro!: track)
qed (auto simp: undefine_space_special_def undefine_space_def define_space_def nv_global_write_lock_def nv_set_bits_def
    nv_extend_def nv_write_command_def nv_change_auth_def nv_read_command_def nv_read_lock_def read_public_def Let_def
    intro!: track)

section \<open>Hierarchies, startup and PCRs\<close>

lemma tracked_da_self_heal [track]: "tracked t u \<Longrightarrow> tracked t (da_self_heal u)"
  unfolding da_self_heal_def by (simp add: Let_def split: prod.split)

lemma tracked_da [track]:
  assumes "tracked t u"
  shows "tracked t (da_startup o' tr du u)" and "tracked t (snd (check_locked_out l u))"
    and "tracked t (da_failure l u)" and "tracked t (flush_hierarchy h u)" and "tracked t (flush_persistent h u)"
proof -
  show "tracked t (da_startup o' tr du u)" unfolding da_startup_def Let_def by (intro track) simp
  show "tracked t (snd (check_locked_out l u))" "tracked t (da_failure l u)" "tracked t (flush_hierarchy h u)"
    "tracked t (flush_persistent h u)"
    using assms by (simp_all add: check_locked_out_def da_failure_def flush_hierarchy_def flush_persistent_def Let_def)
qed

lemma tracked_run_hierarchy: "tracked t (snd (run_hierarchy h c hs r t))"
  by (cases c) (auto simp: hierarchy_control_def change_eps_def change_pps_def tpm_clear_def clear_action_def
      clear_control_def hierarchy_change_auth_def set_primary_policy_def dictionary_attack_lock_reset_def
      dictionary_attack_parameters_def Let_def intro!: track)

lemma tracked_startup_parts [track]:
  assumes "tracked t u"
  shows "tracked t (startup_before now kind u)" and "tracked t (startup_after kind orderly u)"
    and "tracked t (snd (startup_reset_data s1 s2 kind saved u))"
  using assms
  by (auto simp: startup_before_def startup_after_def startup_reset_data_def Let_def split: option.split intro!: track)

lemma tracked_extend [track]: "tracked t u \<Longrightarrow> tracked t (tpm_extend D pcr ds u)"
  by (auto simp: tpm_extend_def intro!: track)

lemma tracked_pcr_to_extend [track]: "tracked t u \<Longrightarrow> tracked t (snd (pcr_to_extend h u))"
  by (auto simp: pcr_to_extend_def Let_def intro!: track)

lemma tracked_run_basic: "tracked t (snd (run_basic D h c hs r t))"
proof (cases c)
  case StartupCommand
  have "tracked t (snd (case startup_reset_data s1 s2 kind saved (startup_before now kind t) of
      (Inl e, t) \<Rightarrow> (Inl e, t) | (Inr z, t) \<Rightarrow> (Inr [], startup_after kind orderly t)))" for s1 s2 now kind saved orderly
    using tracked_startup_parts(3) [OF tracked_startup_parts(1) [OF tracked_refl], of t s1 s2 kind saved now kind]
    by (cases "startup_reset_data s1 s2 kind saved (startup_before now kind t)") (auto split: sum.split intro: track)
  then show ?thesis unfolding StartupCommand run_basic.simps startup_command_def Let_def by (auto intro!: tracked_attempt)
next
  case PcrExtend
  have "tracked t (snd (case pcr_to_extend i t of (Inl e, t) \<Rightarrow> (Inl e, t) | (Inr None, t) \<Rightarrow> (Inr [], t)
      | (Inr (Some p), t) \<Rightarrow> (Inr [], tpm_extend D p ds t)))" for i ds
    using tracked_pcr_to_extend [OF tracked_refl, of t i]
    by (cases "pcr_to_extend i t") (auto split: sum.split option.split intro: track)
  then show ?thesis unfolding PcrExtend run_basic.simps pcr_extend_def by (auto intro!: tracked_attempt)
next
  case PcrEvent
  have "tracked t (snd (case pcr_to_extend i t of (Inl e, t) \<Rightarrow> (Inl e, t)
      | (Inr p, t) \<Rightarrow> (Inr bs, case p of None \<Rightarrow> t | Some p \<Rightarrow> tpm_extend D p ds t)))" for i ds and bs :: bytes
    using tracked_pcr_to_extend [OF tracked_refl, of t i]
    by (cases "pcr_to_extend i t") (auto split: sum.split option.split intro: track)
  then show ?thesis unfolding PcrEvent run_basic.simps pcr_event_def Let_def by (auto intro!: tracked_attempt)
qed (auto simp: shutdown_command_def pcr_reset_def pcr_allocate_def Let_def intro!: track)

lemma tracked_execute: "tracked t (snd (execute D h c hs r t))"
proof -
  have b: "tracked t (begin_command now t)" for now by (auto simp: begin_command_def intro: track)
  have "tracked u (snd (run D h c hs r u))" for u :: "('a, 'b, 'c) tpm"
    by (cases c) (simp_all add: tracked_run_nv tracked_run_hierarchy tracked_run_basic)
  with b show ?thesis by (auto simp: execute_def intro: tracked_trans)
qed

lemma tracked_provision: "tracked t (snd (provision_endorsement_key ek kind cert t))"
  unfolding provision_endorsement_key_def Let_def
  by (auto intro!: tracked_attempt split: prod.split sum.split option.split)
    (metis snd_conv tracked_nv_ops(5) tracked_refl)

lemma tracked_internal: "internal D t t' \<Longrightarrow> tracked t t'"
proof (induction rule: internal.induct)
  case (locked_out lockout t x t')
  then show ?case using tracked_da(2) [OF tracked_refl, of t lockout] by simp
next
  case (pin_use index success t x t')
  then show ?case using tracked_nv_more(4) [OF tracked_refl, of t index success] by simp
next
  case (sequence handle t pcr u digests)
  then show ?case using tracked_pcr_to_extend [OF tracked_refl, of t handle] by (auto intro: track)
next
  case (provision ek kind certificate t x t')
  then show ?case using tracked_provision [of t ek kind certificate] by simp
qed (auto simp: begin_command_def session_work_def intro: track)

text \<open>The invariant of the machine: nothing is marked between commands, and what is stored is the
  permanent state but for the clock.\<close>

definition stored_ok :: "('x, 'q, 's) machine \<Rightarrow> bool" where
  "stored_ok m \<longleftrightarrow> \<not> t_changed (m_tpm m) \<and> unclocked (m_stored m) = unclocked (t_permanent (m_tpm m))"

lemma settle_stored_ok:
  assumes "tracked (m_tpm m) t" and "stored_ok m"
  shows "stored_ok (settle t (m_stored m))"
  using assms by (auto simp: stored_ok_def tracked_def settle_def take_permanent_changed_def)

interpretation storage: machine_invariant "\<lambda>m. \<exists>p. m = machine_start p" "tpm_step D" stored_ok for D
proof
  fix m m' :: "('a, 'b, 'c) machine"
  assume "stored_ok m" "tpm_step D m m'"
  from this(2,1) show "stored_ok m'"
  proof (cases rule: tpm_step.cases)
    case (command h c hs r x t)
    with tracked_execute [of "m_tpm m" D h c hs r] \<open>stored_ok m\<close> show ?thesis by (auto intro: settle_stored_ok)
  next
    case (internal t)
    with \<open>stored_ok m\<close> show ?thesis by (auto intro: settle_stored_ok tracked_internal)
  qed (simp add: stored_ok_def tpm_power_on_def)
qed (auto simp: stored_ok_def machine_start_def tpm_power_on_def)

end
