(* ===== verification/Tpm_Invariant.thy ===== *)
theory Tpm_Invariant
  imports Tpm_Nv_Effects Tpm_Track
begin

text \<open>
  The type invariant of the TPM: every part of its state is one its encoding can hold, and the RAM copies
  match the orderly indices. It holds of a TPM powered on from a valid permanent state, and every step
  of the machine keeps it; so the permanent state the host stored is always one that \<open>power_on\<close> accepts.
\<close>

definition volatile_ok :: "('x, 'q, 's) volatile \<Rightarrow> bool" where
  "volatile_ok v \<longleftrightarrow> pcrs_ok (vo_pcrs v) \<and> clear_state_ok (vo_clear v) \<and> banks_allocated (vo_allocation v)
     \<and> seed_ok (vo_null_proof v) \<and> seed_ok (vo_null_seed v) \<and> length (vo_sessions v) = MAX_ACTIVE"

definition tpm_ok :: "('x, 'q, 's) tpm \<Rightarrow> bool" where
  "tpm_ok t \<longleftrightarrow> permanent_ok (t_permanent t) \<and> volatile_ok (t_volatile t) \<and> ram_ok (t_nv t) (t_ram t)"

lemma tpm_ok_nv: "tpm_ok t \<Longrightarrow> nv_ok t"
  by (simp add: tpm_ok_def nv_ok_def permanent_ok_def)

lemma shutdown_ok_simps [simp]:
  "shutdown_ok Shutdown_None" "shutdown_ok DaUsed" "shutdown_ok Shutdown_Clear"
  "shutdown_ok (Shutdown_State d) \<longleftrightarrow> saved_state_ok d"
  by (simp_all add: shutdown_ok_def)

lemma not_orderly_ok: "\<not> is_orderly s \<Longrightarrow> shutdown_ok s"
  by (cases s) simp_all

lemma policy_default_ok [simp]: "policy_ok policy_default"
  by (simp add: policy_ok_def policy_default_def policy_size_def)

lemma clear_state_default_ok [simp]: "clear_state_ok clear_state_default"
  by (simp add: clear_state_ok_def clear_state_default_def)

section \<open>Frames\<close>

text \<open>The NV operations.\<close>

lemma tpm_ok_effect:
  assumes "nv_effect t t'" and "tpm_ok t"
  shows "tpm_ok t'"
proof -
  from assms(1) have nv: "nv_ok t'" and f: "nv_rest t' = nv_rest t"
    and s: "voids t t'" by (auto simp: nv_effect_def)
  from f have p: "(t_permanent t')\<lparr>pm_nv := [], pm_nv_max_counter := 0, pm_shutdown := Shutdown_None\<rparr>
      = (t_permanent t)\<lparr>pm_nv := [], pm_nv_max_counter := 0, pm_shutdown := Shutdown_None\<rparr>"
    and v: "(t_volatile t')\<lparr>vo_nv_orderly := []\<rparr> = (t_volatile t)\<lparr>vo_nv_orderly := []\<rparr>"
    by (simp_all add: nv_rest_def)
  have "pm_eps (t_permanent t') = pm_eps (t_permanent t)" "pm_sps (t_permanent t') = pm_sps (t_permanent t)"
    "pm_pps (t_permanent t') = pm_pps (t_permanent t)" "pm_hierarchies (t_permanent t') = pm_hierarchies (t_permanent t)"
    "pm_allocation (t_permanent t') = pm_allocation (t_permanent t)" "pm_persistent (t_permanent t') = pm_persistent (t_permanent t)"
    using p [THEN arg_cong, of pm_persistent] p [THEN arg_cong, of pm_eps] p [THEN arg_cong, of pm_sps] p [THEN arg_cong, of pm_pps]
      p [THEN arg_cong, of pm_hierarchies] p [THEN arg_cong, of pm_allocation] by simp_all
  moreover have "vo_pcrs (t_volatile t') = vo_pcrs (t_volatile t)" "vo_clear (t_volatile t') = vo_clear (t_volatile t)"
    "vo_allocation (t_volatile t') = vo_allocation (t_volatile t)" "vo_null_proof (t_volatile t') = vo_null_proof (t_volatile t)"
    "vo_null_seed (t_volatile t') = vo_null_seed (t_volatile t)" "vo_sessions (t_volatile t') = vo_sessions (t_volatile t)"
    using v [THEN arg_cong, of vo_pcrs] v [THEN arg_cong, of vo_clear] v [THEN arg_cong, of vo_allocation]
      v [THEN arg_cong, of vo_null_proof] v [THEN arg_cong, of vo_null_seed] v [THEN arg_cong, of vo_sessions] by simp_all
  moreover have "shutdown_ok (pm_shutdown (t_permanent t'))"
    using s assms(2) not_orderly_ok by (auto simp: voids_def tpm_ok_def permanent_ok_def)
  ultimately show ?thesis using assms(2) nv by (simp add: tpm_ok_def permanent_ok_def volatile_ok_def nv_ok_def)
qed

lemma nv_rest_persistent: "nv_rest t' = nv_rest t \<Longrightarrow> pm_persistent (t_permanent t') = pm_persistent (t_permanent t)"
  by (cases "t_permanent t'"; cases "t_permanent t") (simp add: nv_rest_def)

named_theorems ok_rules \<open>operations that keep the invariant\<close>

lemma tpm_ok_clear_orderly [ok_rules]: "tpm_ok t \<Longrightarrow> tpm_ok (clear_orderly t)"
  by (simp add: clear_orderly_def tpm_ok_def permanent_ok_def)

lemma tpm_ok_attempt [ok_rules]:
  "tpm_ok t \<Longrightarrow> (\<And>x. m = Inr x \<Longrightarrow> tpm_ok (snd (k x t))) \<Longrightarrow> tpm_ok (snd (attempt m k t))"
  by (simp add: attempt_def split: sum.split)

lemma tpm_ok_draw [ok_rules]:
  "pred_option (\<lambda>s. length s = SEED_SIZE) m \<Longrightarrow> tpm_ok t \<Longrightarrow> (\<And>s. seed_ok s \<Longrightarrow> tpm_ok (snd (k s t)))
     \<Longrightarrow> tpm_ok (snd (draw m k t))"
  by (auto simp: draw_def seed_ok_def split: option.split)

text \<open>Updates of one part.\<close>

lemma tpm_ok_permanent [ok_rules]:
  assumes "tpm_ok t"
  shows "seed_ok s \<Longrightarrow> tpm_ok (permanent_mut (pm_eps_update (\<lambda>_. s)) t)"
    and "seed_ok s \<Longrightarrow> tpm_ok (permanent_mut (pm_sps_update (\<lambda>_. s)) t)"
    and "seed_ok s \<Longrightarrow> tpm_ok (permanent_mut (pm_pps_update (\<lambda>_. s)) t)"
    and "(\<And>h. hierarchies_ok h \<Longrightarrow> hierarchies_ok (f h)) \<Longrightarrow> tpm_ok (permanent_mut (pm_hierarchies_update f) t)"
    and "banks_allocated a \<Longrightarrow> tpm_ok (permanent_mut (pm_allocation_update (\<lambda>_. a)) t)"
    and "tpm_ok (permanent_mut (pm_da_update d) t)" and "(\<And>ks. persistent_ok ks \<Longrightarrow> persistent_ok (g ks)) \<Longrightarrow> tpm_ok (permanent_mut (pm_persistent_update g) t)"
    and "tpm_ok (permanent_mut (pm_clock_safe_update b) t)" and "tpm_ok (permanent_mut (pm_time_epoch_update e) t)"
    and "shutdown_ok u \<Longrightarrow> tpm_ok (permanent_mut (pm_shutdown_update (\<lambda>_. u)) t)"
    and "tpm_ok (permanent_mut id t)"
    and "tpm_ok (permanent_mut (\<lambda>p. p\<lparr>pm_reset_count := k p, pm_total_reset_count := l p\<rparr>) t)"
    and "tpm_ok (permanent_mut (\<lambda>p. p\<lparr>pm_da := m p, pm_clock := n p, pm_clock_safe := o' p, pm_reset_count := q p\<rparr>) t)"
  using assms by (simp_all add: tpm_ok_def permanent_ok_def)

lemma tpm_ok_volatile [ok_rules]:
  assumes "tpm_ok t"
  shows "(\<And>c. clear_state_ok c \<Longrightarrow> clear_state_ok (f c)) \<Longrightarrow> tpm_ok (volatile_mut (vo_clear_update f) t)"
    and "tpm_ok (volatile_mut (vo_da_timers_update d) t)" and "tpm_ok (volatile_mut (vo_da_used_update b) t)"
    and "tpm_ok (volatile_mut (vo_objects_update g) t)" and "tpm_ok (volatile_mut (vo_time_reset_update e) t)"
    and "tpm_ok (volatile_mut (vo_pcr_reconfig_update k) t)" and "tpm_ok (volatile_mut (vo_sessions_update (map l)) t)"
    and "seed_ok s \<Longrightarrow> tpm_ok (volatile_mut (vo_null_proof_update (\<lambda>_. s)) t)"
    and "(\<And>p. pcrs_ok p \<Longrightarrow> pcrs_ok (h p)) \<Longrightarrow> tpm_ok (volatile_mut (vo_pcrs_update h) t)"
    and "tpm_ok (volatile_mut (\<lambda>v. v\<lparr>vo_restart_count := m v, vo_clear_count := n v\<rparr>) t)"
  using assms by (simp_all add: tpm_ok_def volatile_ok_def)

lemma tpm_ok_update_time [ok_rules]: "tpm_ok t \<Longrightarrow> tpm_ok (update_time now t)"
  by (simp add: update_time_def Let_def tpm_ok_def permanent_ok_def volatile_ok_def)

section \<open>Hierarchies\<close>

lemma tpm_ok_da_self_heal [ok_rules]: "tpm_ok t \<Longrightarrow> tpm_ok (da_self_heal t)"
  unfolding da_self_heal_def by (auto simp: Let_def split: prod.split intro!: ok_rules)

lemma persistent_ok_filter: "persistent_ok ks \<Longrightarrow> persistent_ok (filter f ks)"
  using order_trans [OF length_filter_le [of f ks]] by (auto simp: persistent_ok_def sorted_wrt_map sorted_wrt_filter)

lemma tpm_ok_da [ok_rules]:
  assumes "tpm_ok t"
  shows "tpm_ok (da_startup o' tr du t)" and "tpm_ok (snd (check_locked_out l t))" and "tpm_ok (da_failure l t)"
    and "tpm_ok (flush_hierarchy h t)" and "tpm_ok (flush_persistent h t)"
proof -
  show "tpm_ok (da_startup o' tr du t)" unfolding da_startup_def Let_def using assms by (auto intro!: ok_rules)
  show "tpm_ok (snd (check_locked_out l t))" "tpm_ok (da_failure l t)" "tpm_ok (flush_hierarchy h t)" "tpm_ok (flush_persistent h t)"
    unfolding check_locked_out_def da_failure_def flush_hierarchy_def flush_persistent_def Let_def
    using assms by (auto intro!: ok_rules persistent_ok_filter)
qed

lemma hierarchies_ok_updates:
  assumes "hierarchies_ok h"
  shows "policy_ok p \<Longrightarrow> hierarchies_ok (h\<lparr>owner_policy := p\<rparr>)" "policy_ok p \<Longrightarrow> hierarchies_ok (h\<lparr>endorsement_policy := p\<rparr>)"
    "policy_ok p \<Longrightarrow> hierarchies_ok (h\<lparr>lockout_policy := p\<rparr>)" "length a \<le> MAX_DIGEST \<Longrightarrow> hierarchies_ok (h\<lparr>owner_auth := a\<rparr>)"
    "length a \<le> MAX_DIGEST \<Longrightarrow> hierarchies_ok (h\<lparr>endorsement_auth := a\<rparr>)"
    "length a \<le> MAX_DIGEST \<Longrightarrow> hierarchies_ok (h\<lparr>lockout_auth := a\<rparr>)"
    "seed_ok s \<Longrightarrow> hierarchies_ok (h\<lparr>ph_proof := s\<rparr>)" "seed_ok s \<Longrightarrow> hierarchies_ok (h\<lparr>sh_proof := s\<rparr>)"
    "hierarchies_ok (h\<lparr>disable_clear := b\<rparr>)"
  using assms by (simp_all add: hierarchies_ok_def seed_ok_def)

lemma tpm_ok_nv_flush_owner [ok_rules]:
  assumes "tpm_ok t"
  shows "tpm_ok (nv_flush_owner t)"
proof (rule tpm_ok_effect [OF _ assms])
  show "nv_effect t (nv_flush_owner t)"
    using nv_flush_owner_facts(1,3,4) [OF tpm_ok_nv [OF assms]] by (simp add: nv_effect_def voids_def)
qed

lemma tpm_ok_clear_action:
  assumes "tpm_ok t" and "seed_ok eh"
  shows "tpm_ok (clear_action eh t)"
proof -
  define u where "u = volatile_mut (vo_clear_update (\<lambda>c. c\<lparr>sh_enable := True, eh_enable := True\<rparr>))
    (permanent_mut (pm_hierarchies_update (\<lambda>h. h\<lparr>eh_proof := eh, owner_auth := [], endorsement_auth := [],
                lockout_auth := [], owner_policy := policy_default, endorsement_policy := policy_default,
                lockout_policy := policy_default\<rparr>)) t)"
  have u: "tpm_ok u" unfolding u_def using assms
    by (intro ok_rules) (simp_all add: hierarchies_ok_def clear_state_ok_def seed_ok_def)
  then have "tpm_ok (nv_flush_owner (flush_persistent TPM_RH_ENDORSEMENT (flush_hierarchy TPM_RH_ENDORSEMENT
      (flush_persistent TPM_RH_OWNER (flush_hierarchy TPM_RH_OWNER u)))))" (is "tpm_ok ?v") by (intro ok_rules)
  moreover from this have "banks_allocated (vo_allocation (t_volatile ?v))" by (simp add: tpm_ok_def volatile_ok_def)
  ultimately show ?thesis using u unfolding clear_action_def Let_def u_def [symmetric] by (intro ok_rules) simp_all
qed

lemma run_hierarchy_ok:
  assumes ok: "tpm_ok t" and h: "host_ok h"
  shows "tpm_ok (snd (run_hierarchy h c hs r t))"
proof -
  have s: "pred_option (\<lambda>s. length s = SEED_SIZE) (h_seed1 h)" "pred_option (\<lambda>s. length s = SEED_SIZE) (h_seed2 h)"
    "pred_option (\<lambda>s. length s = SEED_SIZE) (h_seed3 h)" using h by (simp_all add: host_ok_def)
  show ?thesis
  proof (cases c)
    case HierarchyControl
    have "tpm_ok (volatile_mut (hierarchy_set enable state) u)" if "tpm_ok u" for enable state and u :: "('a, 'b, 'c) tpm"
      using that by (simp add: tpm_ok_def volatile_ok_def hierarchy_set_def clear_state_ok_def)
    then show ?thesis using ok unfolding HierarchyControl run_hierarchy.simps hierarchy_control_def Let_def
      by (auto intro!: ok_rules)
  next
    case ChangeEps
    show ?thesis using ok s unfolding ChangeEps run_hierarchy.simps change_eps_def Let_def
      by (auto intro!: ok_rules simp: hierarchies_ok_def clear_state_ok_def seed_ok_def)
  next
    case ChangePps
    show ?thesis using ok s unfolding ChangePps run_hierarchy.simps change_pps_def Let_def
      by (auto intro!: ok_rules simp: hierarchies_ok_def clear_state_ok_def seed_ok_def)
  next
    case Clear
    show ?thesis using ok s unfolding Clear run_hierarchy.simps tpm_clear_def Let_def
      by (auto intro!: ok_rules tpm_ok_clear_action hierarchies_ok_updates)
  next
    case HierarchyChangeAuth
    have "length (strip_zeros a) \<le> MAX_DIGEST" if "length a \<le> MAX_DIGEST" for a
      using that length_strip_zeros [of a] by simp
    then show ?thesis using ok unfolding HierarchyChangeAuth run_hierarchy.simps hierarchy_change_auth_def
      by (auto intro!: ok_rules hierarchies_ok_updates simp: rd_run_Inr clear_state_ok_def)
  next
    case SetPrimaryPolicy
    show ?thesis using ok unfolding SetPrimaryPolicy run_hierarchy.simps set_primary_policy_def
      by (auto intro!: ok_rules hierarchies_ok_updates simp: sum_bind_eq_Inr policy_ok_def clear_state_ok_def)
  next
    case ClearControl
    show ?thesis using ok unfolding ClearControl run_hierarchy.simps clear_control_def
      by (auto intro!: ok_rules hierarchies_ok_updates)
  qed (use ok in \<open>auto simp: dictionary_attack_lock_reset_def dictionary_attack_parameters_def intro!: ok_rules\<close>)
qed

section \<open>Startup, shutdown and the PCR commands\<close>

lemma saved_state_pcrs: "shutdown_ok s \<Longrightarrow> \<forall>d. map_option sa_pcrs (saved_state s) = Some d \<longrightarrow> saved_ok d"
  by (cases s)
    (force simp: saved_state_def saved_state_ok_def saved_ok_def banks_ok_def bank_values_ok_def list_all_iff)+

lemma startup_before_ok:
  assumes ok: "tpm_ok t"
  shows "tpm_ok (startup_before now kind t)"
proof -
  let ?s = "saved_state (pm_shutdown (t_permanent t))"
  have s: "shutdown_ok (pm_shutdown (t_permanent t))" using ok by (simp add: tpm_ok_def permanent_ok_def)
  then have c: "clear_state_ok (sa_clear d)" if "?s = Some d" for d
    using that by (cases "pm_shutdown (t_permanent t)") (simp_all add: saved_state_def saved_state_ok_def)
  have v: "tpm_ok (volatile_mut (\<lambda>v. v\<lparr>vo_ph_enable := True,
      vo_clear := (case ?s of Some d \<Rightarrow> if kind = Resume then sa_clear d else clear_state_default | None \<Rightarrow> clear_state_default),
      vo_pcrs := pcrs_startup (vo_allocation v) kind (map_option sa_pcrs ?s) (vo_pcrs v), vo_pcr_reconfig := False\<rparr>) u)"
    if "tpm_ok u" for u :: "('a, 'b, 'c) tpm"
    using that pcrs_startup_ok [OF _ saved_state_pcrs [OF s]] c
    by (auto simp: tpm_ok_def volatile_ok_def split: option.split)
  show ?thesis unfolding startup_before_def Let_def using ok by (auto intro!: ok_rules v)
qed

lemma length_fold_restore: "length (fold restore_session xs ss) = length ss"
  by (induction xs arbitrary: ss) (auto simp: restore_session_def split: prod.split)

lemma startup_reset_data_ok:
  assumes ok: "tpm_ok t" and d: "pred_option reset_data_ok saved"
    and s: "pred_option (\<lambda>s. length s = SEED_SIZE) s1" "pred_option (\<lambda>s. length s = SEED_SIZE) s2"
  shows "tpm_ok (snd (startup_reset_data s1 s2 kind saved t))"
proof -
  let ?u = "volatile_mut (vo_sessions_update (map (\<lambda>_. Free))) t"
  have u: "tpm_ok ?u" using ok by (intro ok_rules)
  have r: "tpm_ok (volatile_mut (\<lambda>v. v\<lparr>vo_null_seed := s, vo_clear_count := 0, vo_restart_count := 0,
      vo_object_context_id := 0, vo_context_counter := FIRST_CONTEXT\<rparr>) v)" if "tpm_ok v" "seed_ok s" for s and v :: "('a, 'b, 'c) tpm"
    using that by (simp add: tpm_ok_def volatile_ok_def)
  show ?thesis
  proof (cases "if kind = Reset then None else saved")
    case None
    then show ?thesis using u s unfolding startup_reset_data_def Let_def by (auto intro!: ok_rules r)
  next
    case (Some x)
    then have "reset_data_ok x" using d by (auto split: if_splits)
    then show ?thesis using u Some unfolding startup_reset_data_def Let_def
      by (simp add: tpm_ok_def volatile_ok_def length_fold_restore reset_data_ok_def seed_ok_def)
  qed
qed

lemma nv_restart_ok:
  assumes "tpm_ok t"
  shows "tpm_ok (nv_startup kind orderly t)"
proof (rule tpm_ok_effect [OF _ assms])
  have "nv_list_ok (t_nv t)" using assms by (simp add: tpm_ok_def permanent_ok_def)
  from nv_startup_facts(1-3) [OF this] show "nv_effect t (nv_startup kind orderly t)"
    by (simp add: nv_effect_def voids_def)
qed

lemma startup_command_ok:
  assumes ok: "tpm_ok t" and s: "pred_option (\<lambda>s. length s = SEED_SIZE) s1" "pred_option (\<lambda>s. length s = SEED_SIZE) s2"
  shows "tpm_ok (snd (startup_command now s1 s2 r t))"
proof -
  let ?saved = "map_option sa_reset (saved_state (pm_shutdown (t_permanent t)))"
  have "shutdown_ok (pm_shutdown (t_permanent t))" using ok by (simp add: tpm_ok_def permanent_ok_def)
  then have "pred_option reset_data_ok ?saved"
    by (cases "pm_shutdown (t_permanent t)") (simp_all add: saved_state_def saved_state_ok_def)
  then have d: "tpm_ok (snd (startup_reset_data s1 s2 kind ?saved (startup_before now kind t)))" for kind
    by (intro startup_reset_data_ok startup_before_ok ok s)
  have a: "tpm_ok (startup_after kind orderly u)" if "tpm_ok u" for kind orderly and u :: "('a, 'b, 'c) tpm"
  proof -
    have "tpm_ok (volatile_mut (\<lambda>v. v\<lparr>vo_objects := map (\<lambda>_. None) (vo_objects v), vo_exclusive_audit := None,
                vo_orderly_startup := orderly, vo_da_used := False, vo_started := True\<rparr>) (nv_startup kind orderly u))"
      using nv_restart_ok [OF that, of kind orderly] by (simp add: tpm_ok_def volatile_ok_def)
    then show ?thesis unfolding startup_after_def Let_def by (intro ok_rules) simp_all
  qed
  have "tpm_ok (snd (case startup_reset_data s1 s2 kind ?saved (startup_before now kind t) of
      (Inl e, t) \<Rightarrow> (Inl e, t) | (Inr z, t) \<Rightarrow> (Inr [], startup_after kind orderly t)))" for kind orderly
    using d [of kind] a by (cases "startup_reset_data s1 s2 kind ?saved (startup_before now kind t)") (auto split: sum.split)
  then show ?thesis using ok unfolding startup_command_def Let_def by (intro ok_rules) simp_all
qed

lemma volatile_reset_data_ok:
  assumes "volatile_ok v"
  shows "reset_data_ok (volatile_reset_data v)"
proof -
  have "length (List.map_filter f xs) \<le> length xs" for f :: "'y \<Rightarrow> 'z option" and xs
    by (simp add: List.map_filter_def)
  from this [of _ "enumerate 0 (vo_sessions v)"] assms show ?thesis
    by (simp add: volatile_ok_def reset_data_ok_def volatile_reset_data_def seed_ok_def)
qed

lemma pcrs_save_banks: "pcrs_ok p \<Longrightarrow> banks_ok STATE_SAVED (sp_banks (pcrs_save p))"
proof -
  assume ok: "pcrs_ok p"
  have "map fst (sp_banks (pcrs_save p)) = HASH_ALL"
    using ok by (simp add: pcrs_save_def pcrs_ok_def comp_def)
  then have "distinct (map fst (sp_banks (pcrs_save p)))" by (simp add: HASH_ALL_def)
  with pcrs_save_ok(1) [OF ok] show ?thesis
    by (auto simp: banks_ok_def saved_ok_def bank_values_ok_def list_all_iff)
qed

lemma shutdown_command_ok:
  assumes "tpm_ok t"
  shows "tpm_ok (snd (shutdown_command r t))"
proof -
  let ?t = "nv_store_orderly (volatile_mut (vo_da_used_update (\<lambda>_. False)) t)"
  have v: "tpm_ok (volatile_mut (vo_da_used_update (\<lambda>_. False)) t)" using assms by (intro ok_rules)
  have u: "tpm_ok ?t"
  proof (rule tpm_ok_effect [OF _ v])
    note n = tpm_ok_nv [OF v]
    show "nv_effect (volatile_mut (vo_da_used_update (\<lambda>_. False)) t) ?t"
      using nv_store_orderly_facts(3,4) [OF n] nv_ok_same [OF nv_store_orderly_ok(1) [OF n] n]
      by (simp add: nv_effect_def voids_def)
  qed
  then have "volatile_ok (t_volatile ?t)" by (simp add: tpm_ok_def)
  then have "saved_state_ok \<lparr>sa_pcrs = pcrs_save (vo_pcrs (t_volatile ?t)), sa_clear = vo_clear (t_volatile ?t),
      sa_reset = volatile_reset_data (t_volatile ?t)\<rparr>"
    using volatile_reset_data_ok pcrs_save_banks by (simp add: saved_state_ok_def volatile_ok_def)
  with u assms show ?thesis unfolding shutdown_command_def Let_def
    by (intro ok_rules) (simp_all add: tpm_ok_def permanent_ok_def)
qed

lemma tpm_ok_extend:
  assumes "digest_ok D" and "tpm_ok t"
  shows "tpm_ok (tpm_extend D pcr ds t)"
  unfolding tpm_extend_def using assms(2)
proof (induction ds arbitrary: t)
  case (Cons x ds)
  have "tpm_ok (volatile_mut (\<lambda>v. v\<lparr>vo_pcrs := pcrs_extend D (vo_allocation v) pcr (fst x) (snd x) (vo_pcrs v)\<rparr>) t)"
    using Cons.prems pcrs_extend_ok [OF assms(1)] by (simp add: tpm_ok_def volatile_ok_def)
  then show ?case using Cons.IH by (simp add: case_prod_beta)
qed simp

lemma tpm_ok_pcr_to_extend [ok_rules]: "tpm_ok t \<Longrightarrow> tpm_ok (snd (pcr_to_extend h t))"
  unfolding pcr_to_extend_def Let_def by (auto intro: ok_rules)

lemma allocate_ok:
  assumes "banks_allocated a" and "allocation_ok ss"
  shows "banks_allocated (fold allocate_bank ss a)"
proof -
  have u: "banks_allocated (allocate_bank s a)" if "banks_allocated a" "length (s_select s) = PCR_SELECT" for s a
  proof -
    have "map s_hash (allocate_bank s a) = map s_hash a" unfolding allocate_bank_def by (induction a) auto
    moreover from this have "length (allocate_bank s a) = length a" by (metis length_map)
    moreover have "set (allocate_bank s a) \<subseteq> insert s (set a)" unfolding allocate_bank_def by (induction a) auto
    ultimately show ?thesis using that by (auto simp: banks_allocated_def allocation_ok_def list_all_iff)
  qed
  have "\<forall>s \<in> set ss. length (s_select s) = PCR_SELECT" using assms(2) by (simp add: allocation_ok_def list_all_iff)
  then show ?thesis using assms(1) by (induction ss arbitrary: a) (auto intro: u)
qed

lemma run_basic_ok:
  assumes D: "digest_ok D" and ok: "tpm_ok t" and h: "host_ok h"
  shows "tpm_ok (snd (run_basic D h c hs r t))"
proof (cases c)
  case StartupCommand
  then show ?thesis using startup_command_ok [OF ok] h by (simp add: host_ok_def)
next
  case ShutdownCommand
  then show ?thesis using shutdown_command_ok [OF ok] by simp
next
  case PcrExtend
  have "tpm_ok (snd (case pcr_to_extend i t of (Inl e, t) \<Rightarrow> (Inl e, t) | (Inr None, t) \<Rightarrow> (Inr [], t)
      | (Inr (Some p), t) \<Rightarrow> (Inr [], tpm_extend D p ds t)))" for i ds
    using tpm_ok_pcr_to_extend [OF ok, of i] tpm_ok_extend [OF D]
    by (cases "pcr_to_extend i t") (auto split: sum.split option.split)
  then show ?thesis using ok unfolding PcrExtend run_basic.simps pcr_extend_def by (auto intro!: ok_rules)
next
  case PcrEvent
  have "tpm_ok (snd (case pcr_to_extend i t of (Inl e, t) \<Rightarrow> (Inl e, t)
      | (Inr p, t) \<Rightarrow> (Inr bs, case p of None \<Rightarrow> t | Some p \<Rightarrow> tpm_extend D p ds t)))" for i ds and bs :: bytes
    using tpm_ok_pcr_to_extend [OF ok, of i] tpm_ok_extend [OF D]
    by (cases "pcr_to_extend i t") (auto split: sum.split option.split)
  then show ?thesis using ok unfolding PcrEvent run_basic.simps pcr_event_def Let_def by (auto intro!: ok_rules)
next
  case PcrReset
  have p: "tpm_ok (volatile_mut (\<lambda>v. v\<lparr>vo_pcrs := pcrs_reset (vo_allocation v) n (vo_pcrs v)\<rparr>) u)" if "tpm_ok u" for n and u :: "('a, 'b, 'c) tpm"
    using that pcrs_reset_ok by (simp add: tpm_ok_def volatile_ok_def)
  then show ?thesis using ok unfolding PcrReset run_basic.simps pcr_reset_def Let_def by (auto intro!: ok_rules p)
next
  case PcrAllocate
  have "banks_allocated (vo_allocation (t_volatile t))" using ok by (simp add: tpm_ok_def volatile_ok_def)
  then show ?thesis using ok unfolding PcrAllocate run_basic.simps pcr_allocate_def Let_def
    by (auto intro!: ok_rules allocate_ok simp: sum_bind_eq_Inr rd_run_Inr selections.get_iff)
qed (use ok in simp_all)

section \<open>Every step\<close>

lemma persistent_ok_put:
  fixes ks :: "(u32 \<times> 'x key) list"
  assumes ok: "persistent_ok ks" and room: "length ks < MAX_PERSISTENT \<or> list_ex (\<lambda>(h, _). h = handle) ks"
  defines "rest \<equiv> filter (\<lambda>(h, _). h \<noteq> handle) ks"
  shows "persistent_ok (list_insert (partition_point (\<lambda>(h, _). h < handle) rest) (handle, k) rest)"
proof -
  have r: "persistent_ok rest" unfolding rest_def by (rule persistent_ok_filter [OF ok])
  have n: "handle \<notin> set (map fst rest)" by (auto simp: rest_def)
  have "length rest < MAX_PERSISTENT"
  proof (cases "list_ex (\<lambda>(h, _). h = handle) ks")
    case True
    then obtain y where "y \<in> set ks" "\<not> (\<lambda>(h, _). h \<noteq> handle) y" by (auto simp: list_ex_iff)
    then have "length rest < length ks" unfolding rest_def by (rule length_filter_less)
    then show ?thesis using ok by (simp add: persistent_ok_def)
  next
    case False
    then show ?thesis using room le_less_trans [OF length_filter_le [of "\<lambda>(h, _). h \<noteq> handle" ks]] by (simp add: rest_def)
  qed
  moreover have "length (takeWhile p rest @ (handle, k) # dropWhile p rest) = Suc (length rest)" for p
    by (simp, metis length_append takeWhile_dropWhile_id)
  moreover have "(\<lambda>(h, _ :: 'x key). h < handle) = (\<lambda>y. fst y < fst (handle, k))" by (auto simp: fun_eq_iff)
  ultimately show ?thesis
    using sorted_insert [of fst rest "(handle, k)"] r n by (simp add: persistent_ok_def list_insert_partition)
qed

lemma tpm_ok_provision:
  assumes ok: "tpm_ok t"
  shows "tpm_ok (snd (provision_endorsement_key ek kind cert t))"
proof -
  note nv = tpm_ok_nv [OF ok]
  let ?c = "case cert of None \<Rightarrow> (Inr (), nv_delete (certificate_index kind) t)
     | Some der \<Rightarrow> if length der > MAX_NV_INDEX_SIZE then (Inl RC_SIZE, t)
         else (case u16_try_from (length der) of None \<Rightarrow> (Inl RC_SIZE, t)
               | Some n \<Rightarrow> nv_provision (certificate_public kind n) der t)"
  have e: "nv_effect t (snd ?c)"
  proof (cases cert)
    case None
    then show ?thesis by (simp add: nv_effect_delete [OF nv])
  next
    case (Some der)
    have "nv_effect t u" if n: "u16_try_from (length der) = Some n" and l: "length der \<le> MAX_NV_INDEX_SIZE"
      and u: "nv_provision (certificate_public kind n) der t = (x, u)" for n x u
    proof -
      have "length der = unat n" using n by (simp add: u16_try_from_eq_Some)
      from nv_provision_effect [OF nv certificate_public_ok(1,2) [OF this l] u] nv show ?thesis by auto
    qed
    then show ?thesis using Some nv
      by (auto split: option.split) (metis not_less prod.collapse)
  qed
  have "pm_persistent (t_permanent (snd ?c)) = pm_persistent (t_permanent t)"
    using e [unfolded nv_effect_def] nv_rest_persistent by blast
  then have put: "tpm_ok (permanent_mut (pm_persistent_update g) (snd ?c))" if "persistent_ok (g (pm_persistent (t_permanent t)))" for g
    using tpm_ok_effect [OF e ok] that by (simp add: tpm_ok_def permanent_ok_def)
  have p: "persistent_ok (pm_persistent (t_permanent t))" using ok by (simp add: tpm_ok_def permanent_ok_def)
  let ?g = "\<lambda>k ps. list_insert (partition_point (\<lambda>(h, _). h < ek_handle kind) (filter (\<lambda>(h, _). h \<noteq> ek_handle kind) ps))
      (ek_handle kind, k) (filter (\<lambda>(h, _). h \<noteq> ek_handle kind) ps)"
  have "tpm_ok (snd (case ?c of (Inl e, t) \<Rightarrow> (Inl e, t) | (Inr _, t) \<Rightarrow> (Inr (), permanent_mut (pm_persistent_update (?g k)) t)))"
    if "length (pm_persistent (t_permanent t)) < MAX_PERSISTENT
      \<or> list_ex (\<lambda>(h, _). h = ek_handle kind) (pm_persistent (t_permanent t))" for k
    using tpm_ok_effect [OF e ok] put [of "?g k"] persistent_ok_put [OF p that, of k]
    by (cases ?c) (simp split: sum.split)
  then show ?thesis using ok unfolding provision_endorsement_key_def Let_def
    by (auto intro!: tpm_ok_attempt simp: sum_bind_eq_Inr not_le)
qed

lemma tpm_ok_internal:
  assumes D: "digest_ok D" and "internal D t t'" and "tpm_ok t"
  shows "tpm_ok t'"
  using assms(2,3)
proof (induction rule: internal.induct)
  case (locked_out lockout t x t')
  then show ?case using tpm_ok_da(2) [of t lockout] by simp
next
  case (pin_use index success t x t')
  from nv_pin_effect [OF tpm_ok_nv [OF pin_use(2)] pin_use(1)] pin_use(2) show ?case
    using tpm_ok_effect nv_effect_updates [OF tpm_ok_nv [OF pin_use(2)]] by blast
next
  case (sequence handle t pcr u digests)
  then show ?case using tpm_ok_pcr_to_extend [of t handle] tpm_ok_extend [OF D] by simp
next
  case (provision ek kind certificate t x t')
  then show ?case using tpm_ok_provision [of t ek kind certificate] by simp
next
  case (session ss t os audit i n)
  then show ?case by (simp add: session_work_def tpm_ok_def volatile_ok_def)
qed (auto simp: begin_command_def intro: ok_rules)

lemma tpm_ok_execute:
  assumes D: "digest_ok D" and h: "host_ok h" and ok: "tpm_ok t"
  shows "tpm_ok (snd (execute D h c hs r t))"
proof -
  let ?u = "begin_command (h_now h) t"
  have u: "tpm_ok ?u" using ok by (auto simp: begin_command_def intro: ok_rules)
  have "tpm_ok (snd (run D h c hs r ?u))"
  proof (cases c)
    case (Nv n)
    then show ?thesis
      using tpm_ok_effect [OF run_nv_effect [OF D tpm_ok_nv [OF u]] u, of n hs r "fst (run_nv D n hs r ?u)"] by simp
  qed (simp_all add: run_hierarchy_ok [OF u h] run_basic_ok [OF D u h])
  then show ?thesis using ok by (simp add: execute_def)
qed

text \<open>A TPM powered on from what is stored.\<close>

lemma power_on_ok: "permanent_ok p \<Longrightarrow> tpm_ok (tpm_power_on p)"
  by (simp add: tpm_ok_def tpm_power_on_def volatile_power_on_def volatile_ok_def permanent_ok_def pcrs_new_ok
      ram_ok_images zero_seed_def seed_ok_def)

lemma permanent_ok_unclocked: "unclocked p = unclocked q \<Longrightarrow> permanent_ok p = permanent_ok q"
proof -
  assume "unclocked p = unclocked q"
  then have "pm_eps p = pm_eps q \<and> pm_sps p = pm_sps q \<and> pm_pps p = pm_pps q \<and> pm_hierarchies p = pm_hierarchies q
      \<and> pm_allocation p = pm_allocation q \<and> pm_shutdown p = pm_shutdown q \<and> pm_nv p = pm_nv q
      \<and> pm_persistent p = pm_persistent q"
    unfolding unclocked_def by (cases p; cases q) simp
  then show ?thesis by (simp add: permanent_ok_def)
qed

definition machine_ok :: "('x, 'q, 's) machine \<Rightarrow> bool" where
  "machine_ok m \<longleftrightarrow> tpm_ok (m_tpm m) \<and> stored_ok m"

lemma machine_ok_stored: "machine_ok m \<Longrightarrow> permanent_ok (m_stored m)"
  using permanent_ok_unclocked [of "m_stored m" "t_permanent (m_tpm m)"]
  by (simp add: machine_ok_def stored_ok_def tpm_ok_def)

lemma tpm_ok_settle: "tpm_ok t \<Longrightarrow> tpm_ok (m_tpm (settle t p))"
  by (simp add: settle_def take_permanent_changed_def tpm_ok_def)

lemma machine_ok_step:
  assumes D: "digest_ok D" and m: "machine_ok m" and s: "tpm_step D m m'"
  shows "machine_ok m'"
proof -
  have ok: "tpm_ok (m_tpm m)" and st: "stored_ok m" using m by (simp_all add: machine_ok_def)
  have "tpm_ok (m_tpm m')" using s
  proof (cases rule: tpm_step.cases)
    case (command h c hs r x t)
    then show ?thesis using tpm_ok_execute [OF D command(2) ok, of c hs r] by (simp add: tpm_ok_settle)
  next
    case (internal t)
    then show ?thesis using tpm_ok_internal [OF D internal(2) ok] by (simp add: tpm_ok_settle)
  next
    case power_cycle
    then show ?thesis using power_on_ok [OF machine_ok_stored [OF m]] by simp
  qed
  with storage.inv_step [OF st s] show ?thesis by (simp add: machine_ok_def)
qed

lemma machine_start_ok: "permanent_ok p \<Longrightarrow> machine_ok (machine_start p)"
  by (simp add: machine_ok_def machine_start_def power_on_ok) (auto simp: stored_ok_def tpm_power_on_def)

interpretation typing: machine_invariant "\<lambda>m. digest_ok D \<and> (\<exists>p. permanent_ok p \<and> m = machine_start p)"
  "\<lambda>m m'. digest_ok D \<and> tpm_step D m m'" machine_ok for D
  by unfold_locales (auto intro: machine_start_ok machine_ok_step)

lemma reachable_ok:
  assumes D: "digest_ok D" and p: "permanent_ok p" and r: "tpm_reachable D p m"
  shows "machine_ok m"
proof -
  have "(\<lambda>m m'. digest_ok D \<and> tpm_step D m m') = tpm_step D" using D by auto
  then show ?thesis using typing.reach_inv [of D "machine_start p" m] D p r by (auto simp: tpm_reachable_def)
qed

end
