(* ===== verification/Tpm_Counters.thy ===== *)
theory Tpm_Counters
  imports Tpm_Invariant
begin

text \<open>
  NV counters. An orderly counter lives in RAM, and its stored value lags behind by less than
  \<open>MAX_ORDERLY_COUNT + 1\<close>; after a shutdown that was not orderly a Startup moves the stored value to the
  end of that range. \<open>nv_floor\<close> is what the next read of a counter is at least: its value, or, while the
  index is not a written counter, the largest value a deleted counter had.
\<close>

section \<open>Ranges of counter values\<close>

definition close :: "u64 \<Rightarrow> u64 \<Rightarrow> bool" where
  "close s v \<longleftrightarrow> unat v div 256 = unat s div 256 \<and> s \<le> v"

lemma unat_low_byte: "unat (v AND 0xff) = unat (v :: u64) mod 256"
proof -
  have "v AND 0xff = take_bit 8 v" using take_bit_eq_mask [of 8 v] by (simp add: mask_eq_exp_minus_1)
  then show ?thesis by (simp add: take_bit_eq_mod unat_mod)
qed

lemma unat_or_byte: "unat (v OR 0xff) = unat (v :: u64) div 256 * 256 + 255"
proof -
  let ?l = "v AND 0xff"
  have l: "unat ?l = unat v mod 256" by (rule unat_low_byte)
  then have le: "?l \<le> v" by (simp add: word_le_nat_alt)
  have "?l + (v OR 0xff) = v + 0xff" by (rule word_plus_and_or)
  then have "v OR 0xff = (v - ?l) + 0xff" by (simp add: algebra_simps eq_diff_eq)
  moreover have "unat (v - ?l) = unat v div 256 * 256"
    using unat_sub [OF le] l by (simp add: minus_mod_eq_div_mult)
  moreover have "unat v div 256 * 256 + 255 < 2 ^ 64"
  proof -
    have "unat v < 2 ^ 64" using unat_lt_u64 [of v] by (simp add: usize_max_def)
    then have "unat v div 256 \<le> 2 ^ 56 - 1" by (simp add: less_mult_imp_div_less div_le_mono)
    then show ?thesis by simp
  qed
  ultimately show ?thesis by (simp add: unat_word_ariths)
qed

lemma close_refl [simp]: "close s s"
  by (simp add: close_def)

lemma byte_range:
  fixes m n :: nat
  shows "n \<le> n div 256 * 256 + 255" and "(n div 256 * 256 + 255) div 256 = n div 256"
  using div_mult_mod_eq [of n 256] mod_less_divisor [of 256 n] by (auto simp del: div_mult_mod_eq)

lemma close_or: "close s (s OR 0xff)"
  unfolding close_def word_le_nat_alt unat_or_byte by (simp only: byte_range simp_thms)

lemma close_le_or: "close s v \<Longrightarrow> v \<le> s OR 0xff"
  unfolding close_def word_le_nat_alt unat_or_byte by (metis byte_range(1))

lemma close_Suc:
  assumes "close s v" and "(v + 1) AND 0xff \<noteq> 0"
  shows "close s (v + 1)"
proof -
  have "unat (v + 1) mod 256 \<noteq> 0" using assms(2) unat_low_byte [of "v + 1"] by (metis unat_eq_zero)
  then have n: "unat (v + 1) = unat v + 1" 
    by (cases "v + 1 = 0") (simp_all add: unatSuc add.commute)
  with \<open>unat (v + 1) mod 256 \<noteq> 0\<close> have "unat (v + 1) div 256 = unat v div 256" by (simp add: div_Suc)
  then show ?thesis using assms(1) n by (simp add: close_def word_le_nat_alt)
qed

lemma be_u64_bytes [simp]: "be_u64 (to_be_bytes v) = v"
  by (simp add: be_u64_def slice_to_def)

section \<open>Stored values and RAM copies\<close>

text \<open>How the stored entry of an orderly counter relates to its RAM copy, exactly or within a range.\<close>

definition counter_pair :: "bool \<Rightarrow> nv_index \<Rightarrow> orderly_ram \<Rightarrow> bool" where
  "counter_pair exact e r \<longleftrightarrow> (np_attributes (ni_public e) AND WRITTEN = 0 \<longleftrightarrow> or_attributes r AND WRITTEN = 0)
     \<and> (if exact then be_u64 (ni_data e) = be_u64 (or_data r) else close (be_u64 (ni_data e)) (be_u64 (or_data r)))"

definition counters_at :: "bool \<Rightarrow> ('x, 'q, 's) tpm \<Rightarrow> bool" where
  "counters_at exact t \<longleftrightarrow> (\<forall>i e r. nv_entry i t = Some e \<longrightarrow> orderly_ram_of i t = Some r
     \<longrightarrow> kind_of (np_attributes (ni_public e)) = Some Counter \<longrightarrow> counter_pair exact e r)"

text \<open>Before a Startup, and after an orderly shutdown, nothing lags behind.\<close>

definition nv_exact :: "('x, 'q, 's) tpm \<Rightarrow> bool" where
  "nv_exact t \<longleftrightarrow> is_orderly (pm_shutdown (t_permanent t)) \<or> \<not> vo_started (t_volatile t)"

definition counters_ok :: "('x, 'q, 's) tpm \<Rightarrow> bool" where
  "counters_ok t \<longleftrightarrow> counters_at (nv_exact t) t"

lemma counter_pair_weaken: "counter_pair b e r \<Longrightarrow> (b' \<longrightarrow> b) \<Longrightarrow> counter_pair b' e r"
  by (auto simp: counter_pair_def split: if_splits)

lemma counters_at_weaken: "counters_at b t \<Longrightarrow> (b' \<longrightarrow> b) \<Longrightarrow> counters_at b' t"
  unfolding counters_at_def by (metis counter_pair_weaken)

lemma nv_lookup_cong:
  "t_nv t' = t_nv t \<Longrightarrow> nv_entry i t' = nv_entry i t" "t_ram t' = t_ram t \<Longrightarrow> orderly_ram_of i t' = orderly_ram_of i t"
  by (simp_all add: nv_entry_def nv_position_def orderly_ram_of_def)

lemma counters_at_cong: "t_nv t' = t_nv t \<Longrightarrow> t_ram t' = t_ram t \<Longrightarrow> counters_at b t' = counters_at b t"
  by (simp add: counters_at_def nv_lookup_cong [of t' t])

lemma counters_at_clear_orderly [simp]: "counters_at b (clear_orderly t) = counters_at b t"
  by (rule counters_at_cong) simp_all

lemma counters_at_store:
  assumes "nv_ok t"
  shows "counters_at b (nv_store_orderly t)"
proof -
  have "counter_pair True e' r" if e': "nv_entry i (nv_store_orderly t) = Some e'" and r: "orderly_ram_of i (nv_store_orderly t) = Some r"
    for i e' r
  proof -
    note s = nv_store_orderly_ok(3,4) [OF assms, of i]
    from e' s(1) obtain e where e: "nv_entry i t = Some e" "e' = stored_entry (t_ram t) e" by auto
    have "find (\<lambda>r. or_index r = ni_index e) (t_ram t) = Some r"
      using r s(2) e(1) nv_entry_Some [OF assms] by (auto simp: orderly_ram_of_def)
    then show ?thesis by (simp add: e(2) stored_entry_def counter_pair_def)
  qed
  then have "counters_at True (nv_store_orderly t)" by (simp add: counters_at_def)
  then show ?thesis by (rule counters_at_weaken) simp
qed

lemma nv_set_live_lookup:
  assumes ok: "nv_ok t" and live: "nv_live i t = Some (a0, d0)" and a: "agree a0 a" and d: "length d = length d0"
    and e: "nv_entry j t = Some e" and r: "orderly_ram_of j (nv_set_live i a d t) = Some r'"
  shows "nv_entry j (nv_set_live i a d t) = Some e"
    and "orderly_ram_of j t = Some r' \<and> j \<noteq> i \<or> j = i \<and> (\<exists>r. orderly_ram_of i t = Some r \<and> r' = r\<lparr>or_attributes := a, or_data := d\<rparr>)"
proof -
  obtain f where f: "nv_entry i t = Some f" using live by (auto simp: nv_live_def Option.bind_eq_Some_conv)
  note eff = nv_set_live_nv [OF ok f, of a d]
  note ok' = nv_ok_same [OF nv_set_live_ok(1) [OF ok live a d] ok]
  have o': "orderly_ram_of j (nv_set_live i a d t) = map_option (\<lambda>r. if np_has (ni_public f) ORDERLY \<and> or_index r = i
      then r\<lparr>or_attributes := a, or_data := d\<rparr> else r) (orderly_ram_of j t)"
    by (simp add: orderly_ram_of_def eff find_update_key option.map_ident)
  then obtain r0 where r0: "orderly_ram_of j t = Some r0" using r by (cases "orderly_ram_of j t") simp_all
  then have j: "np_has (ni_public e) ORDERLY" "or_index r0 = j"
    using orderly_ram_iff(1) [OF ok e] orderly_ram_Some [OF ok] by auto
  have "nv_entry j (nv_set_live i a d t) = map_option (\<lambda>x. if \<not> np_has (ni_public f) ORDERLY \<and> ni_index x = i
      then set_entry a d x else x) (nv_entry j t)"
    by (simp add: nv_entry_find [OF ok] nv_entry_find [OF ok'] eff find_update_key option.map_ident)
  moreover have "ni_index e = j" using e nv_entry_Some [OF ok] by simp
  ultimately show "nv_entry j (nv_set_live i a d t) = Some e" using e f j(1) by auto
  show "orderly_ram_of j t = Some r' \<and> j \<noteq> i \<or> j = i \<and> (\<exists>r. orderly_ram_of i t = Some r \<and> r' = r\<lparr>or_attributes := a, or_data := d\<rparr>)"
    using r o' r0 j f e by (cases "j = i") auto
qed

lemma counters_at_set_live:
  assumes ok: "nv_ok t" and live: "nv_live i t = Some (a0, d0)" and a: "agree a0 a" and d: "length d = length d0"
    and c: "counters_at b t"
    and new: "\<And>e r. nv_entry i t = Some e \<Longrightarrow> orderly_ram_of i t = Some r \<Longrightarrow> kind_of a0 = Some Counter
      \<Longrightarrow> counter_pair b e (r\<lparr>or_attributes := a, or_data := d\<rparr>)"
  shows "counters_at b (nv_set_live i a d t)"
  unfolding counters_at_def
proof (intro allI impI)
  fix j e' r'
  assume e': "nv_entry j (nv_set_live i a d t) = Some e'" and r': "orderly_ram_of j (nv_set_live i a d t) = Some r'"
    and k: "kind_of (np_attributes (ni_public e')) = Some Counter"
  have ok': "nv_ok (nv_set_live i a d t)" by (rule nv_ok_same [OF nv_set_live_ok(1) [OF ok live a d] ok])
  have "nv_live j (nv_set_live i a d t) \<noteq> None"
    using nv_public_of_None [OF ok', of j] e' by simp
  then have "nv_live j t \<noteq> None" using nv_set_live_ok(2) [OF ok live a d, of j] live by (auto split: if_splits)
  then obtain e where e: "nv_entry j t = Some e" using nv_public_of_None [OF ok, of j] by (cases "nv_entry j t") auto
  note l = nv_set_live_lookup [OF ok live a d e r']
  then have [simp]: "e' = e" using e' by simp
  from l(2) show "counter_pair b e' r'"
  proof (elim disjE conjE exE)
    assume "orderly_ram_of j t = Some r'"
    then show ?thesis using c e k by (simp add: counters_at_def)
  next
    fix r assume r: "j = i" "orderly_ram_of i t = Some r" "r' = r\<lparr>or_attributes := a, or_data := d\<rparr>"
    have "kind_of a0 = kind_of (np_attributes (ni_public e))"
      using ok
    proof (cases rule: nv_live_cases [where i = i])
      case (orderly f s)
      then show ?thesis using live e r(1) kind_of_agree by fastforce
    qed (use live e r in auto)
    then show ?thesis using new [of e r] e r k by simp
  qed
qed

lemma live_orderly:
  assumes "nv_ok t" and "nv_live i t = Some (a, d)"
  shows "a AND ORDERLY \<noteq> 0 \<longleftrightarrow> (\<exists>r. orderly_ram_of i t = Some r)"
    and "orderly_ram_of i t = Some r \<Longrightarrow> a = or_attributes r \<and> d = or_data r"
proof -
  show "a AND ORDERLY \<noteq> 0 \<longleftrightarrow> (\<exists>r. orderly_ram_of i t = Some r)" using assms(1)
  proof (cases rule: nv_live_cases [where i = i])
    case (orderly e r)
    then have "or_attributes r AND ORDERLY = np_attributes (ni_public e) AND ORDERLY"
      using agree_and [of _ _ ORDERLY] by force
    then show ?thesis using orderly assms(2) by (simp add: np_has_def)
  qed (use assms(2) in \<open>simp_all add: np_has_def\<close>)
  show "a = or_attributes r \<and> d = or_data r" if "orderly_ram_of i t = Some r"
    using assms(1) by (cases rule: nv_live_cases [where i = i]) (use assms(2) that in auto)
qed

lemma nv_write_fits:
  assumes "nv_live i t = Some (a, d)" and "n + length bs \<le> length d" and "length d \<le> usize_max"
  shows "nv_write i n bs t = (Inr (),
    let u = nv_set_live i (a OR WRITTEN) (splice (written_data a d) n bs) t
    in if a AND ORDERLY \<noteq> 0
       then (if a AND WRITTEN = 0 \<and> kind_of a = Some Counter then nv_store_orderly (clear_orderly u) else clear_orderly u)
       else u)"
  using assms unfolding nv_write_def written_data_def by (simp add: Let_def checked_add_def)

lemma counters_at_write:
  assumes ok: "nv_ok t" and live: "nv_live i t = Some (a, d)" and fit: "n + length bs \<le> length d" "length d \<le> usize_max"
    and w: "nv_write i n bs t = (x, u)" and c: "counters_at b t"
    and new: "\<And>e. kind_of a = Some Counter \<Longrightarrow> a AND ORDERLY \<noteq> 0 \<Longrightarrow> a AND WRITTEN \<noteq> 0 \<Longrightarrow> nv_entry i t = Some e
      \<Longrightarrow> if b then be_u64 (ni_data e) = be_u64 (splice d n bs) else close (be_u64 (ni_data e)) (be_u64 (splice d n bs))"
  shows "counters_at b u"
proof -
  let ?d = "splice (written_data a d) n bs"
  define v where "v = nv_set_live i (a OR WRITTEN) ?d t"
  have a: "agree a (a OR WRITTEN)" by (simp add: agree_or)
  have l: "length ?d = length d" using fit by (simp add: written_data_def splice_def)
  have okv: "nv_ok v" unfolding v_def by (rule nv_ok_same [OF nv_set_live_ok(1) [OF ok live a l] ok])
  define first where "first \<longleftrightarrow> kind_of a = Some Counter \<and> a AND WRITTEN = 0"
  have u: "u = (if a AND ORDERLY \<noteq> 0 then (if first then nv_store_orderly (clear_orderly v) else clear_orderly v) else v)"
    using w nv_write_fits [OF live fit] unfolding v_def first_def by (auto simp: Let_def)
  show ?thesis
  proof (cases "a AND ORDERLY \<noteq> 0 \<and> first")
    case True
    then have "u = nv_store_orderly (clear_orderly v)" using u by simp
    then show ?thesis using counters_at_store [of "clear_orderly v"] okv by (simp add: nv_ok_def)
  next
    case False
    have "counters_at b v" unfolding v_def
    proof (rule counters_at_set_live [OF ok live a l c])
      fix e r assume e: "nv_entry i t = Some e" and r: "orderly_ram_of i t = Some r" and k: "kind_of a = Some Counter"
      note ra = live_orderly [OF ok live]
      have o: "a AND ORDERLY \<noteq> 0" "a AND WRITTEN \<noteq> 0" using ra(1) r False k by (auto simp: first_def)
      have ke: "kind_of (np_attributes (ni_public e)) = Some Counter"
        using orderly_ram_iff(2) [OF ok e r] kind_of_agree ra(2) [OF r] k by metis
      have "counter_pair b e r" using c e r ke by (simp add: counters_at_def)
      then have "np_attributes (ni_public e) AND WRITTEN \<noteq> 0" using o(2) ra(2) [OF r] by (simp add: counter_pair_def)
      moreover have "(a OR WRITTEN) AND WRITTEN \<noteq> 0" by (simp add: WRITTEN_def bit.conj_disj_distrib2)
      moreover have "written_data a d = d" using k by (simp add: written_data_def)
      ultimately show "counter_pair b e (r\<lparr>or_attributes := a OR WRITTEN, or_data := ?d\<rparr>)"
        using new [OF k o e] by (simp add: counter_pair_def)
    qed
    then show ?thesis using u False by auto
  qed
qed

lemma counters_at_set_attributes:
  assumes ok: "nv_ok t" and live: "nv_live i t = Some (a0, d)" and a: "agree a0 a" and c: "counters_at b t"
  shows "counters_at b (nv_set_attributes i a t)"
proof (cases "a AND ORDERLY = 0")
  case True
  have "a0 AND ORDERLY = 0" using True agree_and [OF a, of ORDERLY] by simp
  then have "orderly_ram_of i t = None" using live_orderly(1) [OF ok live] by (cases "orderly_ram_of i t") simp_all
  then have "counters_at b (nv_set_live i a d t)" by (intro counters_at_set_live [OF ok live a refl c]) simp
  then show ?thesis using True live by (simp add: nv_set_attributes_def)
next
  case False
  have "nv_ok (nv_set_live i a d t)" by (rule nv_ok_same [OF nv_set_live_ok(1) [OF ok live a refl] ok])
  then have "counters_at b (nv_store_orderly (clear_orderly (nv_set_live i a d t)))"
    by (intro counters_at_store) (simp add: nv_ok_def)
  then show ?thesis using False live by (simp add: nv_set_attributes_def)
qed

text \<open>Operations that keep other entries, or store their copies.\<close>

lemma counter_pair_stored:
  "find (\<lambda>r. or_index r = ni_index e) rs = Some r \<Longrightarrow> counter_pair b (stored_entry rs e) r"
  by (simp add: stored_entry_def counter_pair_def)

lemma kind_of_stored:
  assumes "nv_ok t" and "nv_entry j t = Some e" and "orderly_ram_of j t = Some r"
    and "find (\<lambda>r. or_index r = j) rs = Some r"
  shows "kind_of (np_attributes (ni_public (stored_entry rs e))) = kind_of (np_attributes (ni_public e))"
  using orderly_ram_iff(2) [OF assms(1-3)] kind_of_agree nv_entry_Some [OF assms(1)] assms(2,4)
  by (auto simp: stored_entry_def)

lemma counters_at_kept:
  assumes ok: "nv_ok t" and c: "counters_at b t"
    and entry: "\<And>j e' r. nv_entry j t' = Some e' \<Longrightarrow> orderly_ram_of j t' = Some r \<Longrightarrow>
      counter_pair b e' r \<or> orderly_ram_of j t = Some r \<and> (nv_entry j t' = nv_entry j t
         \<or> (nv_entry j t' = map_option (stored_entry rs) (nv_entry j t) \<and> find (\<lambda>r. or_index r = j) rs = Some r))"
  shows "counters_at b t'"
  unfolding counters_at_def
proof (intro allI impI)
  fix j e' r
  assume e': "nv_entry j t' = Some e'" and r: "orderly_ram_of j t' = Some r"
    and k: "kind_of (np_attributes (ni_public e')) = Some Counter"
  from entry [OF e' r] show "counter_pair b e' r"
  proof (elim disjE conjE)
    assume "orderly_ram_of j t = Some r" "nv_entry j t' = nv_entry j t"
    then show ?thesis using c e' k by (simp add: counters_at_def)
  next
    assume "nv_entry j t' = map_option (stored_entry rs) (nv_entry j t)" "find (\<lambda>r. or_index r = j) rs = Some r"
    moreover from this(1) e' obtain e where e: "nv_entry j t = Some e" "e' = stored_entry rs e" by (cases "nv_entry j t") simp_all
    moreover have "ni_index e = j" using e(1) nv_entry_Some [OF ok] by simp
    ultimately show ?thesis by (simp add: counter_pair_stored)
  qed
qed


lemma find_filter_other: "(\<And>x. p x \<Longrightarrow> q x) \<Longrightarrow> find p (filter q xs) = find p xs"
  by (induction xs) auto

lemma counters_at_delete:
  assumes ok: "nv_ok t" and c: "counters_at b t"
  shows "counters_at b (nv_delete i t)"
proof (rule counters_at_kept [OF ok c, where rs = "filter (\<lambda>r. or_index r \<noteq> i) (t_ram t)"])
  fix j e' r
  assume r: "orderly_ram_of j (nv_delete i t) = Some r"
  note d = nv_delete_facts(6,7) [OF ok, where i = i and j = j]
  have j: "j \<noteq> i" "orderly_ram_of j t = Some r" using r d(2) by (auto split: if_splits)
  then have "find (\<lambda>r. or_index r = j) (filter (\<lambda>r. or_index r \<noteq> i) (t_ram t)) = Some r"
    by (subst find_filter_other) (auto simp: orderly_ram_of_def)
  with j d(1) show "counter_pair b e' r \<or> orderly_ram_of j t = Some r
      \<and> (nv_entry j (nv_delete i t) = nv_entry j t \<or> nv_entry j (nv_delete i t)
           = map_option (stored_entry (filter (\<lambda>r. or_index r \<noteq> i) (t_ram t))) (nv_entry j t)
         \<and> find (\<lambda>r. or_index r = j) (filter (\<lambda>r. or_index r \<noteq> i) (t_ram t)) = Some r)" by blast
qed

lemma ram_without_entry:
  assumes "nv_ok t" and "nv_entry i t = None"
  shows "orderly_ram_of i t = None"
proof (rule ccontr)
  assume "orderly_ram_of i t \<noteq> None"
  then obtain r where "r \<in> set (t_ram t)" "or_index r = i" using orderly_ram_Some [OF assms(1)] by fastforce
  then obtain e where "e \<in> set (t_nv t)" "ni_index e = i"
    using assms(1) by (auto simp: nv_ok_def ram_ok_def is_copy_iff)
  then show False using assms nv_entry_Some [OF assms(1), of i e] by simp
qed

lemma counters_at_define:
  assumes ok: "nv_ok t" and c: "counters_at b t" and x: "define_space_entry hs r t = Inr x" "define_space hs r t = (y, t')"
  shows "counters_at b t'"
proof (rule counters_at_kept [OF ok c, where rs = "t_ram t @ [ram_image x]"])
  fix j e' q
  assume e': "nv_entry j t' = Some e'" and q: "orderly_ram_of j t' = Some q"
  note f = define_space_facts(7,8) [OF ok x, where j = j] define_space_facts(9) [OF ok x]
  let ?Q = "counter_pair b e' q \<or> orderly_ram_of j t = Some q \<and> (nv_entry j t' = nv_entry j t
      \<or> nv_entry j t' = map_option (stored_entry (t_ram t @ [ram_image x])) (nv_entry j t)
        \<and> find (\<lambda>r. or_index r = j) (t_ram t @ [ram_image x]) = Some q)"
  show ?Q
  proof (cases "j = ni_index x")
    case True
    then have "e' = x" using e' f(3) by simp
    moreover have "orderly_ram_of j t = None" using define_space_entry_ok(2) [OF ok x(1)] True ram_without_entry [OF ok] by simp
    ultimately have "q = ram_image e'" using q f(2) by (auto split: if_splits)
    then show ?thesis by (simp add: ram_image_def counter_pair_def)
  next
    case False
    then have o: "orderly_ram_of j t = Some q" using q f(2) by simp
    then have "find (\<lambda>r. or_index r = j) (t_ram t @ [ram_image x]) = Some q"
      by (simp add: find_snoc orderly_ram_of_def)
    with o f(1) [OF False] show ?thesis by blast
  qed
qed

end
