(* ===== verification/Tpm_Floor.thy ===== *)
theory Tpm_Floor
  imports Tpm_Counters
begin

text \<open>
  The floor of a counter never falls. \<open>nv_floor i\<close> is what a read of the counter at index \<open>i\<close> gives next:
  its value; after a power loss that was not orderly, the end of the range Startup moves it to; and, while
  the index is not a written counter, the largest value of a deleted one, which the next counter goes on
  from. Every step of the machine keeps or raises it, and an increment raises it.
\<close>

section \<open>The floor\<close>

definition nv_pending :: "('x, 'q, 's) tpm \<Rightarrow> bool" where
  "nv_pending t \<longleftrightarrow> \<not> vo_started (t_volatile t) \<and> \<not> is_orderly (pm_shutdown (t_permanent t))"

definition counter_written :: "u32 \<Rightarrow> bool" where
  "counter_written a \<longleftrightarrow> kind_of a = Some Counter \<and> a AND WRITTEN \<noteq> 0"

definition counter_value :: "bool \<Rightarrow> u32 \<Rightarrow> bytes \<Rightarrow> u64" where
  "counter_value pending a d = (if pending \<and> a AND ORDERLY \<noteq> 0 then be_u64 d OR MAX_ORDERLY_COUNT else be_u64 d)"

definition nv_floor :: "u32 \<Rightarrow> ('x, 'q, 's) tpm \<Rightarrow> u64" where
  "nv_floor i t =
     (case nv_live i t of
        Some (a, d) \<Rightarrow> if counter_written a then counter_value (nv_pending t) a d else pm_nv_max_counter (t_permanent t)
      | None \<Rightarrow> pm_nv_max_counter (t_permanent t))"

lemma MAX_ORDERLY_COUNT_eq: "MAX_ORDERLY_COUNT = 0xff"
  by (simp add: MAX_ORDERLY_COUNT_def)

lemma le_or_byte: "v \<le> (v OR 0xff :: u64)"
  using close_or [of v] by (simp add: close_def)

lemma or_byte_mono: "v \<le> w \<Longrightarrow> v OR 0xff \<le> (w OR 0xff :: u64)"
  by (simp add: word_le_nat_alt unat_or_byte div_le_mono)

lemma counter_value_mono:
  assumes "be_u64 d \<le> be_u64 d'" and "a' AND ORDERLY = a AND ORDERLY" and "b \<longrightarrow> b'"
  shows "counter_value b a d \<le> counter_value b' a' d'"
  using assms order_trans [OF _ le_or_byte] or_byte_mono
  by (auto simp: counter_value_def MAX_ORDERLY_COUNT_eq)

text \<open>What two states with the same volatile flags have in common.\<close>

lemma nv_rest_started: "nv_rest t' = nv_rest t \<Longrightarrow> vo_started (t_volatile t') = vo_started (t_volatile t)"
  by (cases "t_volatile t'"; cases "t_volatile t") (simp add: nv_rest_def)

lemma nv_pending_mono:
  "voids t t' \<Longrightarrow> vo_started (t_volatile t') = vo_started (t_volatile t) \<Longrightarrow> nv_pending t \<Longrightarrow> nv_pending t'"
  by (auto simp: nv_pending_def voids_def)

lemma nv_exact_mono:
  "voids t t' \<Longrightarrow> vo_started (t_volatile t') = vo_started (t_volatile t) \<Longrightarrow> nv_exact t' \<Longrightarrow> nv_exact t"
  by (auto simp: nv_exact_def voids_def)

section \<open>Counting steps\<close>

definition counting :: "u32 \<Rightarrow> ('x, 'q, 's) tpm \<Rightarrow> ('x, 'q, 's) tpm \<Rightarrow> bool" where
  "counting i t t' \<longleftrightarrow> nv_ok t' \<and> counters_ok t' \<and> nv_floor i t \<le> nv_floor i t'"

lemma counting_refl: "nv_ok t \<Longrightarrow> counters_ok t \<Longrightarrow> counting i t t"
  by (simp add: counting_def)

lemma counting_trans: "counting i t u \<Longrightarrow> counting i u v \<Longrightarrow> counting i t v"
  by (auto simp: counting_def)

text \<open>A step that touches no index, and at most voids the recorded shutdown.\<close>

definition nv_frame :: "('x, 'q, 's) tpm \<Rightarrow> ('x, 'q, 's) tpm \<Rightarrow> bool" where
  "nv_frame t t' \<longleftrightarrow> t_nv t' = t_nv t \<and> t_ram t' = t_ram t \<and> voids t t'
     \<and> pm_nv_max_counter (t_permanent t') = pm_nv_max_counter (t_permanent t)
     \<and> vo_started (t_volatile t') = vo_started (t_volatile t)"

lemma nv_frame_refl [simp]: "nv_frame t t"
  by (simp add: nv_frame_def)

lemma nv_frame_trans: "nv_frame t u \<Longrightarrow> nv_frame u v \<Longrightarrow> nv_frame t v"
  by (auto simp: nv_frame_def intro: voids_trans)

lemma nv_live_frame: "t_nv t' = t_nv t \<Longrightarrow> t_ram t' = t_ram t \<Longrightarrow> nv_live i t' = nv_live i t"
  by (intro nv_live_cong nv_lookup_cong)

lemma counting_frame:
  assumes "nv_frame t t'" and "nv_ok t" and "counters_ok t"
  shows "counting i t t'"
proof -
  have f: "t_nv t' = t_nv t" "t_ram t' = t_ram t" "voids t t'"
    "pm_nv_max_counter (t_permanent t') = pm_nv_max_counter (t_permanent t)"
    "vo_started (t_volatile t') = vo_started (t_volatile t)" using assms(1) by (simp_all add: nv_frame_def)
  have "counters_at (nv_exact t) t'" using assms(3) counters_at_cong [OF f(1,2)] by (simp add: counters_ok_def)
  then have "counters_ok t'" unfolding counters_ok_def
    by (rule counters_at_weaken) (use nv_exact_mono [OF f(3,5)] in blast)
  moreover have "nv_floor i t \<le> nv_floor i t'"
    using f(4) nv_live_frame [OF f(1,2), of i] nv_pending_mono [OF f(3,5)]
    by (auto simp: nv_floor_def split: option.split intro!: counter_value_mono)
  moreover have "nv_ok t'" using assms(2) f(1,2) by (simp add: nv_ok_def)
  ultimately show ?thesis by (simp add: counting_def)
qed

text \<open>A step that updates one index.\<close>

lemma counting_updates:
  assumes ok: "nv_ok t" and u: "nv_updates j a' d' t t'" and l: "nv_live j t = Some (a, d)" and ag: "agree a a'"
    and c: "counters_at b t'" and b: "nv_exact t' \<longrightarrow> b"
    and w: "j = i \<Longrightarrow> counter_written a \<Longrightarrow> counter_written a' \<and> be_u64 d \<le> be_u64 d'"
    and n: "j = i \<Longrightarrow> \<not> counter_written a \<Longrightarrow> counter_written a' \<Longrightarrow> pm_nv_max_counter (t_permanent t) \<le> be_u64 d'"
  shows "counting i t t'"
proof -
  have live: "nv_live i t' = (if i = j then Some (a', d') else nv_live i t)" and r: "nv_rest t' = nv_rest t"
    and m: "pm_nv_max_counter (t_permanent t') = pm_nv_max_counter (t_permanent t)" and v: "voids t t'"
    using u by (simp_all add: nv_updates_def)
  note p = nv_pending_mono [OF v nv_rest_started [OF r]]
  have "nv_ok t'" using u nv_ok_same [OF _ ok] by (simp add: nv_updates_def)
  moreover have "counters_ok t'" unfolding counters_ok_def using c b by (rule counters_at_weaken)
  moreover have "nv_floor i t \<le> nv_floor i t'"
  proof (cases "i = j")
    case False
    then show ?thesis using live m p by (auto simp: nv_floor_def split: option.split intro!: counter_value_mono)
  next
    case True
    have o: "a' AND ORDERLY = a AND ORDERLY" using agree_and [OF ag, of ORDERLY] by simp
    show ?thesis
    proof (cases "counter_written a")
      case written: True
      then show ?thesis using True live l w counter_value_mono [OF _ o, of d d'] p by (simp add: nv_floor_def)
    next
      case False
      have "be_u64 d' \<le> counter_value x a' d'" for x
        using counter_value_mono [of d' d' a' a' False x] by (simp add: counter_value_def)
      then show ?thesis using True live l n False m order_trans by (auto simp: nv_floor_def)
    qed
  qed
  ultimately show ?thesis by (simp add: counting_def)
qed

section \<open>The NV commands\<close>

lemma nv_write_form:
  assumes "nv_live i t = Some (a, d)" and "nv_write i n bs t = (x, u)"
  obtains d' where "length d' = length d" and
    "u = nv_set_live i (a OR WRITTEN) d' t \<or> u = clear_orderly (nv_set_live i (a OR WRITTEN) d' t)
      \<or> kind_of a = Some Counter \<and> u = nv_store_orderly (clear_orderly (nv_set_live i (a OR WRITTEN) d' t))"
proof -
  have l: "length (written_data a d) = length d" by (simp add: written_data_def)
  have w: "nv_write i n bs t = (if n + length bs \<le> usize_max \<and> n + length bs \<le> length d
      then (Inr (), let u = nv_set_live i (a OR WRITTEN) (splice (written_data a d) n bs) t
         in if a AND ORDERLY \<noteq> 0
            then (if a AND WRITTEN = 0 \<and> kind_of a = Some Counter then nv_store_orderly (clear_orderly u) else clear_orderly u)
            else u)
      else (Inl RC_FAILURE, nv_set_live i (a OR WRITTEN) (written_data a d) t))"
    unfolding nv_write_def using assms(1) by (simp add: Let_def written_data_def checked_add_def)
  show ?thesis
  proof (cases "n + length bs \<le> usize_max \<and> n + length bs \<le> length d")
    case True
    then have "length (splice (written_data a d) n bs) = length d" using l by (simp add: length_splice)
    then show ?thesis using that [of "splice (written_data a d) n bs"] w True assms(2)
      by (auto simp: Let_def split: if_splits)
  next
    case False
    then show ?thesis using that [OF l] w assms(2) by auto
  qed
qed

lemma counters_at_write_other:
  assumes ok: "nv_ok t" and live: "nv_live i t = Some (a, d)" and k: "kind_of a \<noteq> Some Counter"
    and w: "nv_write i n bs t = (x, u)" and c: "counters_at b t"
  shows "counters_at b u"
proof -
  from nv_write_form [OF live w] k obtain d' where l: "length d' = length d"
    and u: "u = nv_set_live i (a OR WRITTEN) d' t \<or> u = clear_orderly (nv_set_live i (a OR WRITTEN) d' t)" by metis
  have "counters_at b (nv_set_live i (a OR WRITTEN) d' t)"
    by (rule counters_at_set_live [OF ok live _ l c]) (use k in \<open>simp_all add: agree_or\<close>)
  with u show ?thesis by auto
qed

text \<open>A write to an index that is not a counter.\<close>

lemma counting_write_other:
  assumes ok: "nv_ok t" and c: "counters_ok t" and l: "nv_live j t = Some (a, d)" and k: "kind_of a \<noteq> Some Counter"
    and w: "nv_write j n bs t = (x, u)"
  shows "counting i t u"
proof -
  have ag: "agree a (a OR WRITTEN)" by (simp add: agree_or)
  from nv_write_form [OF l w] k obtain d' where d: "length d' = length d"
    and u: "u = nv_set_live j (a OR WRITTEN) d' t \<or> u = clear_orderly (nv_set_live j (a OR WRITTEN) d' t)" by metis
  have up: "nv_updates j (a OR WRITTEN) d' t u"
    using u nv_updates_set_live [OF ok l ag d] nv_updates_clear_orderly by blast
  show ?thesis
  proof (rule counting_updates [OF ok up l ag])
    show "counters_at (nv_exact t) u"
      using counters_at_write_other [OF ok l k w] c by (simp add: counters_ok_def)
    show "nv_exact u \<longrightarrow> nv_exact t"
      using up nv_exact_mono [of t u] nv_rest_started [of u t] by (auto simp: nv_updates_def)
  qed (use k kind_of_agree [OF ag] in \<open>simp_all add: counter_written_def\<close>)
qed

lemma counting_lock:
  assumes ok: "nv_ok t" and c: "counters_ok t" and p: "index_public j t = Inr p" and b: "b AND NOT CHANGING = 0" "b AND WRITTEN = 0"
  shows "counting i t (nv_set_attributes j (np_attributes p OR b) t)"
proof -
  let ?a = "np_attributes p" and ?u = "nv_set_attributes j (np_attributes p OR b) t"
  from lock_updates [OF ok p b(1)] obtain d where l: "nv_live j t = Some (?a, d)" and u: "nv_updates j (?a OR b) d t ?u" .
  have ag: "agree ?a (?a OR b)" using b by (simp add: agree_or)
  show ?thesis
  proof (rule counting_updates [OF ok u l ag])
    show "counters_at (nv_exact t) ?u" using counters_at_set_attributes [OF ok l ag] c by (simp add: counters_ok_def)
    show "nv_exact ?u \<longrightarrow> nv_exact t"
      using u nv_exact_mono [of t ?u] nv_rest_started [of ?u t] by (auto simp: nv_updates_def)
  qed (use kind_of_agree [OF ag] b in \<open>auto simp: counter_written_def bit.conj_disj_distrib2 or_eq_0_iff\<close>)
qed

lemma lock_bits [simp]: "WRITELOCKED AND WRITTEN = 0" "READLOCKED AND WRITTEN = 0" "WRITTEN \<noteq> 0"
  by (simp_all add: nv_attr_defs)

lemma counting_locks:
  assumes ok: "nv_ok t" and c: "counters_ok t" and r: "nv_write_lock hs r t = (x, t') \<or> nv_read_lock hs r t = (x, t')"
  shows "counting i t t'"
  using r counting_lock [OF ok c] counting_refl [OF ok c]
  by (auto simp: nv_write_lock_def nv_read_lock_def attempt_def sum_bind_eq_Inr split: sum.splits if_splits)

lemma counting_global_lock: "nv_ok t \<Longrightarrow> counters_ok t \<Longrightarrow> counting i t (fold global_lock js t)"
proof (induction js arbitrary: t)
  case (Cons j js)
  have "counting i t (global_lock j t)"
    using Cons.prems counting_lock [OF Cons.prems, of j _ WRITELOCKED i] counting_refl [OF Cons.prems, of i]
    by (auto simp: global_lock_def index_public_def split: option.split)
  moreover from this have "counting i (global_lock j t) (fold global_lock js (global_lock j t))"
    by (intro Cons.IH) (simp_all add: counting_def)
  ultimately show ?case by (auto intro: counting_trans)
qed (simp add: counting_refl)

lemma counting_quiet:
  assumes ok: "nv_ok t" and c: "counters_ok t" and q: "nv_quiet t t'"
  shows "counting i t t'"
proof -
  have s: "vo_started (t_volatile t') = vo_started (t_volatile t)" "voids t t'" "nv_live i t' = nv_live i t" "nv_same t t'"
    "pm_nv_max_counter (t_permanent t') = pm_nv_max_counter (t_permanent t)" "t_ram t' = t_ram t"
    using q nv_rest_started by (auto simp: nv_quiet_def)
  have e: "\<exists>e. nv_entry j t = Some e \<and> ni_public e = ni_public e' \<and> ni_data e = ni_data e'" if "nv_entry j t' = Some e'" for j e'
  proof -
    have "map_option (ni_auth_update (\<lambda>_. [])) (nv_entry j t') = map_option (ni_auth_update (\<lambda>_. [])) (nv_entry j t)"
      using q unfolding nv_quiet_def by blast
    with that obtain e where e: "nv_entry j t = Some e" "e\<lparr>ni_auth := []\<rparr> = e'\<lparr>ni_auth := []\<rparr>" by (cases "nv_entry j t") auto
    then show ?thesis by (cases e; cases e') simp
  qed
  have "counters_at (nv_exact t) t'" unfolding counters_at_def
  proof (intro allI impI)
    fix j e' r
    assume e': "nv_entry j t' = Some e'" and r: "orderly_ram_of j t' = Some r"
      and k: "kind_of (np_attributes (ni_public e')) = Some Counter"
    from e [OF e'] obtain e where x: "nv_entry j t = Some e" "ni_public e = ni_public e'" "ni_data e = ni_data e'" by blast
    have "orderly_ram_of j t = Some r" using r nv_lookup_cong(2) [OF s(6)] by simp
    then have "counter_pair (nv_exact t) e r" using c x(1,2) k by (simp add: counters_ok_def counters_at_def)
    then show "counter_pair (nv_exact t) e' r" unfolding counter_pair_def x(2,3) .
  qed
  then have "counters_ok t'" unfolding counters_ok_def
    by (rule counters_at_weaken) (use nv_exact_mono [OF s(2,1)] in blast)
  moreover have "nv_floor i t \<le> nv_floor i t'"
    using s nv_pending_mono [OF s(2,1)] by (auto simp: nv_floor_def split: option.split intro!: counter_value_mono)
  ultimately show ?thesis using nv_ok_same [OF s(4) ok] by (simp add: counting_def)
qed

lemma counting_delete:
  assumes ok: "nv_ok t" and c: "counters_ok t" and s: "nv_pending t \<Longrightarrow> i \<noteq> j"
  shows "counting i t (nv_delete j t)"
proof -
  let ?u = "nv_delete j t"
  note d = nv_delete_facts [OF ok, where i = j]
  have st: "nv_exact ?u = nv_exact t" "nv_pending ?u = nv_pending t"
    using nv_rest_started [OF d(3)] d(4) by (simp_all add: nv_exact_def nv_pending_def)
  have "counters_ok ?u" using counters_at_delete [OF ok, of "nv_exact t" j] c st by (simp add: counters_ok_def)
  moreover have m: "pm_nv_max_counter (t_permanent t) \<le> deleted_max j t" by (auto simp: deleted_max_def split: option.split)
  moreover have "nv_floor i t \<le> nv_floor i ?u"
  proof (cases "i = j")
    case True
    then have "nv_floor i t \<le> deleted_max j t"
      using s m by (auto simp: nv_floor_def deleted_max_def counter_written_def counter_value_def split: option.split)
    then show ?thesis using True d(2,5) by (simp add: nv_floor_def [of j ?u])
  next
    case False
    then show ?thesis using d(2,5) st m by (auto simp: nv_floor_def split: option.split)
  qed
  ultimately show ?thesis using d(1) by (simp add: counting_def)
qed

lemma counting_define:
  assumes ok: "nv_ok t" and c: "counters_ok t" and r: "define_space hs r t = (x, t')"
  shows "counting i t t'"
proof (cases "define_space_entry hs r t")
  case (Inl e)
  then show ?thesis using r counting_refl [OF ok c] by (simp add: define_space_def attempt_def)
next
  case (Inr y)
  note f = define_space_facts [OF ok Inr r]
  have st: "nv_exact t' = nv_exact t" "nv_pending t' = nv_pending t"
    using nv_rest_started [OF f(3)] f(5) by (simp_all add: nv_exact_def nv_pending_def)
  have "counters_ok t'" using counters_at_define [OF ok _ Inr r] c st by (simp add: counters_ok_def)
  moreover have "nv_live (ni_index y) t = None"
    using define_space_entry_ok(2) [OF ok Inr] nv_public_of_None [OF ok] by blast
  then have "nv_floor i t \<le> nv_floor i t'"
    using f(2,6) st define_space_entry_ok(6) [OF ok Inr]
    by (auto simp: nv_floor_def counter_written_def split: option.split)
  ultimately show ?thesis using f(1) by (simp add: counting_def)
qed

text \<open>What an increment writes is one more than the floor.\<close>

lemma nv_increment_form:
  assumes ok: "nv_ok t" and st: "vo_started (t_volatile t)" and r: "nv_increment hs r t = (x, t')"
  obtains (refused) e where "x = Inl e" "t' = t"
  | (counted) j p d u where "write_target Counter hs t = Inr (j, p)" "nv_live j t = Some (np_attributes p, d)" "length d = 8"
      "kind_of (np_attributes p) = Some Counter" "nv_write j 0 (to_be_bytes (nv_floor j t + 1)) t = (Inr (), u)" "x = Inr []"
      "t' = (if np_has p ORDERLY \<and> (nv_floor j t + 1) AND MAX_ORDERLY_COUNT = 0 then nv_store_orderly u else u)"
proof (cases "sum_bind (rd_run (rd_end ()) r) (\<lambda>_. write_target Counter hs t)")
  case (Inl e)
  then have "x = Inl e" "t' = t" using r by (simp_all add: nv_increment_def attempt_def)
  then show ?thesis by (rule refused)
next
  case (Inr y)
  then obtain j p where y: "y = (j, p)" and w: "write_target Counter hs t = Inr (j, p)"
    by (cases y) (auto simp: sum_bind_eq_Inr)
  then have p: "index_public j t = Inr p" "np_kind p = Some Counter" by (auto simp: write_target_Inr)
  from index_public_live [OF ok p(1)] obtain d where d: "nv_live j t = Some (np_attributes p, d)" "nv_data j t = Some d"
    "length d = np_size p" "size_fits p" by metis
  have k: "kind_of (np_attributes p) = Some Counter" using p(2) by (simp add: np_kind_def)
  have v: "(if np_has p WRITTEN then nv_u64 j t else pm_nv_max_counter (t_permanent t)) = nv_floor j t"
    using d(1,2) k st by (simp add: nv_floor_def counter_written_def counter_value_def nv_pending_def nv_u64_def np_has_def)
  have l: "length d = 8" using size_fits_8 [OF d(4) p(2)] d(3) by simp
  have f: "0 + length (to_be_bytes (nv_floor j t + 1)) \<le> length d" "length d \<le> usize_max" using l by (simp_all add: usize_max_def)
  obtain u where u: "nv_write j 0 (to_be_bytes (nv_floor j t + 1)) t = (Inr (), u)"
    using nv_write_fits [OF d(1) f] by (simp add: Let_def)
  have "x = Inr []" "t' = (if np_has p ORDERLY \<and> (nv_floor j t + 1) AND MAX_ORDERLY_COUNT = 0 then nv_store_orderly u else u)"
    using r Inr u unfolding nv_increment_def attempt_def y by (simp_all add: Let_def nv_write_u64_def v)
  with w d(1) l k u show ?thesis by (rule counted)
qed

lemma nv_store_orderly_shutdown [simp]: "pm_shutdown (t_permanent (nv_store_orderly t)) = pm_shutdown (t_permanent t)"
proof -
  have "pm_shutdown (t_permanent (fold store_ram rs u)) = pm_shutdown (t_permanent u)" for rs and u :: "('a, 'b, 'c) tpm"
    by (induction rs arbitrary: u) simp_all
  then show ?thesis by (simp add: nv_store_orderly_def)
qed

lemma word_less_Suc: "v \<noteq> - 1 \<Longrightarrow> v < (v + 1 :: u64)"
  using unatSuc [of v] by (simp add: word_less_nat_alt add.commute eq_neg_iff_add_eq_0)

lemma nv_floor_started:
  "nv_live j t = Some (a, d) \<Longrightarrow> vo_started (t_volatile t) \<Longrightarrow>
     nv_floor j t = (if counter_written a then be_u64 d else pm_nv_max_counter (t_permanent t))"
  by (simp add: nv_floor_def counter_value_def nv_pending_def)

lemma counting_increment:
  assumes ok: "nv_ok t" and c: "counters_ok t" and st: "vo_started (t_volatile t)"
    and top: "\<And>auth. auth_and_index hs = Inr (auth, i) \<Longrightarrow> nv_floor i t \<noteq> - 1" and r: "nv_increment hs r t = (x, t')"
  shows "counting i t t'"
  using ok st r
proof (cases rule: nv_increment_form)
  case (counted j p d u)
  let ?a = "np_attributes p" and ?v = "nv_floor j t + 1"
  have fit: "0 + length (to_be_bytes ?v) \<le> length d" "length d \<le> usize_max" using counted(3) by (simp_all add: usize_max_def)
  have wd: "splice (written_data ?a d) 0 (to_be_bytes ?v) = to_be_bytes ?v" "splice d 0 (to_be_bytes ?v) = to_be_bytes ?v"
    using counted(3) by (simp_all add: splice_def written_data_def)
  have up: "nv_updates j (?a OR WRITTEN) (to_be_bytes ?v) t u"
  proof -
    from nv_write_updates [OF ok counted(2) fit] obtain w where "nv_write j 0 (to_be_bytes ?v) t = (Inr (), w)"
      "nv_updates j (?a OR WRITTEN) (splice (written_data ?a d) 0 (to_be_bytes ?v)) t w" .
    then show ?thesis using counted(5) wd(1) by simp
  qed
  have up': "nv_updates j (?a OR WRITTEN) (to_be_bytes ?v) t t'"
    using up nv_updates_store [OF ok up] counted(7) by simp
  define b where "b \<longleftrightarrow> ?a AND ORDERLY = 0 \<and> nv_exact t"
  have cb: "counters_at b t" using c unfolding counters_ok_def by (rule counters_at_weaken) (simp add: b_def)
  have "counters_at b u"
    if low: "?a AND ORDERLY \<noteq> 0 \<Longrightarrow> ?v AND 0xff \<noteq> 0"
  proof (rule counters_at_write [OF ok counted(2) fit counted(5) cb])
    fix e assume o: "?a AND ORDERLY \<noteq> 0" "?a AND WRITTEN \<noteq> 0" and e: "nv_entry j t = Some e"
    obtain q where q1: "orderly_ram_of j t = Some q" using iffD1 [OF live_orderly(1) [OF ok counted(2)] o(1)] by blast
    note q = q1 live_orderly(2) [OF ok counted(2) q1, THEN conjunct1, symmetric] live_orderly(2) [OF ok counted(2) q1, THEN conjunct2, symmetric]
    have "kind_of (np_attributes (ni_public e)) = Some Counter"
      using kind_of_agree [OF conjunct1 [OF orderly_ram_iff(2) [OF ok e q(1)]]] counted(4) q(2) by simp
    then have "counter_pair False e q" using cb e q(1) o(1) by (simp add: counters_at_def b_def)
    then have "close (be_u64 (ni_data e)) (be_u64 d)" using q(3) by (simp add: counter_pair_def)
    moreover have "be_u64 d = nv_floor j t" using nv_floor_started [OF counted(2) st] o(2) counted(4) by (simp add: counter_written_def)
    ultimately show "if b then be_u64 (ni_data e) = be_u64 (splice d 0 (to_be_bytes ?v))
        else close (be_u64 (ni_data e)) (be_u64 (splice d 0 (to_be_bytes ?v)))"
      using close_Suc low [OF o(1)] o(1) wd(2) by (simp add: b_def)
  qed
  moreover have "nv_ok u" using up nv_ok_same [OF _ ok] by (simp add: nv_updates_def)
  ultimately have ct: "counters_at b t'"
    using counted(7) counters_at_store [of u b] by (auto simp: np_has_def MAX_ORDERLY_COUNT_eq)
  have ex: "nv_exact t' \<longrightarrow> b"
  proof (cases "?a AND ORDERLY = 0")
    case True
    then show ?thesis using up' nv_exact_mono [of t t'] nv_rest_started [of t' t] by (auto simp: nv_updates_def b_def)
  next
    case False
    then have "\<not> is_orderly (pm_shutdown (t_permanent u))"
      using counted(5) nv_write_fits [OF counted(2) fit] by (auto simp: Let_def split: if_splits)
    then have "\<not> is_orderly (pm_shutdown (t_permanent t'))" using counted(7) by simp
    moreover have "vo_started (t_volatile t')" using up' st nv_rest_started by (auto simp: nv_updates_def)
    ultimately show ?thesis by (simp add: nv_exact_def)
  qed
  have ag: "agree ?a (?a OR WRITTEN)" by (simp add: agree_or)
  have up_le: "nv_floor j t \<le> ?v" if "j = i"
  proof -
    have "nv_floor i t \<noteq> - 1" using top counted(1) that by (auto simp: write_target_Inr)
    then show ?thesis using that word_less_Suc [of "nv_floor i t"] by simp
  qed
  show ?thesis
  proof (rule counting_updates [OF ok up' counted(2) _ ct ex])
    show "counter_written (?a OR WRITTEN) \<and> be_u64 d \<le> be_u64 (to_be_bytes ?v)" if "j = i" "counter_written ?a"
      using that counted(4) up_le nv_floor_started [OF counted(2) st] kind_of_agree [OF ag]
      by (simp add: counter_written_def bit.conj_disj_distrib2)
    show "pm_nv_max_counter (t_permanent t) \<le> be_u64 (to_be_bytes ?v)" if "j = i" "\<not> counter_written ?a"
      using that up_le nv_floor_started [OF counted(2) st] by simp
  qed (rule ag)
qed (simp add: counting_refl ok c)

text \<open>Increments by name: the index they count on is strictly above its floor afterwards.\<close>

lemma nv_increment_raises:
  assumes ok: "nv_ok t" and st: "vo_started (t_volatile t)" and r: "nv_increment hs r t = (Inr ys, t')"
    and h: "auth_and_index hs = Inr (auth, i)"
  shows "nv_floor i t' = nv_floor i t + 1" and "nv_data i t' = Some (to_be_bytes (nv_floor i t + 1))"
proof -
  from nv_increment_effect [OF ok r] obtain j p v where e: "write_target Counter hs t = Inr (j, p)"
    "v = (if np_has p WRITTEN then nv_u64 j t else pm_nv_max_counter (t_permanent t)) + 1"
    "nv_updates j (np_attributes p OR WRITTEN) (to_be_bytes v) t t'" by auto
  have j: "j = i" and p: "index_public j t = Inr p" and k: "kind_of (np_attributes p) = Some Counter"
    using e(1) h by (auto simp: write_target_Inr np_kind_def)
  from index_public_live [OF ok p] obtain d where d: "nv_live j t = Some (np_attributes p, d)" "nv_data j t = Some d" by metis
  have v: "v = nv_floor i t + 1"
    using nv_floor_started [OF d(1) st] k e(2) d(2) j by (simp add: counter_written_def np_has_def nv_u64_def)
  have l: "nv_live i t' = Some (np_attributes p OR WRITTEN, to_be_bytes v)" and "vo_started (t_volatile t')" and ok': "nv_ok t'"
    using e(3) j st nv_rest_started nv_ok_same [OF _ ok] by (auto simp: nv_updates_def)
  moreover have "counter_written (np_attributes p OR WRITTEN)"
    using k kind_of_agree [of "np_attributes p" "np_attributes p OR WRITTEN"]
    by (simp add: counter_written_def agree_or bit.conj_disj_distrib2)
  ultimately show "nv_floor i t' = nv_floor i t + 1" using v by (simp add: nv_floor_started)
  show "nv_data i t' = Some (to_be_bytes (nv_floor i t + 1))"
    using ok' by (cases rule: nv_live_cases [where i = i]) (use l v in auto)
qed

lemma answer_snd: "answer m = (x, u) \<Longrightarrow> \<exists>y. m = (y, u)"
  by (cases m) (auto simp: answer_def split: sum.splits)

lemma nv_write_commands:
  assumes ok: "nv_ok t" and r: "nv_set_bits hs r t = (x, t') \<or> nv_extend D hs r t = (x, t') \<or> nv_write_command hs r t = (x, t')"
  shows "t' = t \<or> (\<exists>j p n bs y. index_public j t = Inr p \<and> np_kind p \<noteq> Some Counter \<and> nv_write j n bs t = (y, t'))"
  using r
proof (elim disjE)
  assume "nv_set_bits hs r t = (x, t')"
  then show ?thesis unfolding nv_set_bits_def attempt_def
    by (auto simp: sum_bind_eq_Inr write_target_Inr Let_def nv_write_u64_def dest!: answer_snd split: sum.splits) force
next
  assume "nv_extend D hs r t = (x, t')"
  then show ?thesis unfolding nv_extend_def attempt_def
    by (auto simp: sum_bind_eq_Inr write_target_Inr Let_def dest!: answer_snd split: sum.splits) force
next
  assume "nv_write_command hs r t = (x, t')"
  then show ?thesis unfolding nv_write_command_def attempt_def write_check_def
    by (auto simp: sum_bind_eq_Inr Let_def dest!: answer_snd split: sum.splits) blast+
qed

lemma run_nv_counting:
  assumes ok: "nv_ok t" and c: "counters_ok t" and st: "vo_started (t_volatile t)"
    and top: "\<And>auth. auth_and_index hs = Inr (auth, i) \<Longrightarrow> nv_floor i t \<noteq> - 1" and r: "run_nv D k hs r t = (x, t')"
  shows "counting i t t'"
proof -
  note same = counting_refl [OF ok c, of i]
  have del: "counting i t (nv_delete j t)" for j using counting_delete [OF ok c] st by (simp add: nv_pending_def)
  have w: "counting i t t'" if "nv_set_bits hs r t = (x, t') \<or> nv_extend D hs r t = (x, t') \<or> nv_write_command hs r t = (x, t')"
    using nv_write_commands [OF ok that]
  proof (elim disjE exE conjE)
    fix j p n bs y assume p: "index_public j t = Inr p" "np_kind p \<noteq> Some Counter" "nv_write j n bs t = (y, t')"
    from index_public_live [OF ok p(1)] obtain d where "nv_live j t = Some (np_attributes p, d)" by metis
    then show ?thesis using counting_write_other [OF ok c _ _ p(3)] p(2) by (simp add: np_kind_def)
  qed (simp add: same)
  show ?thesis
  proof (cases k)
    case NvUndefineSpaceSpecial
    then show ?thesis using r same del by (auto simp: undefine_space_special_def attempt_def split: sum.splits)
  next
    case NvUndefineSpace
    then show ?thesis using r same del by (auto simp: undefine_space_def attempt_def split: sum.splits)
  next
    case NvGlobalWriteLock
    then show ?thesis using r same counting_global_lock [OF ok c]
      by (auto simp: nv_global_write_lock_def attempt_def split: sum.splits)
  next
    case NvReadPublic
    then show ?thesis using r same by (auto simp: read_public_def attempt_def split: sum.splits)
  next
    case NvChangeAuth
    then show ?thesis using r nv_change_auth_effect [OF ok] counting_quiet [OF ok c] by simp
  next
    case NvIncrement
    then show ?thesis using counting_increment [OF ok c st top] r by simp
  qed (use r same w counting_define [OF ok c] counting_locks [OF ok c, of hs r x t' i] in
    \<open>simp_all add: nv_read_command_def\<close>)
qed

lemma counting_pin:
  assumes ok: "nv_ok t" and c: "counters_ok t" and r: "nv_pin_authorized j success t = (x, t')"
  shows "counting i t t'"
proof -
  have "t' = t \<or> (\<exists>p n bs y. index_public j t = Inr p \<and> np_kind p \<noteq> Some Counter \<and> nv_write j n bs t = (y, t'))"
    using r unfolding nv_pin_authorized_def
    by (auto simp: index_public_def Let_def case_prod_beta split: option.splits if_splits nv_kind.splits)
  then show ?thesis
  proof (elim disjE exE conjE)
    fix p n bs y assume p: "index_public j t = Inr p" "np_kind p \<noteq> Some Counter" "nv_write j n bs t = (y, t')"
    from index_public_live [OF ok p(1)] obtain d where "nv_live j t = Some (np_attributes p, d)" by metis
    then show ?thesis using counting_write_other [OF ok c _ _ p(3)] p(2) by (simp add: np_kind_def)
  qed (simp add: counting_refl ok c)
qed

section \<open>The other commands\<close>

named_theorems frame_rules \<open>operations that touch no index\<close>

lemma nv_frame_attempt [frame_rules]:
  "nv_frame s t \<Longrightarrow> (\<And>x. nv_frame s (snd (k x t))) \<Longrightarrow> nv_frame s (snd (attempt m k t))"
  by (simp add: attempt_def split: sum.split)

lemma nv_frame_draw [frame_rules]:
  "nv_frame s t \<Longrightarrow> (\<And>x. nv_frame s (snd (k x t))) \<Longrightarrow> nv_frame s (snd (draw m k t))"
  by (simp add: draw_def split: option.split)

lemma nv_frame_permanent [frame_rules]:
  assumes "nv_frame s t"
    and "\<And>p. pm_nv (f p) = pm_nv p \<and> pm_shutdown (f p) = pm_shutdown p \<and> pm_nv_max_counter (f p) = pm_nv_max_counter p"
  shows "nv_frame s (permanent_mut f t)" and "nv_frame s (untracked_mut f t)"
  using assms by (auto simp: nv_frame_def voids_def)

lemma nv_frame_volatile [frame_rules]:
  assumes "nv_frame s t" and "\<And>v. vo_nv_orderly (f v) = vo_nv_orderly v \<and> vo_started (f v) = vo_started v"
  shows "nv_frame s (volatile_mut f t)"
  using assms by (auto simp: nv_frame_def voids_def)

lemma nv_frame_clear_orderly [frame_rules]: "nv_frame s t \<Longrightarrow> nv_frame s (clear_orderly t)"
  by (auto simp: nv_frame_def)

lemma nv_frame_flush [frame_rules]:
  "nv_frame s t \<Longrightarrow> nv_frame s (flush_hierarchy h t)" "nv_frame s t \<Longrightarrow> nv_frame s (flush_persistent h t)"
  unfolding flush_hierarchy_def flush_persistent_def by (auto intro!: frame_rules)

lemma nv_frame_update_time [frame_rules]: "nv_frame s t \<Longrightarrow> nv_frame s (update_time now t)"
  by (simp add: update_time_def Let_def nv_frame_def voids_def)

lemma nv_frame_DaUsed [frame_rules]: "nv_frame s t \<Longrightarrow> nv_frame s (permanent_mut (pm_shutdown_update (\<lambda>_. DaUsed)) t)"
  by (simp add: nv_frame_def voids_def)

lemma nv_frame_self_heal [frame_rules]:
  assumes "nv_frame s t"
  shows "nv_frame s (da_self_heal t)"
proof -
  have "nv_frame s (if da \<noteq> x then permanent_mut (pm_da_update (\<lambda>_. da)) (volatile_mut (vo_da_timers_update (\<lambda>_. timers)) t)
      else volatile_mut (vo_da_timers_update (\<lambda>_. timers)) t)" for da x timers
    using assms by (simp add: nv_frame_permanent nv_frame_volatile)
  then show ?thesis unfolding da_self_heal_def by (simp add: Let_def case_prod_beta)
qed

lemma nv_frame_da [frame_rules]:
  assumes "nv_frame s t"
  shows "nv_frame s (da_startup orderly reset used t)" and "nv_frame s (snd (check_locked_out lockout t))"
    and "nv_frame s (da_failure lockout t)"
proof -
  have v: "nv_frame s (volatile_mut (vo_da_timers_update f) u)" and p: "nv_frame s (permanent_mut (pm_da_update g) u)"
    and w: "nv_frame s (volatile_mut (vo_da_used_update k) u)" if "nv_frame s u" for f g k and u :: "('a, 'b, 'c) tpm"
    using that by (simp_all add: nv_frame_permanent nv_frame_volatile)
  show "nv_frame s (da_startup orderly reset used t)" unfolding da_startup_def Let_def
    using assms by (intro nv_frame_self_heal p) (simp add: v)
  show "nv_frame s (snd (check_locked_out lockout t))" "nv_frame s (da_failure lockout t)"
    using assms by (simp_all add: check_locked_out_def da_failure_def Let_def v p w nv_frame_DaUsed)
qed

lemma nv_frame_hierarchy_set [frame_rules]: "nv_frame s t \<Longrightarrow> nv_frame s (volatile_mut (hierarchy_set e b) t)"
  by (rule nv_frame_volatile) (simp_all add: hierarchy_set_def)

lemma run_hierarchy_frame:
  assumes "c \<noteq> Clear"
  shows "nv_frame t (snd (run_hierarchy h c hs r t))"
proof (cases c)
  case HierarchyControl
  show ?thesis unfolding HierarchyControl run_hierarchy.simps hierarchy_control_def Let_def
    by (auto intro!: frame_rules)
next
  case ChangeEps
  then show ?thesis unfolding ChangeEps run_hierarchy.simps change_eps_def Let_def by (auto intro!: frame_rules)
next
  case ChangePps
  then show ?thesis unfolding ChangePps run_hierarchy.simps change_pps_def Let_def by (auto intro!: frame_rules)
next
  case HierarchyChangeAuth
  then show ?thesis unfolding HierarchyChangeAuth run_hierarchy.simps hierarchy_change_auth_def by (auto intro!: frame_rules)
next
  case SetPrimaryPolicy
  then show ?thesis unfolding SetPrimaryPolicy run_hierarchy.simps set_primary_policy_def by (auto intro!: frame_rules)
next
  case ClearControl
  then show ?thesis unfolding ClearControl run_hierarchy.simps clear_control_def by (auto intro!: frame_rules)
qed (use assms in \<open>auto simp: dictionary_attack_lock_reset_def dictionary_attack_parameters_def intro!: frame_rules\<close>)

lemma nv_frame_extend [frame_rules]: "nv_frame s t \<Longrightarrow> nv_frame s (tpm_extend D pcr ds t)"
proof -
  have "nv_frame s (fold (\<lambda>(h, d). volatile_mut (\<lambda>v. v\<lparr>vo_pcrs := pcrs_extend D (vo_allocation v) pcr h d (vo_pcrs v)\<rparr>)) ds u)"
    if "nv_frame s u" for u
    using that by (induction ds arbitrary: u) (simp_all add: nv_frame_volatile case_prod_beta)
  then show "nv_frame s t \<Longrightarrow> nv_frame s (tpm_extend D pcr ds t)" unfolding tpm_extend_def by blast
qed

lemma nv_frame_pcr_to_extend: "nv_frame s t \<Longrightarrow> nv_frame s (snd (pcr_to_extend handle t))"
  unfolding pcr_to_extend_def Let_def by (auto intro!: frame_rules split: option.split)

lemma run_basic_frame:
  assumes "c \<noteq> StartupCommand" and "c \<noteq> ShutdownCommand"
  shows "nv_frame t (snd (run_basic D h c hs r t))"
proof (cases c)
  case PcrExtend
  have "nv_frame t (snd (case pcr_to_extend i t of (Inl e, t) \<Rightarrow> (Inl e, t) | (Inr None, t) \<Rightarrow> (Inr [], t)
      | (Inr (Some p), t) \<Rightarrow> (Inr [], tpm_extend D p ds t)))" for i ds
    using nv_frame_pcr_to_extend [of t t i] by (cases "pcr_to_extend i t") (auto split: sum.split option.split intro!: frame_rules)
  then show ?thesis unfolding PcrExtend run_basic.simps pcr_extend_def by (auto intro!: frame_rules)
next
  case PcrEvent
  have "nv_frame t (snd (case pcr_to_extend i t of (Inl e, t) \<Rightarrow> (Inl e, t)
      | (Inr p, t) \<Rightarrow> (Inr bs, case p of None \<Rightarrow> t | Some p \<Rightarrow> tpm_extend D p ds t)))" for i ds and bs :: bytes
    using nv_frame_pcr_to_extend [of t t i] by (cases "pcr_to_extend i t") (auto split: sum.split option.split intro!: frame_rules)
  then show ?thesis unfolding PcrEvent run_basic.simps pcr_event_def Let_def by (auto intro!: frame_rules)
next
  case PcrReset
  then show ?thesis unfolding PcrReset run_basic.simps pcr_reset_def Let_def by (auto intro!: frame_rules)
next
  case PcrAllocate
  then show ?thesis unfolding PcrAllocate run_basic.simps pcr_allocate_def Let_def by (auto intro!: frame_rules)
qed (use assms in simp_all)

end
