(* ===== verification/Tpm_Monotone.thy ===== *)
theory Tpm_Monotone
  imports Tpm_Floor
begin

text \<open>
  Startup, shutdown, clearing, provisioning and the loss of power for NV counters, and the machine as a
  whole: no step lowers the floor of a counter, and every increment is above what was read before it.
\<close>

section \<open>Clear and shutdown\<close>

lemma nv_floor_cong:
  assumes "nv_live i t' = nv_live i t" and "nv_pending t' = nv_pending t"
    and "pm_nv_max_counter (t_permanent t') = pm_nv_max_counter (t_permanent t)"
  shows "nv_floor i t' = nv_floor i t"
  by (simp add: nv_floor_def assms split: option.split)

lemma counting_delete_fold:
  assumes "nv_ok t" and "counters_ok t" and "\<not> nv_pending t"
  shows "counting i t (fold nv_delete js t)"
  using assms
proof (induction js arbitrary: t)
  case (Cons j js)
  let ?u = "nv_delete j t"
  have c: "counting i t ?u" using counting_delete [OF Cons.prems(1,2)] Cons.prems(3) by simp
  have "\<not> nv_pending ?u"
    using Cons.prems(3) nv_delete_facts(3,4) [OF Cons.prems(1), of j] nv_rest_started by (auto simp: nv_pending_def)
  with c have "counting i ?u (fold nv_delete js ?u)" by (intro Cons.IH) (simp_all add: counting_def)
  with c show ?case by (auto intro: counting_trans)
qed (simp add: counting_refl)

lemma counting_frame_trans:
  "counting i t u \<Longrightarrow> nv_frame u v \<Longrightarrow> counting i t v"
  by (rule counting_trans, assumption, rule counting_frame) (simp_all add: counting_def)

lemma counting_clear:
  assumes ok: "nv_ok t" and c: "counters_ok t" and st: "vo_started (t_volatile t)"
  shows "counting i t (snd (tpm_clear s1 s2 s3 r t))"
proof -
  have a: "counting i t (clear_action eh u)" if u: "nv_frame t u" for eh u
  proof -
    define v where "v = flush_persistent TPM_RH_ENDORSEMENT (flush_hierarchy TPM_RH_ENDORSEMENT
      (flush_persistent TPM_RH_OWNER (flush_hierarchy TPM_RH_OWNER
        (volatile_mut (vo_clear_update (\<lambda>c. c\<lparr>sh_enable := True, eh_enable := True\<rparr>))
          (permanent_mut (pm_hierarchies_update (\<lambda>h. h\<lparr>eh_proof := eh, owner_auth := [], endorsement_auth := [],
                lockout_auth := [], owner_policy := policy_default, endorsement_policy := policy_default,
                lockout_policy := policy_default\<rparr>)) u)))))"
    have "nv_frame t v" using u unfolding v_def by (intro nv_frame_flush nv_frame_volatile nv_frame_permanent) simp_all
    then have v: "counting i t v" "vo_started (t_volatile v)"
      using counting_frame [OF _ ok c] st by (auto simp: nv_frame_def)
    then have f: "counting i v (nv_flush_owner v)"
      unfolding nv_flush_owner_def by (intro counting_delete_fold) (simp_all add: counting_def nv_pending_def)
    have "nv_frame (nv_flush_owner v) (clear_action eh u)"
      unfolding clear_action_def Let_def v_def [symmetric]
      by (intro nv_frame_clear_orderly nv_frame_volatile nv_frame_permanent nv_frame_refl) simp_all
    with counting_trans [OF v(1) f] show ?thesis by (rule counting_frame_trans)
  qed
  have p: "nv_frame t (permanent_mut (pm_hierarchies_update (sh_proof_update (\<lambda>_. sh))) (permanent_mut (pm_sps_update (\<lambda>_. sps)) t))"
    "nv_frame t (permanent_mut (pm_sps_update (\<lambda>_. sps)) t)" for sh sps
    by (intro nv_frame_permanent nv_frame_refl; simp)+
  show ?thesis
    using a [OF p(1)] counting_frame [OF p(1) ok c] counting_frame [OF p(2) ok c] counting_refl [OF ok c]
    by (auto simp: tpm_clear_def attempt_def draw_def Let_def split: sum.split option.split)
qed

lemma counting_shutdown:
  assumes ok: "nv_ok t" and c: "counters_ok t" and st: "vo_started (t_volatile t)"
  shows "counting i t (snd (shutdown_command r t))"
proof -
  define u where "u = nv_store_orderly (volatile_mut (vo_da_used_update (\<lambda>_. False)) t)"
  let ?t = "volatile_mut (vo_da_used_update (\<lambda>_. False)) t"
  have f: "nv_frame t ?t" by (rule nv_frame_volatile) simp_all
  have okt: "nv_ok ?t" using counting_frame [OF f ok c] by (simp add: counting_def)
  note s = nv_store_orderly_facts [OF okt, folded u_def] and l = nv_store_orderly_ok [OF okt, folded u_def]
  have stu: "vo_started (t_volatile u)" using nv_rest_started [OF s(3)] st by simp
  have "counting i t (permanent_mut (\<lambda>p. p\<lparr>pm_shutdown_time := n p, pm_shutdown := x p\<rparr>) u)" for n x
  proof -
    let ?v = "permanent_mut (\<lambda>p. p\<lparr>pm_shutdown_time := n p, pm_shutdown := x p\<rparr>) u"
    have "nv_ok ?v" using nv_ok_same [OF l(1) okt] by (simp add: nv_ok_def)
    moreover have "counters_ok ?v" unfolding counters_ok_def
      using counters_at_store [OF okt, of "nv_exact ?v"] counters_at_cong [of ?v u] u_def by simp
    moreover have "nv_live i ?v = nv_live i t"
      using l(2) nv_live_frame [of ?v u i] nv_live_frame [of ?t t i] by simp
    then have "nv_floor i ?v = nv_floor i t"
      by (rule nv_floor_cong) (use s(5) st stu in \<open>simp_all add: nv_pending_def\<close>)
    ultimately show ?thesis by (simp add: counting_def)
  qed
  then show ?thesis using counting_refl [OF ok c]
    unfolding shutdown_command_def attempt_def Let_def u_def [symmetric] by (auto split: sum.split)
qed

section \<open>Startup\<close>

lemma startup_attributes_counter:
  assumes "kind_of a = Some Counter"
  shows "startup_attributes kind a AND WRITTEN = a AND WRITTEN"
proof -
  have *: "NOT READLOCKED AND WRITTEN = WRITTEN" "NOT WRITELOCKED AND WRITTEN = WRITTEN"
    by (simp_all add: nv_attr_defs)
  have k: "kind_of (a AND NOT READLOCKED) = Some Counter"
    using assms kind_of_agree [of "a AND NOT READLOCKED" a] agree_clear(1) [of READLOCKED a a] by simp
  show ?thesis by (simp add: startup_attributes_def Let_def k and.assoc *)
qed

lemma be_u64_splice:
  "length d \<ge> 8 \<Longrightarrow> be_u64 (splice d 0 (to_be_bytes v)) = v"
  by (simp add: be_u64_def slice_to_def splice_def)

lemma startup_ram_counter:
  assumes "kind_of (or_attributes r) = Some Counter" and "length (or_data r) = 8"
  shows "or_attributes (startup_ram kind orderly r) AND WRITTEN = or_attributes r AND WRITTEN"
    and "be_u64 (or_data (startup_ram kind orderly r))
      = (if orderly then be_u64 (or_data r) else be_u64 (or_data r) OR MAX_ORDERLY_COUNT)"
proof -
  show "or_attributes (startup_ram kind orderly r) AND WRITTEN = or_attributes r AND WRITTEN"
    using startup_attributes_counter [OF assms(1)] by simp
  have "agree (or_attributes r) (startup_attributes kind (or_attributes r))"
    using startup_ram_facts(2) [of r kind orderly] by (simp add: same_ram_def)
  then have "kind_of (startup_attributes kind (or_attributes r)) = Some Counter" using kind_of_agree assms(1) by metis
  then show "be_u64 (or_data (startup_ram kind orderly r))
      = (if orderly then be_u64 (or_data r) else be_u64 (or_data r) OR MAX_ORDERLY_COUNT)"
    using assms(2) by (simp add: startup_ram_def Let_def be_u64_splice)
qed

text \<open>What the RAM copy of an index is after a start, from its stored entry.\<close>

definition started_ram :: "startup \<Rightarrow> bool \<Rightarrow> nv_index \<Rightarrow> orderly_ram" where
  "started_ram kind orderly e = (if kind = Resume then ram_image e else startup_ram kind orderly (ram_image e))"

definition started_entry :: "startup \<Rightarrow> nv_index \<Rightarrow> nv_index" where
  "started_entry kind e = (if kind = Resume then e else startup_entry kind e)"

lemma nv_started_lookup:
  assumes "nv_ok t"
  shows "nv_entry j (nv_startup kind orderly t) = map_option (started_entry kind) (nv_entry j t)"
    and "orderly_ram_of j (nv_startup kind orderly t) = (case nv_entry j t of None \<Rightarrow> None
      | Some e \<Rightarrow> if np_has (ni_public e) ORDERLY then Some (started_ram kind orderly e) else None)"
proof -
  show "nv_entry j (nv_startup kind orderly t) = map_option (started_entry kind) (nv_entry j t)"
  proof (cases "kind = Resume")
    case True
    then show ?thesis unfolding True nv_resume_lookup(1) [OF assms] by (cases "nv_entry j t") (simp_all add: started_entry_def)
  next
    case False
    then show ?thesis unfolding nv_startup_lookup(1) [OF assms False] by (cases "nv_entry j t") (simp_all add: started_entry_def)
  qed
  show "orderly_ram_of j (nv_startup kind orderly t) = (case nv_entry j t of None \<Rightarrow> None
      | Some e \<Rightarrow> if np_has (ni_public e) ORDERLY then Some (started_ram kind orderly e) else None)"
  proof (cases "kind = Resume")
    case True
    then show ?thesis unfolding True nv_resume_lookup(2) [OF assms] by (cases "nv_entry j t") (simp_all add: started_ram_def)
  next
    case False
    then show ?thesis unfolding nv_startup_lookup(2) [OF assms False] by (cases "nv_entry j t") (simp_all add: started_ram_def)
  qed
qed

section \<open>The floor from the stored entries\<close>

definition entry_floor :: "bool \<Rightarrow> u64 \<Rightarrow> nv_index \<Rightarrow> u64" where
  "entry_floor pending m e =
     (if counter_written (np_attributes (ni_public e))
      then counter_value pending (np_attributes (ni_public e)) (ni_data e) else m)"

lemma nv_floor_absent: "nv_entry i t = None \<Longrightarrow> nv_floor i t = pm_nv_max_counter (t_permanent t)"
  by (simp add: nv_floor_def nv_live_def)

lemma nv_floor_exact:
  assumes ok: "nv_ok t" and c: "counters_at True t" and e: "nv_entry i t = Some e"
  shows "nv_floor i t = entry_floor (nv_pending t) (pm_nv_max_counter (t_permanent t)) e"
  using ok
proof (cases rule: nv_live_cases [where i = i])
  case absent
  then show ?thesis using e by simp
next
  case (stored e')
  then show ?thesis using e by (simp add: nv_floor_def entry_floor_def)
next
  case (orderly e' r)
  then have [simp]: "e' = e" using e by simp
  have k: "kind_of (or_attributes r) = kind_of (np_attributes (ni_public e))" using kind_of_agree [OF orderly(7)] by simp
  have "np_attributes (ni_public e) AND ORDERLY = or_attributes r AND ORDERLY" using agree_and [OF orderly(7), of ORDERLY] by simp
  moreover have "(or_attributes r AND WRITTEN \<noteq> 0 \<longleftrightarrow> np_attributes (ni_public e) AND WRITTEN \<noteq> 0)
      \<and> be_u64 (ni_data e) = be_u64 (or_data r)" if "kind_of (np_attributes (ni_public e)) = Some Counter"
    using c e orderly(3) that by (auto simp: counters_at_def counter_pair_def)
  ultimately show ?thesis using k orderly(4)
    by (auto simp: nv_floor_def entry_floor_def counter_written_def counter_value_def)
qed

lemma counter_entry_size:
  assumes "nv_ok t" and "nv_entry i t = Some e" and "kind_of (np_attributes (ni_public e)) = Some Counter"
  shows "length (ni_data e) = 8"
proof -
  have "nv_index_ok e" using assms(1,2) nv_entry_Some [OF assms(1)] by (auto simp: nv_ok_def nv_list_ok_def list_all_iff)
  then show ?thesis using size_fits_8 [of "ni_public e" Counter] assms(3) by (simp add: nv_index_ok_def np_kind_def)
qed

lemma started_ram_counter:
  assumes "kind_of (np_attributes (ni_public e)) = Some Counter" and "length (ni_data e) = 8" and "kind = Resume \<Longrightarrow> orderly"
  shows "or_attributes (started_ram kind orderly e) AND WRITTEN = np_attributes (ni_public e) AND WRITTEN"
    and "be_u64 (or_data (started_ram kind orderly e)) = (if orderly then be_u64 (ni_data e) else be_u64 (ni_data e) OR MAX_ORDERLY_COUNT)"
  using startup_ram_counter [of "ram_image e" kind orderly] assms
  by (cases "kind = Resume"; simp add: started_ram_def ram_image_def)+

lemma started_facts:
  "np_has (ni_public e) ORDERLY \<Longrightarrow> started_entry kind e = e"
  "agree (np_attributes (ni_public e)) (np_attributes (ni_public (started_entry kind e)))"
  "agree (np_attributes (ni_public e)) (or_attributes (started_ram kind orderly e))"
  "ni_data (started_entry kind e) = ni_data e"
proof -
  have "same_index e (started_entry kind e)" "same_ram (ram_image e) (started_ram kind orderly e)"
    using startup_ram_facts(2) [of "ram_image e" kind orderly] by (simp_all add: started_entry_def started_ram_def)
  then show "agree (np_attributes (ni_public e)) (np_attributes (ni_public (started_entry kind e)))"
    "agree (np_attributes (ni_public e)) (or_attributes (started_ram kind orderly e))"
    by (simp_all add: same_index_def same_ram_def ram_image_def)
  show "np_has (ni_public e) ORDERLY \<Longrightarrow> started_entry kind e = e" "ni_data (started_entry kind e) = ni_data e"
    by (simp_all add: started_entry_def startup_entry_def)
qed

text \<open>The start itself.\<close>

lemma startup_after_facts:
  fixes kind orderly
  assumes ok: "nv_ok t" and u: "nv_frame t u"
  defines "v \<equiv> startup_after kind orderly u"
  shows "nv_ok v" and "vo_started (t_volatile v)" and "\<not> is_orderly (pm_shutdown (t_permanent v))"
    and "pm_nv_max_counter (t_permanent v) = pm_nv_max_counter (t_permanent t)"
    and "nv_entry j v = map_option (started_entry kind) (nv_entry j t)"
    and "orderly_ram_of j v = (case nv_entry j t of None \<Rightarrow> None
      | Some e \<Rightarrow> if np_has (ni_public e) ORDERLY then Some (started_ram kind orderly e) else None)"
proof -
  let ?w = "nv_startup kind orderly u"
  have oku: "nv_ok u" using ok u by (simp add: nv_ok_def nv_frame_def)
  then have list: "nv_list_ok (t_nv u)" by (simp add: nv_ok_def)
  have nv: "t_nv v = t_nv ?w" "t_ram v = t_ram ?w" by (simp_all add: v_def startup_after_def Let_def)
  show "vo_started (t_volatile v)" "\<not> is_orderly (pm_shutdown (t_permanent v))"
    "pm_nv_max_counter (t_permanent v) = pm_nv_max_counter (t_permanent t)"
    using nv_startup_facts(4) [OF list, of kind orderly] u by (simp_all add: v_def startup_after_def Let_def nv_frame_def)
  show "nv_ok v" using nv_startup_facts(1) [OF list, of kind orderly] nv by (simp add: nv_ok_def)
  have e: "nv_entry j u = nv_entry j t" using u by (intro nv_lookup_cong) (simp add: nv_frame_def)
  note look = nv_started_lookup [OF oku, of j kind orderly, unfolded e]
  show "nv_entry j v = map_option (started_entry kind) (nv_entry j t)"
    using nv_lookup_cong(1) [OF nv(1), of j] look(1) by simp
  show "orderly_ram_of j v = (case nv_entry j t of None \<Rightarrow> None
      | Some e \<Rightarrow> if np_has (ni_public e) ORDERLY then Some (started_ram kind orderly e) else None)"
    unfolding nv_lookup_cong(2) [OF nv(2)] by (rule look(2))
qed

lemma started_live:
  assumes "nv_entry i v = Some (started_entry kind e)"
    and "orderly_ram_of i v = (if np_has (ni_public e) ORDERLY then Some (started_ram kind orderly e) else None)"
  shows "nv_live i v = Some (if np_has (ni_public e) ORDERLY
      then (or_attributes (started_ram kind orderly e), or_data (started_ram kind orderly e))
      else (np_attributes (ni_public (started_entry kind e)), ni_data e))"
proof (cases "np_has (ni_public e) ORDERLY")
  case True
  then show ?thesis using assms by (simp add: nv_live_def started_facts(1))
next
  case False
  have "\<not> np_has (ni_public (started_entry kind e)) ORDERLY"
    using False agree_and [OF started_facts(2), of ORDERLY e kind] by (simp add: np_has_def)
  then show ?thesis using False assms by (simp add: nv_live_def started_facts(4))
qed

lemma started_floor:
  assumes ok: "nv_ok t" and e: "nv_entry i t = Some e" and res: "kind = Resume \<Longrightarrow> orderly"
    and l: "nv_live i v = Some (if np_has (ni_public e) ORDERLY
      then (or_attributes (started_ram kind orderly e), or_data (started_ram kind orderly e))
      else (np_attributes (ni_public (started_entry kind e)), ni_data e))"
    and st: "vo_started (t_volatile v)"
  shows "nv_floor i v = entry_floor (\<not> orderly) (pm_nv_max_counter (t_permanent v)) e"
proof (cases "kind_of (np_attributes (ni_public e)) = Some Counter")
  case False
  then show ?thesis
    using l kind_of_agree [OF started_facts(2), of e kind] kind_of_agree [OF started_facts(3), of e kind orderly]
    by (auto simp: nv_floor_def entry_floor_def counter_written_def)
next
  case True
  note s = started_ram_counter [OF True counter_entry_size [OF ok e True] res]
  have w: "np_attributes (ni_public (started_entry kind e)) AND WRITTEN = np_attributes (ni_public e) AND WRITTEN"
    if "\<not> np_has (ni_public e) ORDERLY"
    using startup_attributes_counter [OF True, of kind] that by (simp add: started_entry_def startup_entry_def)
  have k: "kind_of (np_attributes (ni_public (started_entry kind e))) = Some Counter"
    "kind_of (or_attributes (started_ram kind orderly e)) = Some Counter"
    using True kind_of_agree [OF started_facts(2), of e kind] kind_of_agree [OF started_facts(3), of e kind orderly] by simp_all
  show ?thesis
  proof (cases "np_has (ni_public e) ORDERLY")
    case o: True
    then show ?thesis using nv_floor_started [OF l [unfolded if_P [OF o]] st] True s k(2)
      by (simp add: entry_floor_def counter_written_def counter_value_def np_has_def)
  next
    case o: False
    then show ?thesis using nv_floor_started [OF l [unfolded if_not_P [OF o]] st] True w k(1)
      by (simp add: entry_floor_def counter_written_def counter_value_def np_has_def)
  qed
qed

lemma counting_startup_after:
  assumes ok: "nv_ok t" and c: "counters_ok t" and st: "\<not> vo_started (t_volatile t)" and u: "nv_frame t u"
    and o: "orderly = is_orderly (pm_shutdown (t_permanent t))" and res: "kind = Resume \<Longrightarrow> orderly"
  shows "counting i t (startup_after kind orderly u)"
proof -
  let ?v = "startup_after kind orderly u"
  note v = startup_after_facts [OF ok u, where kind = kind and orderly = orderly]
  have at: "counters_at True t" using c st by (simp add: counters_ok_def nv_exact_def)
  have "counter_pair False e' r" if e': "nv_entry j ?v = Some e'" and r: "orderly_ram_of j ?v = Some r"
    and k: "kind_of (np_attributes (ni_public e')) = Some Counter" for j e' r
  proof -
    from r obtain e where e: "nv_entry j t = Some e" "np_has (ni_public e) ORDERLY" "r = started_ram kind orderly e"
      unfolding v(6) by (auto split: option.splits if_splits)
    have [simp]: "e' = e" using e' started_facts(1) [OF e(2)] unfolding v(5) e(1) by simp
    have k': "kind_of (np_attributes (ni_public e)) = Some Counter" using k by simp
    show ?thesis using started_ram_counter [OF k' counter_entry_size [OF ok e(1) k'] res] close_or [of "be_u64 (ni_data e)"] e(3)
      by (simp add: counter_pair_def MAX_ORDERLY_COUNT_eq)
  qed
  then have "counters_ok ?v" using v(2,3) by (simp add: counters_ok_def nv_exact_def counters_at_def)
  moreover have "nv_floor i t \<le> nv_floor i ?v"
  proof (cases "nv_entry i t")
    case None
    then have "nv_entry i ?v = None" unfolding v(5) by simp
    then show ?thesis using None v(4) by (simp add: nv_floor_absent)
  next
    case (Some e)
    have "nv_floor i t = entry_floor (\<not> orderly) (pm_nv_max_counter (t_permanent t)) e"
      using nv_floor_exact [OF ok at Some] st o by (simp add: nv_pending_def)
    moreover have "nv_entry i ?v = Some (started_entry kind e)"
      "orderly_ram_of i ?v = (if np_has (ni_public e) ORDERLY then Some (started_ram kind orderly e) else None)"
      unfolding v(5,6) Some by simp_all
    ultimately show ?thesis using started_floor [OF ok Some res started_live v(2), where kind = kind] v(4) by simp
  qed
  ultimately show ?thesis using v(1) by (simp add: counting_def)
qed

lemma startup_before_frame: "nv_frame t (startup_before now kind t)"
proof -
  have a: "nv_frame t (if b then permanent_mut (pm_time_epoch_update f) u else u)"
    and b: "nv_frame t (if b then permanent_mut (pm_clock_safe_update g) u else u)"
    and c: "nv_frame t (volatile_mut (vo_time_reset_update k) u)"
    and d: "nv_frame t (volatile_mut (\<lambda>v. v\<lparr>vo_ph_enable := True, vo_clear := x, vo_pcrs := y v, vo_pcr_reconfig := False\<rparr>) u)"
    if "nv_frame t u" for b f g k x y u
    using that by (simp_all add: nv_frame_permanent nv_frame_volatile)
  show ?thesis unfolding startup_before_def Let_def
    by (intro b d nv_frame_da(1) a c nv_frame_update_time nv_frame_refl)
qed

lemma startup_reset_data_frame:
  assumes "nv_frame s t"
  shows "nv_frame s (snd (startup_reset_data s1 s2 kind saved t))"
  unfolding startup_reset_data_def Let_def
  by (cases "if kind = Reset then None else saved")
    (use assms in \<open>auto simp: draw_def nv_frame_permanent nv_frame_volatile split: option.split\<close>)

lemma counting_startup:
  assumes ok: "nv_ok t" and c: "counters_ok t" and st: "\<not> vo_started (t_volatile t)"
  shows "counting i t (snd (startup_command now s1 s2 r t))"
proof -
  let ?s = "saved_state (pm_shutdown (t_permanent t))"
  have "counting i t (snd (case startup_reset_data s1 s2 kind (map_option sa_reset ?s) (startup_before now kind t) of
      (Inl e, t) \<Rightarrow> (Inl e, t) | (Inr z, u) \<Rightarrow> (Inr [], startup_after kind (is_orderly (pm_shutdown (t_permanent t))) u)))"
    if k: "startup_kind state ?s = Inr kind" for kind state
  proof -
    have res: "is_orderly (pm_shutdown (t_permanent t))" if "kind = Resume"
      using k that by (cases "pm_shutdown (t_permanent t)") (auto simp: startup_kind_def saved_state_def split: if_splits)
    obtain x u where u: "startup_reset_data s1 s2 kind (map_option sa_reset ?s) (startup_before now kind t) = (x, u)" by fastforce
    have f: "nv_frame t u" using startup_reset_data_frame [OF startup_before_frame, of t s1 s2 kind] u by (metis snd_conv)
    show ?thesis using counting_frame [OF f ok c] counting_startup_after [OF ok c st f refl res] u by (cases x) simp_all
  qed
  then show ?thesis using counting_refl [OF ok c]
    unfolding startup_command_def attempt_def Let_def by (auto simp: sum_bind_eq_Inr split: sum.split)
qed

section \<open>Losing power\<close>

lemma floor_below:
  assumes ok: "nv_ok t" and c: "counters_ok t" and e: "nv_entry i t = Some e" and st: "vo_started (t_volatile t)"
  shows "nv_floor i t \<le> entry_floor True (pm_nv_max_counter (t_permanent t)) e"
  using ok
proof (cases rule: nv_live_cases [where i = i])
  case absent
  then show ?thesis using e by simp
next
  case (stored e')
  then show ?thesis using e nv_floor_started [OF stored(4) st] le_or_byte
    by (auto simp: entry_floor_def counter_value_def MAX_ORDERLY_COUNT_eq)
next
  case (orderly e' r)
  have [simp]: "e' = e" using orderly(1) e by simp
  have k: "kind_of (or_attributes r) = kind_of (np_attributes (ni_public e))" using kind_of_agree [OF orderly(7)] by simp
  have "(or_attributes r AND WRITTEN \<noteq> 0 \<longleftrightarrow> np_attributes (ni_public e) AND WRITTEN \<noteq> 0)
      \<and> close (be_u64 (ni_data e)) (be_u64 (or_data r))" if "kind_of (np_attributes (ni_public e)) = Some Counter"
    using c e orderly(3) that counters_at_weaken [of "nv_exact t" t False]
    by (auto simp: counters_ok_def counters_at_def counter_pair_def)
  then show ?thesis using k orderly(2) nv_floor_started [OF orderly(4) st] close_le_or
    by (auto simp: entry_floor_def counter_written_def counter_value_def MAX_ORDERLY_COUNT_eq np_has_def)
qed

lemma power_on_counters:
  assumes "nv_list_ok (pm_nv p)"
  shows "counters_at True (tpm_power_on p)"
proof -
  let ?v = "tpm_power_on p :: ('a, 'b, 'c) tpm"
  have ok: "nv_ok ?v" using assms by (rule nv_power_on_ok)
  have r: "orderly_ram_of j ?v = (case nv_entry j ?v of None \<Rightarrow> None
      | Some e \<Rightarrow> if np_has (ni_public e) ORDERLY then Some (ram_image e) else None)" for j
    using find_images [OF nv_ok_distinct(1) [OF ok], of j] nv_entry_find [OF ok, of j]
    by (simp add: orderly_ram_of_def tpm_power_on_def volatile_power_on_def)
  show ?thesis unfolding counters_at_def r
    by (auto simp: counter_pair_def ram_image_def split: option.splits if_splits)
qed

lemma counting_power_on:
  fixes t :: "('x, 'q, 's) tpm"
  assumes ok: "nv_ok t" and c: "counters_ok t" and p: "unclocked p = unclocked (t_permanent t)"
  shows "counting i t (tpm_power_on p)"
proof -
  let ?v = "tpm_power_on p :: ('x, 'q, 's) tpm"
  have f: "pm_nv p = t_nv t" "pm_shutdown p = pm_shutdown (t_permanent t)" "pm_nv_max_counter p = pm_nv_max_counter (t_permanent t)"
    using p [THEN arg_cong, of pm_nv] p [THEN arg_cong, of pm_shutdown] p [THEN arg_cong, of pm_nv_max_counter]
    by (simp_all add: unclocked_def)
  have okv: "nv_ok ?v" using ok f(1) by (intro nv_power_on_ok) (simp add: nv_ok_def)
  have e: "nv_entry j ?v = nv_entry j t" for j by (rule nv_lookup_cong) (simp add: tpm_power_on_def f)
  have at: "counters_at True ?v" using ok f(1) by (intro power_on_counters) (simp add: nv_ok_def)
  then have cv: "counters_ok ?v" unfolding counters_ok_def by (rule counters_at_weaken) simp
  have pend: "nv_pending ?v \<longleftrightarrow> \<not> is_orderly (pm_shutdown (t_permanent t))"
    by (simp add: nv_pending_def tpm_power_on_def volatile_power_on_def f)
  have m: "pm_nv_max_counter (t_permanent ?v) = pm_nv_max_counter (t_permanent t)" by (simp add: tpm_power_on_def f)
  have "nv_floor i t \<le> nv_floor i ?v"
  proof (cases "nv_entry i t")
    case None
    then show ?thesis using e m by (simp add: nv_floor_absent)
  next
    case (Some x)
    have v: "nv_floor i ?v = entry_floor (nv_pending ?v) (pm_nv_max_counter (t_permanent t)) x"
      using nv_floor_exact [OF okv at, of i x] Some e m by simp
    show ?thesis
    proof (cases "nv_exact t")
      case True
      then have "counters_at True t" using c by (simp add: counters_ok_def)
      from nv_floor_exact [OF ok this Some] v pend show ?thesis
        by (auto simp: entry_floor_def nv_pending_def intro!: counter_value_mono)
    next
      case False
      then show ?thesis using floor_below [OF ok c Some] v pend by (simp add: nv_exact_def)
    qed
  qed
  with okv cv show ?thesis by (simp add: counting_def)
qed

section \<open>Provisioning\<close>

lemma counters_at_insert:
  assumes "nv_ok t" and "nv_ok (insert_index e t)" and "nv_entry (ni_index e) t = None" and "counters_at b t"
  shows "counters_at b (insert_index e t)"
proof -
  have "ni_index e \<notin> set (map ni_index (t_nv t))"
  proof
    assume "ni_index e \<in> set (map ni_index (t_nv t))"
    then obtain x where "x \<in> set (t_nv t)" "ni_index x = ni_index e" by auto
    then show False using assms(3) nv_entry_Some [OF assms(1), of "ni_index e" x] by simp
  qed
  then have n: "nv_entry j (insert_index e t) = (if j = ni_index e then Some e else nv_entry j t)" for j
    unfolding nv_entry_find [OF assms(1)] nv_entry_find [OF assms(2)]
    using find_insert_key [of ni_index e "t_nv t" j] by (simp add: insert_index_def list_insert_partition)
  have r: "orderly_ram_of j (insert_index e t) = orderly_ram_of j t" for j
    by (rule nv_lookup_cong) (simp add: insert_index_def)
  show ?thesis using assms(4) ram_without_entry [OF assms(1,3)] unfolding counters_at_def n r by auto
qed

lemma counting_provision_index:
  assumes ok: "nv_ok t" and c: "counters_ok t" and p: "nv_public_ok public" and f: "size_fits public"
    and r: "nv_provision public d t = (x, t')" and i: "i \<noteq> np_index public"
  shows "counting i t t'"
proof (cases "t' = t")
  case True
  then show ?thesis using counting_refl [OF ok c] by simp
next
  case False
  let ?u = "nv_delete (np_index public) t" and ?e = "\<lparr>ni_public = public, ni_auth = [], ni_data = d\<rparr>"
  from nv_provision_effect [OF ok p f r] False have eff: "nv_ok t'" "nv_live i t' = nv_live i t"
    using i by (simp_all add: nv_effect_def)
  have t': "t' = insert_index ?e ?u" using r False by (auto simp: nv_provision_def Let_def split: if_splits)
  have cu: "counting i t ?u" using counting_delete [OF ok c] i by simp
  then have u: "nv_ok ?u" "counters_ok ?u" by (simp_all add: counting_def)
  have "nv_live (np_index public) ?u = None" using nv_delete_facts(2) [OF ok] by simp
  then have gone: "nv_entry (ni_index ?e) ?u = None" using nv_public_of_None [OF u(1), of "np_index public"] by simp
  have s: "nv_exact t' = nv_exact ?u" "nv_pending t' = nv_pending ?u"
    "pm_nv_max_counter (t_permanent t') = pm_nv_max_counter (t_permanent ?u)"
    by (simp_all add: t' insert_index_def nv_exact_def nv_pending_def)
  have "counters_ok t'" using counters_at_insert [OF u(1) _ gone] u(2) eff(1) s(1) t' by (simp add: counters_ok_def)
  moreover have "nv_floor i t' = nv_floor i ?u"
    by (rule nv_floor_cong) (use eff(2) nv_delete_facts(2) [OF ok, of i] i s in simp_all)
  ultimately show ?thesis using cu eff(1) by (simp add: counting_def)
qed

lemma counting_provision:
  assumes ok: "nv_ok t" and c: "counters_ok t" and r: "provision_endorsement_key ek kind cert t = (x, t')"
    and i: "i \<noteq> certificate_index kind"
  shows "counting i t t'"
proof -
  have d: "counting i t (nv_delete (certificate_index kind) t)" using counting_delete [OF ok c] i by simp
  have p: "counting i t u" if "u16_try_from (length der) = Some n" "length der \<le> MAX_NV_INDEX_SIZE"
    "nv_provision (certificate_public kind n) der t = (y, u)" for der n y u
  proof (rule counting_provision_index [OF ok c certificate_public_ok(1,2) that(3)])
    show "length der = unat n" "length der = unat n" "length der \<le> MAX_NV_INDEX_SIZE" "length der \<le> MAX_NV_INDEX_SIZE"
      using that(1,2) by (simp_all add: u16_try_from_eq_Some)
  qed (use i in \<open>simp add: certificate_public_def\<close>)
  have f: "counting i t (permanent_mut (pm_persistent_update g) u)" if "counting i t u" for g u
    using that by (rule counting_frame_trans) (simp add: nv_frame_permanent)
  have "counting i t (snd (provision_endorsement_key ek kind cert t))"
    unfolding provision_endorsement_key_def attempt_def Let_def
    by (auto intro!: f d counting_refl [OF ok c] split: prod.split sum.split option.split) (meson p not_less)+
  then show ?thesis using r by simp
qed

section \<open>The machine\<close>

lemma begin_command_frame: "nv_frame t (begin_command now t)"
  by (simp add: begin_command_def nv_frame_self_heal nv_frame_update_time)

lemma nv_floor_frame:
  assumes "nv_frame t u" and "vo_started (t_volatile t)"
  shows "nv_floor i u = nv_floor i t"
  by (rule nv_floor_cong) (use assms nv_live_frame [of u t i] in \<open>simp_all add: nv_frame_def nv_pending_def\<close>)

lemma counting_execute:
  assumes ok: "nv_ok t" and c: "counters_ok t"
    and top: "\<And>auth. auth_and_index hs = Inr (auth, i) \<Longrightarrow> nv_floor i t \<noteq> - 1" and x: "execute D h k hs r t = (x, t')"
  shows "counting i t t'"
proof (cases "(k = Basic StartupCommand) \<noteq> (\<not> vo_started (t_volatile t))")
  case True
  then show ?thesis using x counting_refl [OF ok c] by (simp add: execute_def)
next
  case False
  let ?u = "begin_command (h_now h) t"
  have f: "nv_frame t ?u" by (rule begin_command_frame)
  have cu: "counting i t ?u" by (rule counting_frame [OF f ok c])
  then have oku: "nv_ok ?u" and ccu: "counters_ok ?u" by (simp_all add: counting_def)
  have r: "run D h k hs r ?u = (x, t')" using x False by (simp add: execute_def)
  have "counting i ?u t'"
  proof (cases "vo_started (t_volatile t)")
    case st: True
    have stu: "vo_started (t_volatile ?u)" using f st by (simp add: nv_frame_def)
    have topu: "nv_floor i ?u \<noteq> - 1" if "auth_and_index hs = Inr (auth, i)" for auth
      using top [OF that] nv_floor_frame [OF f st] by simp
    show ?thesis
    proof (cases k)
      case (Nv n)
      then show ?thesis using run_nv_counting [OF oku ccu stu topu] r by simp
    next
      case (Hierarchy n)
      have "t' = snd (run_hierarchy h n hs r ?u)" using r Hierarchy by simp
      then show ?thesis using counting_clear [OF oku ccu stu] counting_frame [OF run_hierarchy_frame oku ccu]
        by (cases "n = Clear") simp_all
    next
      case (Basic n)
      then have "n \<noteq> StartupCommand" using False st by auto
      moreover have "t' = snd (run_basic D h n hs r ?u)" using r Basic by simp
      ultimately show ?thesis using counting_shutdown [OF oku ccu stu] counting_frame [OF run_basic_frame oku ccu]
        by (cases "n = ShutdownCommand") simp_all
    qed
  next
    case st: False
    then have "k = Basic StartupCommand" "\<not> vo_started (t_volatile ?u)" using False f by (auto simp: nv_frame_def)
    then show ?thesis using counting_startup [OF oku ccu, of i "h_now h" "h_seed1 h" "h_seed2 h" r] r by simp
  qed
  with cu show ?thesis by (rule counting_trans)
qed

lemma counting_internal:
  assumes "internal D t t'" and "nv_ok t" and "counters_ok t" and i: "i \<notin> range certificate_index"
  shows "counting i t t'"
  using assms(1-3)
proof (induction rule: internal.induct)
  case (time t now)
  show ?case by (rule counting_frame [OF begin_command_frame time(2,3)])
next
  case (locked_out lockout t x t')
  then show ?case using counting_frame [OF nv_frame_da(2) [OF nv_frame_refl, of t lockout], of i] by simp
next
  case (failure t lockout)
  show ?case by (rule counting_frame [OF nv_frame_da(3) [OF nv_frame_refl] failure])
next
  case (pin_use index success t x t')
  then show ?case by (intro counting_pin)
next
  case (sequence handle t pcr u digests)
  then have "nv_frame t u" using nv_frame_pcr_to_extend [of t t handle] by simp
  then show ?case by (intro counting_frame nv_frame_extend sequence)
next
  case (session ss t os audit k n)
  then show ?case by (intro counting_frame) (simp_all add: session_work_def nv_frame_volatile)
next
  case (persistent ks t)
  then show ?case by (intro counting_frame) (simp_all add: nv_frame_permanent)
next
  case (void t)
  then show ?case by (intro counting_frame nv_frame_clear_orderly nv_frame_refl)
next
  case (provision ek kind certificate t x t')
  then show ?case using i by (intro counting_provision) auto
qed

text \<open>A TPM in which counters can be relied on, and its steps.\<close>

definition machine_counts :: "('x, 'q, 's) machine \<Rightarrow> bool" where
  "machine_counts m \<longleftrightarrow> machine_ok m \<and> counters_ok (m_tpm m)"

lemma settle_frame: "nv_frame t (m_tpm (settle t p))"
  by (simp add: settle_def take_permanent_changed_def nv_frame_def voids_def)

lemma counting_settle: "counting i t u \<Longrightarrow> counting i t (m_tpm (settle u p))"
  by (rule counting_frame_trans [OF _ settle_frame])

lemma counting_step:
  assumes m: "machine_counts m" and s: "tpm_step D m m'" and i: "i \<notin> range certificate_index"
    and top: "nv_floor i (m_tpm m) \<noteq> - 1"
  shows "counting i (m_tpm m) (m_tpm m')"
proof -
  have ok: "nv_ok (m_tpm m)" and c: "counters_ok (m_tpm m)" and st: "stored_ok m"
    using m tpm_ok_nv by (auto simp: machine_counts_def machine_ok_def)
  show ?thesis using s
  proof (cases rule: tpm_step.cases)
    case (command h k hs r x t)
    show ?thesis unfolding command(1) by (rule counting_settle [OF counting_execute [OF ok c top command(3)]])
  next
    case (internal t)
    show ?thesis unfolding internal(1) by (rule counting_settle [OF counting_internal [OF internal(2) ok c i]])
  next
    case power_cycle
    then show ?thesis using counting_power_on [OF ok c] st by (simp add: stored_ok_def)
  qed
qed

text \<open>The invariant holds whatever the counters are: pick an index that nothing names.\<close>

lemma counters_step:
  assumes m: "machine_counts m" and s: "tpm_step D m m'"
  shows "counters_ok (m_tpm m')"
proof -
  have ok: "nv_ok (m_tpm m)" and c: "counters_ok (m_tpm m)" and st: "stored_ok m"
    using m tpm_ok_nv by (auto simp: machine_counts_def machine_ok_def)
  have "certificate_index k \<noteq> 0" for k by (cases k) simp_all
  then have z: "(0 :: u32) \<notin> range certificate_index" by (metis imageE)
  show ?thesis using s
  proof (cases rule: tpm_step.cases)
    case (command h k hs r x t)
    obtain i :: u32 where "\<And>auth. auth_and_index hs \<noteq> Inr (auth, i)"
    proof (cases "auth_and_index hs")
      case (Inr y)
      have "snd y \<noteq> 0 \<or> snd y \<noteq> 1" by simp
      then obtain i where "snd y \<noteq> i" by blast
      then show ?thesis using Inr that [of i] by force
    qed (use that in simp)
    then have "counting i (m_tpm m) t" using counting_execute [OF ok c _ command(3), of i] by blast
    then have "counting i (m_tpm m) (m_tpm m')" unfolding command(1) by (rule counting_settle)
    then show ?thesis by (simp add: counting_def)
  next
    case (internal t)
    from counting_settle [OF counting_internal [OF internal(2) ok c z], of "m_stored m"] internal(1)
    show ?thesis by (simp add: counting_def)
  next
    case power_cycle
    then show ?thesis using counting_power_on [OF ok c, of "m_stored m" 0] st by (simp add: stored_ok_def counting_def)
  qed
qed

interpretation counters: machine_invariant "\<lambda>m. digest_ok D \<and> (\<exists>p. permanent_ok p \<and> m = machine_start p)"
  "\<lambda>m m'. digest_ok D \<and> tpm_step D m m'" machine_counts for D
proof
  fix m :: "('a, 'b, 'c) machine"
  assume "digest_ok D \<and> (\<exists>p. permanent_ok p \<and> m = machine_start p)"
  then obtain p where p: "permanent_ok p" "m = machine_start p" by blast
  have "counters_at True (m_tpm m)" unfolding p(2) machine_start_def
    using power_on_counters [of p] p(1) by (simp add: permanent_ok_def)
  then have "counters_ok (m_tpm m)" unfolding counters_ok_def by (rule counters_at_weaken) simp
  then show "machine_counts m" using machine_start_ok [OF p(1)] p(2) by (simp add: machine_counts_def)
next
  fix m m' :: "('a, 'b, 'c) machine"
  assume "machine_counts m" "digest_ok D \<and> tpm_step D m m'"
  then show "machine_counts m'"
    using machine_ok_step [of D m m'] counters_step [of m D m'] by (simp add: machine_counts_def)
qed

end
