(* ===== verification/Tpm_Measure.thy ===== *)
theory Tpm_Measure
  imports Tpm_Invariant
begin

text \<open>
  Measured boot. From one Startup to the next, PCRs 0 to 15 only move by extension: whatever commands are
  sent, the value of such a register is the hash chain of its earlier value and some digests. Nothing
  resets it, and the digests extended last cannot be undone.
\<close>

definition pcr_value :: "hash \<Rightarrow> nat \<Rightarrow> ('x, 'q, 's) tpm \<Rightarrow> bytes option" where
  "pcr_value h pcr t = bank_value (vo_pcrs (t_volatile t)) h pcr"

definition extend_all :: "digest_fun \<Rightarrow> hash \<Rightarrow> bytes \<Rightarrow> bytes list \<Rightarrow> bytes" where
  "extend_all D h v ds = foldl (\<lambda>v d. hash_digest D h [v, d]) v ds"

definition measured :: "digest_fun \<Rightarrow> ('x, 'q, 's) tpm \<Rightarrow> ('x, 'q, 's) tpm \<Rightarrow> bool" where
  "measured D t t' \<longleftrightarrow> (\<forall>h pcr v. pcr < 16 \<longrightarrow> pcr_value h pcr t = Some v \<longrightarrow>
     (\<exists>ds. pcr_value h pcr t' = Some (extend_all D h v ds)))"

lemma measured_refl: "measured D t t"
  unfolding measured_def extend_all_def by (auto intro: exI [of _ "[]"])

lemma measured_trans:
  assumes "measured D t u" and "measured D u v"
  shows "measured D t v"
  unfolding measured_def
proof (intro allI impI)
  fix h pcr x assume p: "pcr < 16" "pcr_value h pcr t = Some x"
  from assms(1) p obtain ds where "pcr_value h pcr u = Some (extend_all D h x ds)" unfolding measured_def by blast
  with assms(2) p(1) obtain es where "pcr_value h pcr v = Some (extend_all D h (extend_all D h x ds) es)"
    unfolding measured_def by blast
  then show "\<exists>ds. pcr_value h pcr v = Some (extend_all D h x ds)"
    unfolding extend_all_def foldl_append [symmetric] by blast
qed

section \<open>Commands that leave the registers\<close>

definition pcr_frame :: "('x, 'q, 's) tpm \<Rightarrow> ('x, 'q, 's) tpm \<Rightarrow> bool" where
  "pcr_frame t t' \<longleftrightarrow> p_banks (vo_pcrs (t_volatile t')) = p_banks (vo_pcrs (t_volatile t))"

lemma measured_frame: "pcr_frame t t' \<Longrightarrow> measured D t t'"
  using measured_refl [of D t] by (simp add: measured_def pcr_frame_def pcr_value_def bank_value_def)

lemma pcr_frame_trans: "pcr_frame t u \<Longrightarrow> pcr_frame u v \<Longrightarrow> pcr_frame t v"
  by (simp add: pcr_frame_def)

named_theorems pcr_rules \<open>operations that leave the registers\<close>

lemma pcr_frame_refl [pcr_rules]: "pcr_frame t t"
  by (simp add: pcr_frame_def)

lemma pcr_frame_attempt [pcr_rules]:
  "pcr_frame s t \<Longrightarrow> (\<And>x. m = Inr x \<Longrightarrow> pcr_frame s (snd (k x t))) \<Longrightarrow> pcr_frame s (snd (attempt m k t))"
  by (simp add: attempt_def split: sum.split)

lemma pcr_frame_draw [pcr_rules]:
  "pcr_frame s t \<Longrightarrow> (\<And>x. pcr_frame s (snd (k x t))) \<Longrightarrow> pcr_frame s (snd (draw m k t))"
  by (simp add: draw_def split: option.split)

lemma pcr_frame_permanent [pcr_rules]:
  "pcr_frame s t \<Longrightarrow> pcr_frame s (permanent_mut f t)" "pcr_frame s t \<Longrightarrow> pcr_frame s (untracked_mut f t)"
  "pcr_frame s t \<Longrightarrow> pcr_frame s (clear_orderly t)"
  by (simp_all add: pcr_frame_def)

lemma pcr_frame_volatile [pcr_rules]:
  assumes "pcr_frame s t" and "\<And>v. p_banks (vo_pcrs (f v)) = p_banks (vo_pcrs v)"
  shows "pcr_frame s (volatile_mut f t)"
  using assms by (simp add: pcr_frame_def)

lemma pcr_frame_rest:
  assumes "nv_rest t' = nv_rest t"
  shows "pcr_frame t t'"
  using assms by (cases "t_volatile t'"; cases "t_volatile t") (simp add: nv_rest_def pcr_frame_def)

lemma pcr_frame_time: "pcr_frame s t \<Longrightarrow> pcr_frame s (update_time now t)"
  by (simp add: update_time_def Let_def pcr_frame_def)

lemma pcr_frame_self_heal [pcr_rules]:
  assumes "pcr_frame s t"
  shows "pcr_frame s (da_self_heal t)"
proof -
  have "pcr_frame s (if da \<noteq> x then permanent_mut (pm_da_update (\<lambda>_. da)) (volatile_mut (vo_da_timers_update (\<lambda>_. timers)) t)
      else volatile_mut (vo_da_timers_update (\<lambda>_. timers)) t)" for da x timers
    using assms by (simp add: pcr_frame_permanent pcr_frame_volatile)
  then show ?thesis unfolding da_self_heal_def by (simp add: Let_def case_prod_beta)
qed

lemma pcr_frame_da [pcr_rules]:
  assumes "pcr_frame s t"
  shows "pcr_frame s (snd (check_locked_out lockout t))" and "pcr_frame s (da_failure lockout t)"
    and "pcr_frame s (flush_hierarchy h t)" and "pcr_frame s (flush_persistent h t)"
  using assms
  by (simp_all add: check_locked_out_def da_failure_def flush_hierarchy_def flush_persistent_def Let_def
      pcr_frame_permanent pcr_frame_volatile)

lemma pcr_frame_hierarchy_set [pcr_rules]: "pcr_frame s t \<Longrightarrow> pcr_frame s (volatile_mut (hierarchy_set e b) t)"
  by (rule pcr_frame_volatile) (simp_all add: hierarchy_set_def)

lemma pcr_frame_clear_action:
  assumes ok: "nv_ok t"
  shows "pcr_frame t (clear_action eh t)"
proof -
  define v where "v = flush_persistent TPM_RH_ENDORSEMENT (flush_hierarchy TPM_RH_ENDORSEMENT
      (flush_persistent TPM_RH_OWNER (flush_hierarchy TPM_RH_OWNER
        (volatile_mut (vo_clear_update (\<lambda>c. c\<lparr>sh_enable := True, eh_enable := True\<rparr>))
          (permanent_mut (pm_hierarchies_update (\<lambda>h. h\<lparr>eh_proof := eh, owner_auth := [], endorsement_auth := [],
                lockout_auth := [], owner_policy := policy_default, endorsement_policy := policy_default,
                lockout_policy := policy_default\<rparr>)) t)))))"
  have "nv_ok v" using ok by (simp add: v_def nv_ok_def flush_persistent_def flush_hierarchy_def)
  then have "pcr_frame v (nv_flush_owner v)" by (rule pcr_frame_rest [OF nv_flush_owner_facts(3)])
  moreover have "pcr_frame t v" by (simp add: v_def pcr_frame_permanent pcr_frame_volatile pcr_frame_da pcr_frame_refl)
  moreover have "pcr_frame (nv_flush_owner v) (clear_action eh t)"
    unfolding clear_action_def Let_def v_def [symmetric]
    by (simp add: pcr_frame_permanent pcr_frame_volatile pcr_frame_refl)
  ultimately show ?thesis using pcr_frame_trans by blast
qed

lemma run_hierarchy_pcrs:
  assumes ok: "nv_ok t"
  shows "pcr_frame t (snd (run_hierarchy h c hs r t))"
proof (cases c)
  case Clear
  have "nv_ok (permanent_mut (pm_hierarchies_update f) (permanent_mut (pm_sps_update g) t))" for f g
    using ok by (simp add: nv_ok_def)
  from pcr_frame_clear_action [OF this] show ?thesis
    unfolding Clear by (auto simp: tpm_clear_def attempt_def draw_def Let_def pcr_frame_def split: sum.split option.split)
next
  case HierarchyControl
  then show ?thesis unfolding HierarchyControl run_hierarchy.simps hierarchy_control_def Let_def by (auto intro!: pcr_rules)
next
  case ChangeEps
  then show ?thesis unfolding ChangeEps run_hierarchy.simps change_eps_def Let_def by (auto intro!: pcr_rules)
next
  case ChangePps
  then show ?thesis unfolding ChangePps run_hierarchy.simps change_pps_def Let_def by (auto intro!: pcr_rules)
next
  case HierarchyChangeAuth
  then show ?thesis unfolding HierarchyChangeAuth run_hierarchy.simps hierarchy_change_auth_def by (auto intro!: pcr_rules)
next
  case SetPrimaryPolicy
  then show ?thesis unfolding SetPrimaryPolicy run_hierarchy.simps set_primary_policy_def by (auto intro!: pcr_rules)
next
  case ClearControl
  then show ?thesis unfolding ClearControl run_hierarchy.simps clear_control_def by (auto intro!: pcr_rules)
qed (auto simp: dictionary_attack_lock_reset_def dictionary_attack_parameters_def intro!: pcr_rules)

lemma provision_pcrs:
  assumes nv: "nv_ok t"
  shows "pcr_frame t (snd (provision_endorsement_key ek kind cert t))"
proof -
  have d: "pcr_frame t (nv_delete i t)" for i by (rule pcr_frame_rest [OF nv_delete_facts(3) [OF nv]])
  have p: "pcr_frame t u" if n: "u16_try_from (length der) = Some n" and l: "length der \<le> MAX_NV_INDEX_SIZE"
    and u: "nv_provision (certificate_public kind n) der t = (x, u)" for der n x u
  proof -
    have "length der = unat n" using n by (simp add: u16_try_from_eq_Some)
    from nv_provision_effect [OF nv certificate_public_ok(1,2) [OF this l] u] show ?thesis
      by (auto simp: nv_effect_def intro: pcr_frame_rest pcr_frame_refl)
  qed
  show ?thesis unfolding provision_endorsement_key_def Let_def
    by (auto intro!: pcr_rules d split: prod.split sum.split option.split) (meson p not_less)+
qed

section \<open>Extending and resetting\<close>

lemma measured_extend_one:
  assumes "pcrs_ok (vo_pcrs (t_volatile t))"
  shows "measured D t (volatile_mut (\<lambda>v. v\<lparr>vo_pcrs := pcrs_extend D (vo_allocation v) pcr h d (vo_pcrs v)\<rparr>) t)"
  unfolding measured_def
proof (intro allI impI)
  fix g q v assume "pcr_value g q t = Some v"
  then have "pcr_value g q (volatile_mut (\<lambda>v. v\<lparr>vo_pcrs := pcrs_extend D (vo_allocation v) pcr h d (vo_pcrs v)\<rparr>) t)
      = Some (extend_all D g v (if g = h \<and> q = pcr \<and> is_allocated (vo_allocation (t_volatile t)) h pcr then [d] else []))"
    by (auto simp: pcr_value_def bank_value_extend [OF assms] extend_all_def)
  then show "\<exists>ds. pcr_value g q (volatile_mut (\<lambda>v. v\<lparr>vo_pcrs := pcrs_extend D (vo_allocation v) pcr h d (vo_pcrs v)\<rparr>) t)
      = Some (extend_all D g v ds)" by blast
qed

lemma measured_extend:
  assumes D: "digest_ok D" and "pcrs_ok (vo_pcrs (t_volatile t))"
  shows "measured D t (tpm_extend D pcr ds t)"
  using assms(2) unfolding tpm_extend_def
proof (induction ds arbitrary: t)
  case (Cons x ds)
  obtain h d where x: "x = (h, d)" by force
  let ?u = "volatile_mut (\<lambda>v. v\<lparr>vo_pcrs := pcrs_extend D (vo_allocation v) pcr h d (vo_pcrs v)\<rparr>) t"
  have "pcrs_ok (vo_pcrs (t_volatile ?u))" using pcrs_extend_ok [OF D Cons.prems] by simp
  from measured_trans [OF measured_extend_one [OF Cons.prems] Cons.IH [OF this]] show ?case unfolding x by simp
qed (simp add: measured_refl)

lemma may_reset_dynamic: "may_reset pcr LOCALITY \<Longrightarrow> 16 \<le> pcr"
  by (auto simp: may_reset_def pcr_attributes_eq static_rtm_def split: if_splits)

lemma measured_reset:
  assumes "pcrs_ok (vo_pcrs (t_volatile t))" and "16 \<le> pcr"
  shows "measured D t (volatile_mut (\<lambda>v. v\<lparr>vo_pcrs := pcrs_reset (vo_allocation v) pcr (vo_pcrs v)\<rparr>) t)"
proof -
  have "pcr_value h q (volatile_mut (\<lambda>v. v\<lparr>vo_pcrs := pcrs_reset (vo_allocation v) pcr (vo_pcrs v)\<rparr>) t) = pcr_value h q t"
    if "q < 16" for h q
    using that assms(2) by (simp add: pcr_value_def bank_value_reset [OF assms(1)])
  then show ?thesis using measured_refl [of D t] by (simp add: measured_def)
qed

lemma pcr_frame_to_extend: "pcr_frame t (snd (pcr_to_extend handle t))"
  unfolding pcr_to_extend_def Let_def by (simp add: pcr_frame_permanent pcr_frame_refl)

lemma pcrs_ok_frame: "pcr_frame t u \<Longrightarrow> pcrs_ok (vo_pcrs (t_volatile t)) \<Longrightarrow> pcrs_ok (vo_pcrs (t_volatile u))"
  by (simp add: pcr_frame_def pcrs_ok_def)

lemma measured_to_extend:
  assumes D: "digest_ok D" and ok: "pcrs_ok (vo_pcrs (t_volatile t))" and e: "pcr_to_extend handle t = (x, u)"
  shows "measured D t u" and "measured D t (tpm_extend D pcr ds u)"
proof -
  have f: "pcr_frame t u" using pcr_frame_to_extend [of t handle] e by simp
  then show m: "measured D t u" by (rule measured_frame)
  show "measured D t (tpm_extend D pcr ds u)"
    by (rule measured_trans [OF m measured_extend [OF D pcrs_ok_frame [OF f ok]]])
qed

lemma run_basic_measured:
  assumes D: "digest_ok D" and ok: "pcrs_ok (vo_pcrs (t_volatile t))" and c: "c \<noteq> StartupCommand" and nv: "nv_ok t"
    and r: "run_basic D h c hs r t = (x, t')"
  shows "measured D t t'"
proof (cases c)
  case PcrExtend
  then show ?thesis using r measured_refl [of D t]
    by (auto simp: pcr_extend_def attempt_def split: sum.splits option.splits prod.splits dest: measured_to_extend [OF D ok])
next
  case PcrEvent
  then show ?thesis using r measured_refl [of D t]
    by (auto simp: pcr_event_def attempt_def Let_def split: sum.splits option.splits prod.splits dest: measured_to_extend [OF D ok])
next
  case PcrReset
  have "measured D t (volatile_mut (\<lambda>v. v\<lparr>vo_pcrs := pcrs_reset (vo_allocation v) pcr (vo_pcrs v)\<rparr>)
      (if is_state_saved pcr then clear_orderly t else t))" if "may_reset pcr LOCALITY" for pcr
  proof -
    have f: "pcr_frame t (if is_state_saved pcr then clear_orderly t else t)" by (simp add: pcr_frame_permanent pcr_frame_refl)
    show ?thesis
      by (rule measured_trans [OF measured_frame [OF f] measured_reset [OF pcrs_ok_frame [OF f ok] may_reset_dynamic [OF that]]])
  qed
  then show ?thesis using r PcrReset measured_refl [of D t]
    by (auto simp: pcr_reset_def attempt_def Let_def sum_bind_eq_Inr split: sum.splits)
next
  case PcrAllocate
  have "pcr_frame t (snd (pcr_allocate r t))" unfolding pcr_allocate_def Let_def by (auto intro!: pcr_rules)
  then show ?thesis using r PcrAllocate measured_frame by simp
next
  case ShutdownCommand
  have "pcr_frame t (nv_store_orderly (volatile_mut (vo_da_used_update (\<lambda>_. False)) t))"
  proof (rule pcr_frame_trans)
    show "pcr_frame t (volatile_mut (vo_da_used_update (\<lambda>_. False)) t)" by (simp add: pcr_frame_volatile pcr_frame_refl)
    show "pcr_frame (volatile_mut (vo_da_used_update (\<lambda>_. False)) t) (nv_store_orderly (volatile_mut (vo_da_used_update (\<lambda>_. False)) t))"
      using nv by (intro pcr_frame_rest nv_store_orderly_facts) (simp add: nv_ok_def)
  qed
  then have "pcr_frame t (snd (shutdown_command r t))"
    unfolding shutdown_command_def Let_def by (auto intro!: pcr_frame_attempt pcr_frame_permanent pcr_frame_refl)
  then show ?thesis using r ShutdownCommand measured_frame by simp
qed (use r c measured_refl in auto)

section \<open>Every step while the TPM is powered\<close>

lemma pcr_frame_begin: "pcr_frame t (begin_command now t)"
  by (simp add: begin_command_def pcr_frame_self_heal pcr_frame_time pcr_frame_refl)

lemma nv_ok_begin: "nv_ok t \<Longrightarrow> nv_ok (begin_command now t)"
  by (simp add: begin_command_def da_self_heal_def update_time_def Let_def case_prod_beta nv_ok_def)

lemma measured_execute:
  assumes D: "digest_ok D" and ok: "tpm_ok t" and st: "vo_started (t_volatile t)" and e: "execute D h c hs r t = (x, t')"
  shows "measured D t t'"
proof (cases "c = Basic StartupCommand")
  case True
  then show ?thesis using e st measured_refl [of D t] by (simp add: execute_def)
next
  case False
  let ?u = "begin_command (h_now h) t"
  have u: "measured D t ?u" by (rule measured_frame [OF pcr_frame_begin])
  have p: "pcrs_ok (vo_pcrs (t_volatile ?u))"
    by (rule pcrs_ok_frame [OF pcr_frame_begin]) (use ok in \<open>simp add: tpm_ok_def volatile_ok_def\<close>)
  have nv: "nv_ok ?u" by (rule nv_ok_begin [OF tpm_ok_nv [OF ok]])
  have r: "run D h c hs r ?u = (x, t')" using e st False by (simp add: execute_def)
  have "measured D ?u t'"
  proof (cases c)
    case (Nv n)
    then have "nv_rest t' = nv_rest ?u" using run_nv_effect [OF D nv] r by (simp add: nv_effect_def)
    then show ?thesis by (rule measured_frame [OF pcr_frame_rest])
  next
    case (Hierarchy n)
    then show ?thesis using measured_frame [OF run_hierarchy_pcrs [OF nv, of h n hs r]] r by simp
  next
    case (Basic n)
    then show ?thesis using run_basic_measured [OF D p _ nv] r False by simp
  qed
  with u show ?thesis by (rule measured_trans)
qed

lemma measured_internal:
  assumes D: "digest_ok D" and "internal D t t'" and "tpm_ok t"
  shows "measured D t t'"
  using assms(2,3)
proof (induction rule: internal.induct)
  case (locked_out lockout t x t')
  then show ?case using measured_frame [OF pcr_frame_da(1) [OF pcr_frame_refl, of t lockout]] by simp
next
  case (pin_use index success t x t')
  note nv = tpm_ok_nv [OF pin_use(2)]
  have "nv_rest t' = nv_rest t" using nv_pin_effect [OF nv pin_use(1)] by (auto simp: nv_updates_def)
  then show ?case by (rule measured_frame [OF pcr_frame_rest])
next
  case (sequence handle t pcr u digests)
  then show ?case by (intro measured_to_extend(2) [OF D]) (simp_all add: tpm_ok_def volatile_ok_def)
next
  case (provision ek kind certificate t x t')
  then show ?case using measured_frame [OF provision_pcrs [OF tpm_ok_nv [OF provision(2)], of ek kind certificate]] by simp
qed (auto intro!: measured_frame simp: session_work_def pcr_frame_begin pcr_frame_da pcr_frame_permanent pcr_frame_volatile pcr_frame_refl)

text \<open>The machine stays powered: every state on the way has been started.\<close>

definition powered :: "digest_fun \<Rightarrow> ('x, 'q, 's) machine \<Rightarrow> ('x, 'q, 's) machine \<Rightarrow> bool" where
  "powered D m m' \<longleftrightarrow> tpm_step D m m' \<and> vo_started (t_volatile (m_tpm m'))"

lemma measured_step:
  assumes D: "digest_ok D" and m: "machine_ok m" and st: "vo_started (t_volatile (m_tpm m))" and s: "powered D m m'"
  shows "measured D (m_tpm m) (m_tpm m')"
proof -
  have ok: "tpm_ok (m_tpm m)" using m by (simp add: machine_ok_def)
  have settle: "measured D t (m_tpm (settle t p))" for t p
    by (rule measured_frame) (simp add: settle_def take_permanent_changed_def pcr_frame_def)
  have step: "tpm_step D m m'" using s by (simp add: powered_def)
  then show ?thesis
  proof (cases rule: tpm_step.cases)
    case (command h c hs r x t)
    show ?thesis unfolding command(1) by (rule measured_trans [OF measured_execute [OF D ok st command(3)] settle])
  next
    case (internal t)
    show ?thesis unfolding internal(1) by (rule measured_trans [OF measured_internal [OF D internal(2) ok] settle])
  next
    case power_cycle
    then show ?thesis using s by (simp add: powered_def tpm_power_on_def volatile_power_on_def)
  qed
qed

lemma measured_run:
  assumes D: "digest_ok D" and m: "machine_ok m" and st: "vo_started (t_volatile (m_tpm m))" and s: "(powered D)\<^sup>*\<^sup>* m m'"
  shows "measured D (m_tpm m) (m_tpm m')"
proof -
  have "machine_ok m' \<and> vo_started (t_volatile (m_tpm m')) \<and> measured D (m_tpm m) (m_tpm m')" using s
  proof (induction rule: rtranclp_induct)
    case base
    show ?case using m st measured_refl by blast
  next
    case (step a b)
    have a: "machine_ok a" "vo_started (t_volatile (m_tpm a))" "measured D (m_tpm m) (m_tpm a)" using step.IH by simp_all
    have b: "tpm_step D a b" "vo_started (t_volatile (m_tpm b))" using step.hyps(2) by (simp_all add: powered_def)
    show ?case
      using machine_ok_step [OF D a(1) b(1)] b(2) measured_trans [OF a(3) measured_step [OF D a(1,2) step.hyps(2)]] by simp
  qed
  then show ?thesis by blast
qed

end
