(* ===== verification/Tpm_Example.thy ===== *)
theory Tpm_Example
  imports Tpm_Monotone Tpm_Measure
begin

text \<open>
  A concrete TPM for the properties to be seen at work: a digest that reverses its input, seeds of equal
  bytes, a host with a clock and a random source, and a manufactured permanent state in which an orderly
  counter, an ordinary index, a bit field and a PIN index are defined.
\<close>

definition ex_digest :: digest_fun where
  "ex_digest h b = take (hash_size h) (rev b @ replicate (hash_size h) 0)"

definition ex_seed :: seed where "ex_seed = replicate SEED_SIZE 7"

definition ex_host :: host where
  "ex_host = \<lparr>h_now = 1000, h_seed1 = Some ex_seed, h_seed2 = Some ex_seed, h_seed3 = Some ex_seed,
     h_random = (\<lambda>n. Some (replicate n 5))\<rparr>"

definition ex_index :: "u32 \<Rightarrow> u32 \<Rightarrow> bytes \<Rightarrow> nv_index" where
  "ex_index i a d = \<lparr>ni_public = \<lparr>np_index = i, np_name_alg = Sha256, np_attributes = a, np_auth_policy = [],
     np_data_size = word_of_nat (length d)\<rparr>, ni_auth = [], ni_data = d\<rparr>"

text \<open>The indices and their attributes: an orderly counter, an ordinary index that can be locked for good, and
  a bit field, which the owner and their own authorization may read and write; a PIN index used once of
  three times.\<close>

definition ex_counter :: u32 where "ex_counter = 0x01000001"
definition ex_data :: u32 where "ex_data = 0x01000002"
definition ex_bits :: u32 where "ex_bits = 0x01000003"
definition ex_pin :: u32 where "ex_pin = 0x01000004"

lemmas ex_indices = ex_counter_def ex_data_def ex_bits_def ex_pin_def

definition ex_nv :: "nv_index list" where
  "ex_nv =
     [ex_index ex_counter 0x04060016 (replicate 8 0),
      ex_index ex_data 0x00062006 [0, 0, 0, 0],
      ex_index ex_bits 0x00060026 (replicate 8 0),
      ex_index ex_pin 0x22020092 [0, 0, 0, 1, 0, 0, 0, 3]]"

definition ex_permanent :: "unit permanent" where
  "ex_permanent = (case permanent_manufacture (Some ex_seed) (Some ex_seed) (Some ex_seed) (Some ex_seed) (Some ex_seed) (Some ex_seed) of
     Inr p \<Rightarrow> p\<lparr>pm_nv := ex_nv\<rparr>)"

type_synonym ex_machine = "(unit, unit, unit) machine"

definition ex_start :: ex_machine where "ex_start = machine_start ex_permanent"

definition ex_command :: "command \<Rightarrow> u32 list \<Rightarrow> bytes \<Rightarrow> ex_machine \<Rightarrow> ex_machine" where
  "ex_command c hs r m = settle (snd (execute ex_digest ex_host c hs r (m_tpm m))) (m_stored m)"

definition ex_up :: ex_machine where
  "ex_up = ex_command (Basic StartupCommand) [] [0, 0] ex_start"

definition ex_increment :: "ex_machine \<Rightarrow> ex_machine" where
  "ex_increment = ex_command (Nv NvIncrement) [TPM_RH_OWNER, ex_counter] []"

lemma ex_digest_ok: "digest_ok ex_digest"
  by (simp add: digest_ok_def ex_digest_def min_def)

lemma ex_host_ok: "host_ok ex_host"
  by (simp add: host_ok_def ex_host_def ex_seed_def SEED_SIZE_def)

text \<open>The state can be stored, and the TPM powered on from it.\<close>

lemmas ex_nv_simps = ex_index_def nv_index_ok_def nv_public_ok_def size_fits_def np_kind_def np_size_def np_has_def
  kind_of_def is_nv_index_def nv_attr_defs TPM_NT_SHIFT_def TPM_NT_def NV_RESERVED_def NV_INDEX_FIRST_def NV_INDEX_LAST_def
  MAX_NV_INDEX_SIZE_def MAX_DIGEST_def

lemma ex_index_ok:
  "nv_index_ok (ex_index ex_counter 0x04060016 (replicate 8 0))" "nv_index_ok (ex_index ex_data 0x00062006 [0, 0, 0, 0])"
  "nv_index_ok (ex_index ex_bits 0x00060026 (replicate 8 0))" "nv_index_ok (ex_index ex_pin 0x22020092 [0, 0, 0, 1, 0, 0, 0, 3])"
  by (simp_all add: ex_indices ex_nv_simps)

lemma ex_nv_ok: "nv_list_ok ex_nv"
proof -
  have "nv_used ex_nv \<le> NV_INDEX_SPACE" "ram_used ex_nv \<le> RAM_INDEX_SPACE"
    by (simp_all add: ex_nv_def nv_used_def ram_used_def ni_cost_def ex_nv_simps saturating_add_def NV_INDEX_SPACE_def
        RAM_INDEX_SPACE_def INDEX_COST_def RAM_HEADER_def usize_max_def)
  moreover have "sorted_wrt (<) (map ni_index ex_nv)" by (simp add: ex_nv_def ex_index_def ex_indices)
  ultimately show ?thesis using ex_index_ok by (simp add: nv_list_ok_def ex_nv_def)
qed

lemma ex_permanent_eq:
  "permanent_manufacture (Some ex_seed) (Some ex_seed) (Some ex_seed) (Some ex_seed) (Some ex_seed) (Some ex_seed) = Inr p
     \<Longrightarrow> ex_permanent = p\<lparr>pm_nv := ex_nv\<rparr>"
  by (simp add: ex_permanent_def)

lemma ex_permanent_ok: "permanent_ok ex_permanent"
proof -
  obtain p :: "unit permanent" where
    p: "permanent_manufacture (Some ex_seed) (Some ex_seed) (Some ex_seed) (Some ex_seed) (Some ex_seed) (Some ex_seed) = Inr p"
    by (simp add: permanent_manufacture_def hierarchies_manufacture_def new_seed_def)
  have "permanent_ok p" by (rule permanent_manufacture_ok [OF p]) (simp add: ex_seed_def)
  then show ?thesis using ex_nv_ok by (simp add: ex_permanent_eq [OF p] permanent_ok_def)
qed

lemma ex_reachable: "tpm_reachable D ex_permanent ex_start"
  by (simp add: tpm_reachable_def ex_start_def)

section \<open>The TPM started\<close>

lemma ex_step: "tpm_step ex_digest m (ex_command c hs r m)"
  unfolding ex_command_def by (rule tpm_step.command [OF ex_host_ok]) (rule prod.collapse [symmetric])

lemma ex_start_facts:
  "t_nv (m_tpm ex_start) = ex_nv" "\<not> vo_started (t_volatile (m_tpm ex_start))"
  "pm_shutdown (t_permanent (m_tpm ex_start)) = Shutdown_Clear" "pm_nv_max_counter (t_permanent (m_tpm ex_start)) = 0"
  by (simp_all add: ex_start_def machine_start_def tpm_power_on_def volatile_power_on_def ex_permanent_def
      permanent_manufacture_def hierarchies_manufacture_def new_seed_def)

lemma ex_start_ok: "nv_ok (m_tpm ex_start)"
  using ex_nv_ok by (simp add: ex_start_def machine_start_def nv_power_on_ok ex_permanent_def permanent_manufacture_def
      hierarchies_manufacture_def new_seed_def)

lemma ex_startup:
  obtains u where "nv_frame (m_tpm ex_start) u"
    "execute ex_digest ex_host (Basic StartupCommand) [] [0, 0] (m_tpm ex_start) = (Inr [], startup_after Reset True u)"
proof -
  let ?t = "m_tpm ex_start"
  have p: "rd_run (rd_bind (rd_map_err (rc_param 1) read_su) rd_end) [0, 0] = Inr False"
    by code_simp
  obtain x u where u: "startup_reset_data (h_seed1 ex_host) (h_seed2 ex_host) Reset None (startup_before (h_now ex_host) Reset ?t) = (x, u)"
    by fastforce
  have x: "x = Inr ()" using u by (auto simp: startup_reset_data_def draw_def ex_host_def Let_def)
  have "nv_frame ?t u" using startup_reset_data_frame [OF startup_before_frame, of ?t "h_seed1 ex_host" "h_seed2 ex_host" Reset None "h_now ex_host" Reset] u
    by simp
  moreover have "execute ex_digest ex_host (Basic StartupCommand) [] [0, 0] ?t = (Inr [], startup_after Reset True u)"
    using u x p ex_start_facts(2,3)
    by (simp add: execute_def begin_command_def startup_command_def attempt_def saved_state_def startup_kind_def)
  ultimately show ?thesis by (rule that)
qed

lemma ex_up_facts:
  "nv_ok (m_tpm ex_up)" "vo_started (t_volatile (m_tpm ex_up))"
  "nv_entry j (m_tpm ex_up) = map_option (started_entry Reset) (find (\<lambda>e. ni_index e = j) ex_nv)"
  "orderly_ram_of j (m_tpm ex_up) = (case find (\<lambda>e. ni_index e = j) ex_nv of None \<Rightarrow> None
     | Some e \<Rightarrow> if np_has (ni_public e) ORDERLY then Some (started_ram Reset True e) else None)"
  "pm_nv_max_counter (t_permanent (m_tpm ex_up)) = 0"
proof -
  from ex_startup obtain u where u: "nv_frame (m_tpm ex_start) u"
    "execute ex_digest ex_host (Basic StartupCommand) [] [0, 0] (m_tpm ex_start) = (Inr [], startup_after Reset True u)" .
  note f = startup_after_facts [OF ex_start_ok u(1), where kind = Reset and orderly = True]
  have s: "nv_frame (startup_after Reset True u) (m_tpm ex_up)"
    using settle_frame [of "startup_after Reset True u" "m_stored ex_start"] u(2) by (simp add: ex_up_def ex_command_def)
  have e: "nv_entry j (m_tpm ex_start) = find (\<lambda>e. ni_index e = j) ex_nv"
    using nv_entry_find [OF ex_start_ok] ex_start_facts(1) by simp
  show "nv_ok (m_tpm ex_up)" "vo_started (t_volatile (m_tpm ex_up))" using s f(1,2) by (simp_all add: nv_frame_def nv_ok_def)
  show "nv_entry j (m_tpm ex_up) = map_option (started_entry Reset) (find (\<lambda>e. ni_index e = j) ex_nv)"
    using nv_lookup_cong(1) [of "m_tpm ex_up" "startup_after Reset True u" j] s f(5) e by (simp add: nv_frame_def)
  show "orderly_ram_of j (m_tpm ex_up) = (case find (\<lambda>e. ni_index e = j) ex_nv of None \<Rightarrow> None
     | Some e \<Rightarrow> if np_has (ni_public e) ORDERLY then Some (started_ram Reset True e) else None)"
    using nv_lookup_cong(2) [of "m_tpm ex_up" "startup_after Reset True u" j] s f(6) e by (simp add: nv_frame_def)
  show "pm_nv_max_counter (t_permanent (m_tpm ex_up)) = 0" using s f(4) ex_start_facts(4) by (simp add: nv_frame_def)
qed

lemma ex_up_reachable: "tpm_reachable ex_digest ex_permanent ex_up"
  unfolding tpm_reachable_def ex_up_def ex_start_def [symmetric] using ex_step [of ex_start "Basic StartupCommand" "[]" "[0, 0]"] by simp

text \<open>The indices once it is started.\<close>

lemma ex_live:
  "nv_live ex_counter (m_tpm ex_up) = Some (0x04060016, replicate 8 0)"
  "nv_live ex_data (m_tpm ex_up) = Some (0x00062006, [0, 0, 0, 0])"
  "nv_live ex_bits (m_tpm ex_up) = Some (0x00060026, replicate 8 0)"
  "nv_live ex_pin (m_tpm ex_up) = Some (0x22020092, [0, 0, 0, 1, 0, 0, 0, 3])"
  unfolding nv_live_def ex_up_facts(3,4)
  by (simp_all add: ex_nv_def ex_indices ex_index_def started_entry_def startup_entry_def started_ram_def startup_ram_def
      ram_image_def startup_attributes_def np_has_def kind_of_def nv_attr_defs TPM_NT_SHIFT_def TPM_NT_def)

end
