(* ===== verification/Tpm_Boot.thy ===== *)
theory Tpm_Boot
  imports Tpm_Measure Tpm_Monotone
begin

text \<open>
  What a Startup leaves: the registers, which of them are allocated and the hierarchies' state, as a function
  of what the TPM was powered on with and of what the last shutdown saved.
\<close>

definition boot_view :: "('x, 'q, 's) tpm \<Rightarrow> pcrs \<times> selection list \<times> bool \<times> clear_state" where
  "boot_view t = (vo_pcrs (t_volatile t), vo_allocation (t_volatile t), vo_pcr_reconfig (t_volatile t), vo_clear (t_volatile t))"

lemma boot_view_simps [simp]:
  "boot_view (permanent_mut f t) = boot_view t" "boot_view (volatile_mut (vo_da_timers_update g) t) = boot_view t"
  "boot_view (volatile_mut (vo_sessions_update k) t) = boot_view t" "boot_view (volatile_mut (vo_time_reset_update l) t) = boot_view t"
  "boot_view (volatile_mut (vo_null_proof_update n) t) = boot_view t" "boot_view (volatile_mut (vo_da_used_update n') t) = boot_view t"
  by (simp_all add: boot_view_def)

lemma boot_view_time [simp]: "boot_view (update_time now t) = boot_view t"
  by (simp add: update_time_def boot_view_def Let_def)

lemma boot_view_da [simp]: "boot_view (da_self_heal t) = boot_view t" "boot_view (da_startup b c d t) = boot_view t"
proof -
  show h: "boot_view (da_self_heal t) = boot_view t" for t :: "('a, 'b, 'c) tpm"
    by (simp add: da_self_heal_def Let_def case_prod_beta)
  show "boot_view (da_startup b c d t) = boot_view t" by (simp add: da_startup_def Let_def h)
qed

lemma allocation_kept [simp]:
  "pm_allocation (t_permanent (update_time now t)) = pm_allocation (t_permanent t)"
  "pm_allocation (t_permanent (da_self_heal t)) = pm_allocation (t_permanent t)"
  "pm_allocation (t_permanent (da_startup b c d t)) = pm_allocation (t_permanent t)"
proof -
  show "pm_allocation (t_permanent (update_time now t)) = pm_allocation (t_permanent t)"
    by (simp add: update_time_def Let_def)
  show h: "pm_allocation (t_permanent (da_self_heal t)) = pm_allocation (t_permanent t)" for t :: "('a, 'b, 'c) tpm"
    by (simp add: da_self_heal_def Let_def case_prod_beta)
  show "pm_allocation (t_permanent (da_startup b c d t)) = pm_allocation (t_permanent t)" by (simp add: da_startup_def Let_def h)
qed

lemma allocation_rest: "nv_rest t' = nv_rest t \<Longrightarrow> pm_allocation (t_permanent t') = pm_allocation (t_permanent t)"
  by (cases "t_permanent t'"; cases "t_permanent t") (simp add: nv_rest_def)

lemma boot_view_rest: "nv_rest t' = nv_rest t \<Longrightarrow> boot_view t' = boot_view t"
  by (cases "t_volatile t'"; cases "t_volatile t") (simp add: nv_rest_def boot_view_def)

lemma boot_view_reset_data:
  "boot_view (snd (startup_reset_data s1 s2 kind saved t)) = boot_view t"
  "pm_allocation (t_permanent (snd (startup_reset_data s1 s2 kind saved t))) = pm_allocation (t_permanent t)"
  by (auto simp: startup_reset_data_def draw_def boot_view_def Let_def split: option.split)

lemma boot_view_after:
  assumes "nv_list_ok (t_nv t)"
  shows "boot_view (startup_after kind orderly t) = boot_view t"
    and "pm_allocation (t_permanent (startup_after kind orderly t)) = pm_allocation (t_permanent t)"
  using boot_view_rest [OF nv_startup_facts(2) [OF assms, of kind orderly]]
    allocation_rest [OF nv_startup_facts(2) [OF assms, of kind orderly]]
  by (simp_all add: startup_after_def boot_view_def Let_def)

text \<open>What the registers and the hierarchies are before anything is extended.\<close>

definition booted :: "startup \<Rightarrow> ('x, 'q, 's) tpm \<Rightarrow> pcrs \<times> selection list \<times> bool \<times> clear_state" where
  "booted kind t = (let saved = saved_state (pm_shutdown (t_permanent t)) in
     (pcrs_startup (vo_allocation (t_volatile t)) kind (map_option sa_pcrs saved) (vo_pcrs (t_volatile t)),
      vo_allocation (t_volatile t), False,
      case saved of Some d \<Rightarrow> if kind = Resume then sa_clear d else clear_state_default | None \<Rightarrow> clear_state_default))"

lemma startup_before_form:
  fixes now kind and t :: "('x, 'q, 's) tpm"
  defines "prev \<equiv> pm_shutdown (t_permanent t)"
  defines "c \<equiv> (case saved_state prev of Some d \<Rightarrow> if kind = Resume then sa_clear d else clear_state_default
    | None \<Rightarrow> clear_state_default)"
  defines "w \<equiv> volatile_mut (vo_time_reset_update (\<lambda>_. False)) (update_time now t)"
  defines "u \<equiv> da_startup (is_orderly prev) (vo_time_reset (t_volatile (update_time now t))) (prev = DaUsed)
    (if vo_time_reset (t_volatile (update_time now t)) then permanent_mut (pm_time_epoch_update (\<lambda>e. e + 1)) w else w)"
  defines "v \<equiv> volatile_mut (\<lambda>v. v\<lparr>vo_ph_enable := True, vo_clear := c, vo_pcrs := pcrs_startup (vo_allocation v) kind
    (map_option sa_pcrs (saved_state prev)) (vo_pcrs v), vo_pcr_reconfig := False\<rparr>) u"
  shows "startup_before now kind t = (if \<not> is_orderly prev then permanent_mut (pm_clock_safe_update (\<lambda>_. False)) v else v)"
    and "boot_view v = booted kind t" and "pm_allocation (t_permanent v) = pm_allocation (t_permanent t)"
proof -
  show "startup_before now kind t = (if \<not> is_orderly prev then permanent_mut (pm_clock_safe_update (\<lambda>_. False)) v else v)"
    unfolding startup_before_def Let_def w_def u_def v_def c_def prev_def by (rule refl)
  have "boot_view u = boot_view t" by (simp add: u_def w_def)
  then show "boot_view v = booted kind t" by (simp add: boot_view_def v_def booted_def Let_def c_def prev_def)
  show "pm_allocation (t_permanent v) = pm_allocation (t_permanent t)" by (simp add: v_def u_def w_def)
qed

lemma boot_view_before:
  "boot_view (startup_before now kind t) = booted kind t"
  "pm_allocation (t_permanent (startup_before now kind t)) = pm_allocation (t_permanent t)"
proof -
  note f = startup_before_form [where now = now and kind = kind and t = t]
  show "boot_view (startup_before now kind t) = booted kind t"
    unfolding f(1) if_distrib [of boot_view] boot_view_simps(1) f(2) by simp
  show "pm_allocation (t_permanent (startup_before now kind t)) = pm_allocation (t_permanent t)"
    unfolding f(1) if_distrib [of t_permanent] if_distrib [of pm_allocation] using f(3) by simp
qed

lemma startup_effect:
  assumes ok: "nv_ok t" and c: "execute D h (Basic StartupCommand) hs r t = (Inr ys, t')"
  obtains state kind where "rd_run (rd_bind (rd_map_err (rc_param 1) read_su) rd_end) r = Inr state"
    "startup_kind state (saved_state (pm_shutdown (t_permanent t))) = Inr kind" "boot_view t' = booted kind t"
    "vo_started (t_volatile t')" "pm_allocation (t_permanent t') = pm_allocation (t_permanent t)"
proof -
  let ?saved = "saved_state (pm_shutdown (t_permanent t))"
  have ns: "\<not> vo_started (t_volatile t)" and s: "startup_command (h_now h) (h_seed1 h) (h_seed2 h) r t = (Inr ys, t')"
    using c by (auto simp: execute_def begin_command_def split: if_splits)
  then obtain state kind u where k: "rd_run (rd_bind (rd_map_err (rc_param 1) read_su) rd_end) r = Inr state"
    "startup_kind state ?saved = Inr kind"
    "startup_reset_data (h_seed1 h) (h_seed2 h) kind (map_option sa_reset ?saved) (startup_before (h_now h) kind t) = (Inr (), u)"
    "t' = startup_after kind (is_orderly (pm_shutdown (t_permanent t))) u"
    by (auto simp: startup_command_def attempt_def Let_def sum_bind_eq_Inr split: sum.splits prod.splits)
  let ?b = "startup_before (h_now h) kind t"
  have b: "boot_view u = booted kind t" "pm_allocation (t_permanent u) = pm_allocation (t_permanent t)"
    using boot_view_reset_data [of "h_seed1 h" "h_seed2 h" kind "map_option sa_reset ?saved" ?b] boot_view_before [of "h_now h" kind t] k(3)
    by simp_all
  have "t_nv u = t_nv t"
    using startup_reset_data_frame [OF startup_before_frame, of t "h_seed1 h" "h_seed2 h" kind "map_option sa_reset ?saved" "h_now h" kind] k(3)
    by (simp add: nv_frame_def)
  then have "nv_list_ok (t_nv u)" using ok by (simp add: nv_ok_def)
  note a = boot_view_after [OF this, of kind "is_orderly (pm_shutdown (t_permanent t))"]
  have "boot_view t' = booted kind t" "pm_allocation (t_permanent t') = pm_allocation (t_permanent t)"
    using a b k(4) by simp_all
  then show ?thesis using that [OF k(1,2)] k(4) by (simp add: startup_after_def Let_def)
qed

text \<open>Shutdown leaves the registers and records them.\<close>

lemma shutdown_effect:
  assumes ok: "nv_ok t" and c: "execute D h (Basic ShutdownCommand) hs r t = (Inr ys, t')"
    and r: "rd_run (rd_bind (rd_map_err (rc_param 1) read_su) rd_end) r = Inr True"
  shows "t_changed t'" and "saved_state (pm_shutdown (t_permanent t')) = Some \<lparr>sa_pcrs = pcrs_save (vo_pcrs (t_volatile t)),
    sa_clear = vo_clear (t_volatile t), sa_reset = volatile_reset_data (t_volatile (nv_store_orderly
      (volatile_mut (vo_da_used_update (\<lambda>_. False)) (begin_command (h_now h) t))))\<rparr>"
    and "boot_view t' = boot_view t" and "pm_allocation (t_permanent t') = pm_allocation (t_permanent t)"
proof -
  let ?u = "nv_store_orderly (volatile_mut (vo_da_used_update (\<lambda>_. False)) (begin_command (h_now h) t))"
  have "vo_started (t_volatile t)" and s: "shutdown_command r (begin_command (h_now h) t) = (Inr ys, t')"
    using c by (auto simp: execute_def split: if_splits)
  have t': "t' = permanent_mut (\<lambda>p. p\<lparr>pm_shutdown_time := vo_time (t_volatile ?u), pm_shutdown := Shutdown_State
      \<lparr>sa_pcrs = pcrs_save (vo_pcrs (t_volatile ?u)), sa_clear = vo_clear (t_volatile ?u), sa_reset = volatile_reset_data (t_volatile ?u)\<rparr>\<rparr>) ?u"
    using s r by (auto simp: shutdown_command_def attempt_def Let_def sum_bind_eq_Inr split: sum.splits)
  have b: "boot_view (begin_command (h_now h) t) = boot_view t" by (simp add: begin_command_def)
  have n: "nv_ok (volatile_mut (vo_da_used_update (\<lambda>_. False)) (begin_command (h_now h) t))"
    using ok begin_command_frame [of t "h_now h"] by (simp add: nv_frame_def nv_ok_def)
  have v: "boot_view ?u = boot_view t" using boot_view_rest [OF nv_store_orderly_facts(3) [OF n]] b by simp
  then have v': "vo_pcrs (t_volatile ?u) = vo_pcrs (t_volatile t)" "vo_clear (t_volatile ?u) = vo_clear (t_volatile t)"
    by (simp_all add: boot_view_def)
  show "t_changed t'" by (simp add: t' permanent_mut_def)
  show "boot_view t' = boot_view t" by (simp add: t' v)
  have "pm_allocation (t_permanent ?u) = pm_allocation (t_permanent t)"
    using allocation_rest [OF nv_store_orderly_facts(3) [OF n]] by (simp add: begin_command_def)
  then show "pm_allocation (t_permanent t') = pm_allocation (t_permanent t)" by (simp add: t')
  show "saved_state (pm_shutdown (t_permanent t')) = Some \<lparr>sa_pcrs = pcrs_save (vo_pcrs (t_volatile t)),
    sa_clear = vo_clear (t_volatile t), sa_reset = volatile_reset_data (t_volatile ?u)\<rparr>"
    by (simp add: t' saved_state_def v')
qed

end
