(* ===== verification/Tpm_Properties.thy ===== *)
theory Tpm_Properties
  imports Tpm_Example Tpm_Boot
begin

text \<open>
  The properties of the TPM, over the whole of it: what every state it can be in satisfies, what survives a
  loss of power, what the counters, the locks and the PCRs promise to those who rely on them.
\<close>

section \<open>Commands and indices\<close>

text \<open>An index the owner may write, and whose attributes and data are known.\<close>

lemma live_public:
  assumes "nv_ok t" and "nv_live i t = Some (a, d)"
  obtains p where "index_public i t = Inr p" "np_attributes p = a" "np_index p = i" "size_fits p" "length d = np_size p"
proof -
  obtain p where p: "nv_public_of i t = Some p"
    using assms nv_public_of_None [OF assms(1), of i] by (cases "nv_public_of i t") (auto simp: nv_live_def)
  from nv_public_live [OF assms(1) this] obtain d' where
    "nv_live i t = Some (np_attributes p, d')" "length d' = np_size p" "np_index p = i" "size_fits p" by metis
  then show ?thesis using that [of p] p assms(2) by (simp add: index_public_def)
qed

lemma begin_command_live: "nv_live i (begin_command now t) = nv_live i t"
  using begin_command_frame [of t now] by (intro nv_live_frame) (simp_all add: nv_frame_def)

lemma begin_command_kept:
  "nv_ok (begin_command now t) = nv_ok t" "vo_started (t_volatile (begin_command now t)) = vo_started (t_volatile t)"
  using begin_command_frame [of t now] by (simp_all add: nv_frame_def nv_ok_def)

lemma execute_started:
  "vo_started (t_volatile t) \<Longrightarrow> c \<noteq> Basic StartupCommand \<Longrightarrow> execute D h c hs r t = run D h c hs r (begin_command (h_now h) t)"
  by (simp add: execute_def)

lemma execute_accepted:
  assumes "execute D h c hs r t = (Inr ys, t')" and "c \<noteq> Basic StartupCommand"
  shows "vo_started (t_volatile t)" and "run D h c hs r (begin_command (h_now h) t) = (Inr ys, t')"
  using assms by (auto simp: execute_def split: if_splits)

section \<open>Counters\<close>

lemma reachable_counts:
  assumes "digest_ok D" and "permanent_ok p" and "tpm_reachable D p m"
  shows "machine_counts m"
proof -
  have "(\<lambda>m m'. digest_ok D \<and> tpm_step D m m')\<^sup>*\<^sup>* (machine_start p) m"
    using assms(1,3) by (simp add: tpm_reachable_def)
  with counters.steps_inv counters.inv_start assms(1,2) show ?thesis by blast
qed

lemma floor_run:
  assumes D: "digest_ok D" and m: "machine_counts m" and i: "i \<notin> range certificate_index"
    and r: "(\<lambda>s s'. tpm_step D s s' \<and> nv_floor i (m_tpm s) \<noteq> - 1)\<^sup>*\<^sup>* m m'"
  shows "machine_counts m' \<and> nv_floor i (m_tpm m) \<le> nv_floor i (m_tpm m')"
  using r
proof (induction rule: rtranclp_induct)
  case (step s s')
  then have "counting i (m_tpm s) (m_tpm s')" using counting_step [of s D s'] i by blast
  moreover have "machine_counts s'" using counters.inv_step [of s D s'] step D by blast
  ultimately show ?case using step.IH by (auto simp: counting_def)
qed (simp add: m)

lemma execute_increment:
  assumes "nv_ok t" and "execute D h (Nv NvIncrement) [a, i] r t = (Inr ys, t')"
  shows "nv_floor i t' = nv_floor i t + 1" and "nv_u64 i t' = nv_floor i t'" and "vo_started (t_volatile t)"
proof -
  let ?u = "begin_command (h_now h) t"
  note e = execute_accepted [OF assms(2), simplified]
  have h: "auth_and_index [a, i] = Inr (a, i)" by (simp add: auth_and_index_def first_handle_def nth_get_def)
  have ok: "nv_ok ?u" and st: "vo_started (t_volatile ?u)" using assms(1) e(1) by (simp_all add: begin_command_kept)
  note n = nv_increment_raises [OF ok st e(2) h]
  have f: "nv_floor i ?u = nv_floor i t"
    using begin_command_frame [of t "h_now h"] e(1) st
    by (intro nv_floor_cong begin_command_live) (simp_all add: nv_pending_def nv_frame_def)
  show "nv_floor i t' = nv_floor i t + 1" "nv_u64 i t' = nv_floor i t'" "vo_started (t_volatile t)"
    using n f e(1) by (simp_all add: nv_u64_def be_u64_bytes)
qed

text \<open>C24. A counter never repeats a value. Whatever happens between two accepted NV_Increment of an index -
  other commands, its deletion and definition anew, failed authorizations, any number of losses of power,
  orderly or not - the second gives a value above the first, as long as the counter is not used up. (The two
  indices the host keeps for its endorsement key certificates are the host's to replace.)\<close>

theorem counter_never_repeats:
  assumes D: "digest_ok D" and p: "permanent_ok p" and m: "tpm_reachable D p m"
    and i: "i \<notin> range certificate_index" and h: "host_ok h"
    and first: "execute D h (Nv NvIncrement) [a, i] r (m_tpm m) = (Inr ys, t)"
    and run: "(\<lambda>s s'. tpm_step D s s' \<and> nv_floor i (m_tpm s) \<noteq> - 1)\<^sup>*\<^sup>* (settle t (m_stored m)) m'"
    and top: "nv_floor i (m_tpm m') \<noteq> - 1"
    and second: "execute D h' (Nv NvIncrement) [a', i] r' (m_tpm m') = (Inr ys', t')"
  shows "nv_u64 i t < nv_u64 i t'"
proof -
  let ?s = "settle t (m_stored m)"
  have c: "machine_counts m" by (rule reachable_counts [OF D p m])
  have "tpm_step D m ?s" by (rule tpm_step.command [OF h first])
  then have s: "machine_counts ?s" using counters.inv_step [OF c] D by blast
  have "nv_floor i (m_tpm ?s) = nv_floor i t"
    using settle_frame [of t "m_stored m"]
    by (intro nv_floor_cong nv_live_frame) (simp_all add: nv_frame_def settle_def take_permanent_changed_def nv_pending_def)
  with floor_run [OF D s i run] have r: "nv_floor i t \<le> nv_floor i (m_tpm m')" "machine_counts m'" by simp_all
  have ok: "nv_ok (m_tpm m)" "nv_ok (m_tpm m')" using c r(2) tpm_ok_nv by (auto simp: machine_counts_def machine_ok_def)
  have "nv_u64 i t = nv_floor i t" by (rule execute_increment(2) [OF ok(1) first])
  also have "\<dots> \<le> nv_floor i (m_tpm m')" by (rule r(1))
  also have "\<dots> < nv_floor i (m_tpm m') + 1" by (rule word_less_Suc [OF top])
  also have "\<dots> = nv_u64 i t'" using execute_increment [OF ok(2) second] by simp
  finally show ?thesis .
qed

text \<open>The owner's increment of a counter is accepted.\<close>

lemma rd_end_empty: "rd_run (rd_end ()) [] = Inr ()"
  by code_simp

lemma owner_increment:
  fixes t :: "('x, 'q, 's) tpm"
  assumes ok: "nv_ok t" and st: "vo_started (t_volatile t)" and l: "nv_live i t = Some (a, d)"
    and a: "kind_of a = Some Counter" "a AND WRITELOCKED = 0" "a AND OWNERWRITE \<noteq> 0"
  obtains t' where "execute D h (Nv NvIncrement) [TPM_RH_OWNER, i] [] t = (Inr [], t')" "nv_ok t'" "vo_started (t_volatile t')"
    "nv_live i t' = Some (a OR WRITTEN, to_be_bytes (nv_floor i t'))" "nv_floor i t' = nv_floor i t + 1"
proof -
  let ?u = "begin_command (h_now h) t"
  have oku: "nv_ok ?u" using ok by (simp add: begin_command_kept)
  have lu: "nv_live i ?u = Some (a, d)" using l by (simp add: begin_command_live)
  from live_public [OF oku lu] obtain p where p: "index_public i ?u = Inr p" "np_attributes p = a" "size_fits p" by metis
  have k: "np_kind p = Some Counter" using p(2) a(1) by (simp add: np_kind_def)
  have w: "write_target Counter [TPM_RH_OWNER, i] ?u = Inr (i, p)"
    using p(1,2) k a(2,3) by (simp add: write_target_Inr auth_and_index_def first_handle_def nth_get_def write_access_def np_has_def)
  define v where "v = (if np_has p WRITTEN then nv_u64 i ?u else pm_nv_max_counter (t_permanent ?u)) + 1"
  have "np_size p = 8" using size_fits_8 [OF p(3) k] by simp
  from nv_write_fixed [OF oku p(1), of "to_be_bytes v"] this obtain s where s: "nv_write i 0 (to_be_bytes v) ?u = (Inr (), s)"
    by auto
  obtain t' where t': "nv_increment [TPM_RH_OWNER, i] [] ?u = (Inr [], t')"
    using w s by (simp add: nv_increment_def attempt_def rd_end_empty nv_write_u64_def v_def)
  have e: "execute D h (Nv NvIncrement) [TPM_RH_OWNER, i] [] t = (Inr [], t')"
    using execute_started [OF st, of "Nv NvIncrement"] t' by simp
  note f = execute_increment [OF ok e]
  from nv_increment_effect [OF oku t'] w have u: "nv_updates i (a OR WRITTEN) (to_be_bytes v) ?u t'" by (auto simp: v_def p(2))
  have "nv_ok t'" "vo_started (t_volatile t')" "nv_live i t' = Some (a OR WRITTEN, to_be_bytes v)"
    using u nv_ok_same [OF _ oku] nv_rest_started [of t' ?u] st by (auto simp: nv_updates_def begin_command_kept)
  moreover have "v = nv_floor i t'"
  proof -
    from live_public [OF calculation(1,3)] obtain p' where "index_public i t' = Inr p'" by metis
    from index_public_live [OF calculation(1) this] calculation(3) have "nv_data i t' = Some (to_be_bytes v)" by auto
    then show ?thesis using f(2) by (simp add: nv_u64_def)
  qed
  ultimately show ?thesis using that [OF e] f(1) by simp
qed

text \<open>Two increments of the example's counter.\<close>

theorem counter_never_repeats_witness:
  "\<exists>t t'. execute ex_digest ex_host (Nv NvIncrement) [TPM_RH_OWNER, ex_counter] [] (m_tpm ex_up) = (Inr [], t)
    \<and> execute ex_digest ex_host (Nv NvIncrement) [TPM_RH_OWNER, ex_counter] [] (m_tpm (settle t (m_stored ex_up))) = (Inr [], t')
    \<and> nv_u64 ex_counter t < nv_u64 ex_counter t'"
proof -
  have a: "kind_of 0x04060016 = Some Counter" "(0x04060016 :: u32) AND WRITELOCKED = 0" "(0x04060016 :: u32) AND OWNERWRITE \<noteq> 0"
    "kind_of (0x04060016 OR WRITTEN) = Some Counter" "(0x04060016 OR WRITTEN) AND WRITELOCKED = 0"
    "(0x04060016 OR WRITTEN) AND OWNERWRITE \<noteq> 0"
    by (simp_all add: kind_of_def nv_attr_defs TPM_NT_SHIFT_def TPM_NT_def)
  from owner_increment [OF ex_up_facts(1,2) ex_live(1) a(1-3), of ex_digest ex_host] obtain t where
    t: "execute ex_digest ex_host (Nv NvIncrement) [TPM_RH_OWNER, ex_counter] [] (m_tpm ex_up) = (Inr [], t)" "nv_ok t"
      "vo_started (t_volatile t)" "nv_live ex_counter t = Some (0x04060016 OR WRITTEN, to_be_bytes (nv_floor ex_counter t))"
      "nv_floor ex_counter t = nv_floor ex_counter (m_tpm ex_up) + 1" .
  let ?m = "settle t (m_stored ex_up)"
  have f: "nv_frame t (m_tpm ?m)" by (rule settle_frame)
  have l: "nv_live ex_counter (m_tpm ?m) = Some (0x04060016 OR WRITTEN, to_be_bytes (nv_floor ex_counter t))"
    using f t(4) nv_live_frame [of "m_tpm ?m" t ex_counter] by (simp add: nv_frame_def)
  have m: "nv_ok (m_tpm ?m)" "vo_started (t_volatile (m_tpm ?m))" using f t(2,3) by (simp_all add: nv_frame_def nv_ok_def)
  have "nv_floor ex_counter (m_tpm ex_up) = 0"
    using nv_floor_started [OF ex_live(1) ex_up_facts(2)] ex_up_facts(5) by (simp add: counter_written_def nv_attr_defs)
  moreover have "nv_floor ex_counter (m_tpm ?m) = nv_floor ex_counter t"
    using f nv_live_frame [of "m_tpm ?m" t ex_counter] t(3) m(2) by (intro nv_floor_cong) (simp_all add: nv_frame_def nv_pending_def)
  ultimately have top: "nv_floor ex_counter (m_tpm ?m) \<noteq> - 1" using t(5) by simp
  from owner_increment [OF m l a(4-6), of ex_digest ex_host] obtain t' where
    t': "execute ex_digest ex_host (Nv NvIncrement) [TPM_RH_OWNER, ex_counter] [] (m_tpm ?m) = (Inr [], t')" .
  have i: "ex_counter \<notin> range certificate_index"
  proof
    assume "ex_counter \<in> range certificate_index"
    then obtain k where "ex_counter = certificate_index k" by blast
    then show False by (cases k) (simp_all add: ex_counter_def)
  qed
  from counter_never_repeats [OF ex_digest_ok ex_permanent_ok ex_up_reachable i ex_host_ok t(1) rtranclp.rtrancl_refl top t'(1)] t(1) t'(1)
  show ?thesis by blast
qed

section \<open>What is stored\<close>

text \<open>C25. Every state the TPM can be in is well formed: started from a storable permanent state, whatever
  commands run with whatever parameters, authorized or not, and wherever power is lost, the seeds, policies and
  authorization values keep their sizes, the PCR banks and their allocation their shape, the NV indices are in
  order, within the space, of the size their kind asks for and in step with their RAM copies; and what the host
  has stored is storable again.\<close>

theorem reachable_well_formed:
  assumes "digest_ok D" and "permanent_ok p" and "tpm_reachable D p m"
  shows "tpm_ok (m_tpm m) \<and> permanent_ok (m_stored m)"
  using reachable_ok [OF assms] machine_ok_stored [of m] by (simp add: machine_ok_def)

theorem reachable_well_formed_witness:
  "tpm_ok (m_tpm ex_up) \<and> permanent_ok (m_stored ex_up)"
  by (rule reachable_well_formed [OF ex_digest_ok ex_permanent_ok ex_up_reachable])







text \<open>C27. A loss of power takes nothing but the clock: at every moment between commands the permanent state
  the host has stored is the one the TPM works with, up to the clock and its safety flag, and no change is
  waiting to be stored.\<close>

theorem nothing_unstored:
  assumes "tpm_reachable D p m"
  shows "unclocked (m_stored m) = unclocked (t_permanent (m_tpm m)) \<and> \<not> t_changed (m_tpm m)"
proof -
  have "stored_ok m" using storage.reach_inv [of "machine_start p" D m] assms by (auto simp: tpm_reachable_def)
  then show ?thesis by (simp add: stored_ok_def)
qed

theorem nothing_unstored_witness:
  "unclocked (m_stored ex_up) = unclocked (t_permanent (m_tpm ex_up)) \<and> \<not> t_changed (m_tpm ex_up)"
  by (rule nothing_unstored [OF ex_up_reachable])



section \<open>Measurements\<close>














end
