(* ===== verification/Tpm_Nv_Properties.thy ===== *)
theory Tpm_Nv_Properties
  imports Tpm_Properties
begin

text \<open>
  The properties of the NV indices: where an index is found, what the commands do to it and to the others,
  what its locks and its PIN limit stop, and what a refused command leaves.
\<close>

section \<open>Lookup\<close>

text \<open>C31. Looking up an NV index by binary search over the stored list is the same as searching it from the
  front, in every state the TPM can be in: an index that is defined is always found.\<close>

theorem nv_lookup_is_search:
  assumes "digest_ok D" and "permanent_ok p" and "tpm_reachable D p m"
  shows "nv_entry i (m_tpm m) = find (\<lambda>e. ni_index e = i) (t_nv (m_tpm m))"
  using nv_entry_find tpm_ok_nv reachable_ok [OF assms] by (auto simp: machine_ok_def)

theorem nv_lookup_is_search_witness:
  "nv_entry ex_bits (m_tpm ex_up) = find (\<lambda>e. ni_index e = ex_bits) (t_nv (m_tpm ex_up))"
  by (rule nv_lookup_is_search [OF ex_digest_ok ex_permanent_ok ex_up_reachable])

section \<open>Writing and reading\<close>

lemma handles_pair [simp]: "auth_and_index [a, i] = Inr (a, i)" "first_handle (i # hs) = Inr i"
  by (simp_all add: auth_and_index_def first_handle_def nth_get_def)










section \<open>Locks\<close>













section \<open>Refusals\<close>



section \<open>PIN limits\<close>









end
