(* ===== verification/Tpm_Admin_Properties.thy ===== *)
theory Tpm_Admin_Properties
  imports Tpm_Nv_Properties
begin

text \<open>
  The properties of the TPM's administration: what Clear removes and who may disable it, when repeated
  failures lock authorization out, and what PCR_Read reports.
\<close>

section \<open>Clear\<close>

lemma nv_rest_hierarchies:
  "nv_rest t' = nv_rest t \<Longrightarrow> pm_hierarchies (t_permanent t') = pm_hierarchies (t_permanent t)"
  by (cases "t_permanent t'"; cases "t_permanent t") (simp add: nv_rest_def)

lemma clear_action_effect:
  assumes ok: "nv_ok t"
  shows "nv_live j (clear_action eh t) = (case nv_live j t of None \<Rightarrow> None
      | Some (a, d) \<Rightarrow> if a AND PLATFORMCREATE \<noteq> 0 then Some (a, d) else None)"
    and "pm_persistent (t_permanent (clear_action eh t)) =
      filter (\<lambda>(_, k). k_hierarchy k \<noteq> TPM_RH_OWNER \<and> k_hierarchy k \<noteq> TPM_RH_ENDORSEMENT) (pm_persistent (t_permanent t))"
    and "pm_hierarchies (t_permanent (clear_action eh t)) = (pm_hierarchies (t_permanent t))\<lparr>eh_proof := eh, owner_auth := [],
      endorsement_auth := [], lockout_auth := [], owner_policy := policy_default, endorsement_policy := policy_default,
      lockout_policy := policy_default\<rparr>"
    and "pm_da (t_permanent (clear_action eh t)) = da_default"
proof -
  define v where "v = flush_persistent TPM_RH_ENDORSEMENT (flush_hierarchy TPM_RH_ENDORSEMENT
      (flush_persistent TPM_RH_OWNER (flush_hierarchy TPM_RH_OWNER
        (volatile_mut (vo_clear_update (\<lambda>c. c\<lparr>sh_enable := True, eh_enable := True\<rparr>))
          (permanent_mut (pm_hierarchies_update (\<lambda>h. h\<lparr>eh_proof := eh, owner_auth := [], endorsement_auth := [],
                lockout_auth := [], owner_policy := policy_default, endorsement_policy := policy_default,
                lockout_policy := policy_default\<rparr>)) t)))))"
  have v: "t_nv v = t_nv t" "t_ram v = t_ram t" by (simp_all add: v_def flush_persistent_def flush_hierarchy_def)
  then have okv: "nv_ok v" using ok by (simp add: nv_ok_def)
  note f = nv_flush_owner_facts [OF okv]
  let ?c = "clear_action eh t" and ?u = "nv_flush_owner v"
  have c: "t_nv ?c = t_nv ?u" "t_ram ?c = t_ram ?u" "pm_persistent (t_permanent ?c) = pm_persistent (t_permanent ?u)"
    "pm_hierarchies (t_permanent ?c) = pm_hierarchies (t_permanent ?u)" "pm_da (t_permanent ?c) = da_default"
    unfolding clear_action_def Let_def v_def [symmetric] by (simp_all add: clear_orderly_def)
  show "nv_live j ?c = (case nv_live j t of None \<Rightarrow> None
      | Some (a, d) \<Rightarrow> if a AND PLATFORMCREATE \<noteq> 0 then Some (a, d) else None)"
    unfolding nv_live_frame [OF c(1,2)] f(2) nv_live_frame [OF v] by (rule refl)
  show "pm_persistent (t_permanent ?c) =
      filter (\<lambda>(_, k). k_hierarchy k \<noteq> TPM_RH_OWNER \<and> k_hierarchy k \<noteq> TPM_RH_ENDORSEMENT) (pm_persistent (t_permanent t))"
    unfolding c(3) nv_rest_persistent [OF f(3)]
    by (auto simp: v_def flush_persistent_def flush_hierarchy_def intro!: filter_cong)
  show "pm_hierarchies (t_permanent ?c) = (pm_hierarchies (t_permanent t))\<lparr>eh_proof := eh, owner_auth := [],
      endorsement_auth := [], lockout_auth := [], owner_policy := policy_default, endorsement_policy := policy_default,
      lockout_policy := policy_default\<rparr>"
    unfolding c(4) nv_rest_hierarchies [OF f(3)] by (simp add: v_def flush_persistent_def flush_hierarchy_def)
  show "pm_da (t_permanent ?c) = da_default" by (rule c(5))
qed

text \<open>C37. Clear takes the owner's things and leaves the platform's: of the NV indices exactly those the platform
  created remain, as they were; of the persistent keys exactly those outside the storage and endorsement
  hierarchies; the owner's, endorsement and lockout authorization values are empty and the failures forgotten.\<close>

theorem clear_keeps_platform:
  assumes ok: "nv_ok t" and c: "tpm_clear s1 s2 s3 r t = (Inr ys, t')"
  shows "(\<forall>j. nv_live j t' = (case nv_live j t of None \<Rightarrow> None
        | Some (a, d) \<Rightarrow> if a AND PLATFORMCREATE \<noteq> 0 then Some (a, d) else None))
    \<and> pm_persistent (t_permanent t') =
        filter (\<lambda>(_, k). k_hierarchy k \<noteq> TPM_RH_OWNER \<and> k_hierarchy k \<noteq> TPM_RH_ENDORSEMENT) (pm_persistent (t_permanent t))
    \<and> owner_auth (pm_hierarchies (t_permanent t')) = [] \<and> endorsement_auth (pm_hierarchies (t_permanent t')) = []
    \<and> lockout_auth (pm_hierarchies (t_permanent t')) = [] \<and> failed_tries (pm_da (t_permanent t')) = 0"
proof -
  from c obtain sps sh eh where
    t': "t' = clear_action eh (permanent_mut (pm_hierarchies_update (sh_proof_update (\<lambda>_. sh))) (permanent_mut (pm_sps_update (\<lambda>_. sps)) t))"
    by (auto simp: tpm_clear_def attempt_def draw_def Let_def split: sum.splits option.splits)
  let ?u = "permanent_mut (pm_hierarchies_update (sh_proof_update (\<lambda>_. sh))) (permanent_mut (pm_sps_update (\<lambda>_. sps)) t)"
  have u: "t_nv ?u = t_nv t" "t_ram ?u = t_ram t" by simp_all
  then have "nv_ok ?u" using ok by (simp add: nv_ok_def)
  note e = clear_action_effect [OF this, where eh = eh, folded t']
  have "nv_live j t' = (case nv_live j t of None \<Rightarrow> None
      | Some (a, d) \<Rightarrow> if a AND PLATFORMCREATE \<noteq> 0 then Some (a, d) else None)" for j
    unfolding e(1) nv_live_frame [OF u] by (rule refl)
  then show ?thesis using e(2-4) by (simp add: da_default_def)
qed

text \<open>Clear is accepted on the example unless it was disabled.\<close>

lemma ex_clear_enabled: "\<not> disable_clear (pm_hierarchies (t_permanent (m_tpm ex_start)))"
  by (simp add: ex_start_def machine_start_def tpm_power_on_def ex_permanent_def permanent_manufacture_def
      hierarchies_manufacture_def new_seed_def)

theorem clear_keeps_platform_witness:
  "\<exists>t'. tpm_clear (Some ex_seed) (Some ex_seed) (Some ex_seed) [] (m_tpm ex_start) = (Inr [], t')
    \<and> nv_live ex_data t' = None"
proof -
  obtain t' where t': "tpm_clear (Some ex_seed) (Some ex_seed) (Some ex_seed) [] (m_tpm ex_start) = (Inr [], t')"
    using ex_clear_enabled by (simp add: tpm_clear_def attempt_def draw_def Let_def rd_end_empty refuse_def)
  have e: "nv_entry ex_data (m_tpm ex_start) = Some (ex_index ex_data 0x00062006 [0, 0, 0, 0])"
    using nv_entry_find [OF ex_start_ok] ex_start_facts(1) by (simp add: ex_nv_def ex_index_def ex_indices)
  then have "nv_live ex_data (m_tpm ex_start) = Some (0x00062006, [0, 0, 0, 0])"
    by (simp add: nv_live_def ex_index_def np_has_def nv_attr_defs)
  moreover have "(0x00062006 :: u32) AND PLATFORMCREATE = 0" by (simp add: nv_attr_defs)
  ultimately show ?thesis using clear_keeps_platform [OF ex_start_ok t'] t' by simp
qed

section \<open>Who may enable Clear\<close>

definition clear_kept :: "('x, 'q, 's) tpm \<Rightarrow> ('x, 'q, 's) tpm \<Rightarrow> bool" where
  "clear_kept s t \<longleftrightarrow> disable_clear (pm_hierarchies (t_permanent t)) = disable_clear (pm_hierarchies (t_permanent s))"

named_theorems clear_rules \<open>operations that keep the flag which disables Clear\<close>

lemma clear_kept_refl [clear_rules]: "clear_kept t t"
  by (simp add: clear_kept_def)

lemma clear_kept_trans: "clear_kept t u \<Longrightarrow> clear_kept u v \<Longrightarrow> clear_kept t v"
  by (simp add: clear_kept_def)

lemma clear_kept_attempt [clear_rules]:
  "clear_kept s t \<Longrightarrow> (\<And>x. m = Inr x \<Longrightarrow> clear_kept s (snd (k x t))) \<Longrightarrow> clear_kept s (snd (attempt m k t))"
  by (simp add: attempt_def split: sum.split)

lemma clear_kept_draw [clear_rules]:
  "clear_kept s t \<Longrightarrow> (\<And>x. clear_kept s (snd (k x t))) \<Longrightarrow> clear_kept s (snd (draw m k t))"
  by (simp add: draw_def split: option.split)

lemma clear_kept_mut [clear_rules]:
  "clear_kept s t \<Longrightarrow> (\<And>p. disable_clear (pm_hierarchies (f p)) = disable_clear (pm_hierarchies p)) \<Longrightarrow> clear_kept s (permanent_mut f t)"
  "clear_kept s t \<Longrightarrow> clear_kept s (volatile_mut g t)" "clear_kept s t \<Longrightarrow> clear_kept s (clear_orderly t)"
  by (simp_all add: clear_kept_def clear_orderly_def)

lemma clear_kept_rest: "nv_rest t' = nv_rest t \<Longrightarrow> clear_kept t t'"
  unfolding clear_kept_def by (drule nv_rest_hierarchies) simp

lemma clear_kept_time [clear_rules]: "clear_kept s t \<Longrightarrow> clear_kept s (update_time now t)"
  by (simp add: update_time_def Let_def clear_kept_def)

lemma clear_kept_self_heal [clear_rules]: "clear_kept s t \<Longrightarrow> clear_kept s (da_self_heal t)"
  by (simp add: da_self_heal_def Let_def case_prod_beta clear_kept_def)

lemma clear_kept_da [clear_rules]:
  assumes "clear_kept s t"
  shows "clear_kept s (da_startup b c d t)" and "clear_kept s (flush_hierarchy h t)" and "clear_kept s (flush_persistent h t)"
  using assms unfolding da_startup_def flush_hierarchy_def flush_persistent_def Let_def by (auto intro!: clear_rules)

lemma clear_kept_extend [clear_rules]: "clear_kept s t \<Longrightarrow> clear_kept s (tpm_extend D pcr ds t)"
  unfolding tpm_extend_def by (induction ds arbitrary: t) (auto intro: clear_rules)

lemma clear_kept_pcr_to_extend: "clear_kept s t \<Longrightarrow> clear_kept s (snd (pcr_to_extend handle t))"
  unfolding pcr_to_extend_def Let_def by (auto intro!: clear_rules)

lemma clear_kept_before: "clear_kept t (startup_before now kind t)"
  unfolding startup_before_form(1) by (auto intro!: clear_rules)

lemma clear_kept_reset_data: "clear_kept s t \<Longrightarrow> clear_kept s (snd (startup_reset_data s1 s2 kind saved t))"
  unfolding startup_reset_data_def Let_def by (auto intro!: clear_rules split: option.split)

lemma clear_kept_startup:
  assumes "nv_ok t"
  shows "clear_kept t (snd (startup_command now s1 s2 r t))"
proof -
  have "clear_kept t (snd (case startup_reset_data s1 s2 kind saved (startup_before now kind t) of
      (Inl e, t) \<Rightarrow> (Inl e, t) | (Inr z, t) \<Rightarrow> (Inr [], startup_after kind orderly t)))" for kind saved orderly
  proof -
    obtain y u where u: "startup_reset_data s1 s2 kind saved (startup_before now kind t) = (y, u)" by fastforce
    have k: "clear_kept t u" using clear_kept_reset_data [OF clear_kept_before, of t s1 s2 kind saved now kind] u by simp
    have "nv_frame t u" using startup_reset_data_frame [OF startup_before_frame, of t s1 s2 kind saved now kind] u by simp
    then have "nv_list_ok (t_nv u)" using assms by (simp add: nv_frame_def nv_ok_def)
    from clear_kept_trans [OF k clear_kept_rest [OF nv_startup_facts(2) [OF this, of kind orderly]]]
    have "clear_kept t (startup_after kind orderly u)" unfolding startup_after_def Let_def by (auto intro!: clear_rules)
    then show ?thesis using u k by (cases y) simp_all
  qed
  then show ?thesis unfolding startup_command_def Let_def by (auto intro!: clear_rules)
qed

lemma clear_kept_shutdown:
  assumes "nv_ok t"
  shows "clear_kept t (snd (shutdown_command r t))"
proof -
  let ?u = "volatile_mut (vo_da_used_update (\<lambda>_. False)) t"
  have "nv_ok ?u" using assms by (simp add: nv_ok_def)
  from clear_kept_trans [OF _ clear_kept_rest [OF nv_store_orderly_facts(3) [OF this]], of t]
  have "clear_kept t (nv_store_orderly ?u)" by (auto intro!: clear_rules)
  then show ?thesis unfolding shutdown_command_def Let_def by (auto intro!: clear_rules)
qed

lemma run_basic_clear:
  assumes ok: "nv_ok t"
  shows "clear_kept t (snd (run_basic D h c hs r t))"
proof (cases c)
  case StartupCommand
  then show ?thesis using clear_kept_startup [OF ok] by simp
next
  case ShutdownCommand
  then show ?thesis using clear_kept_shutdown [OF ok] by simp
next
  case PcrExtend
  have "clear_kept t (snd (case pcr_to_extend i t of (Inl e, t) \<Rightarrow> (Inl e, t) | (Inr None, t) \<Rightarrow> (Inr [], t)
      | (Inr (Some p), t) \<Rightarrow> (Inr [], tpm_extend D p ds t)))" for i ds
    using clear_kept_pcr_to_extend [OF clear_kept_refl, of t i]
    by (cases "pcr_to_extend i t") (auto split: sum.split option.split intro!: clear_rules)
  then show ?thesis unfolding PcrExtend run_basic.simps pcr_extend_def by (auto intro!: clear_rules)
next
  case PcrEvent
  have "clear_kept t (snd (case pcr_to_extend i t of (Inl e, t) \<Rightarrow> (Inl e, t)
      | (Inr p, t) \<Rightarrow> (Inr bs, case p of None \<Rightarrow> t | Some p \<Rightarrow> tpm_extend D p ds t)))" for i ds and bs :: bytes
    using clear_kept_pcr_to_extend [OF clear_kept_refl, of t i]
    by (cases "pcr_to_extend i t") (auto split: sum.split option.split intro!: clear_rules)
  then show ?thesis unfolding PcrEvent run_basic.simps pcr_event_def Let_def by (auto intro!: clear_rules)
qed (auto simp: pcr_reset_def pcr_allocate_def Let_def intro!: clear_rules)

lemma run_hierarchy_clear:
  assumes "c \<noteq> Clear" and "c \<noteq> ClearControl"
  shows "clear_kept t (snd (run_hierarchy h c hs r t))"
  using assms
  by (cases c) (auto simp: hierarchy_control_def change_eps_def change_pps_def hierarchy_change_auth_def set_primary_policy_def
      dictionary_attack_lock_reset_def dictionary_attack_parameters_def Let_def intro!: clear_rules)

text \<open>C38. Once Clear is disabled it stays so until the platform enables it: of all commands only ClearControl
  can take the flag off, and only when it is not the lockout authorization that asks; until then Clear is
  refused and changes nothing but the time.\<close>

theorem clear_stays_disabled:
  assumes D: "digest_ok D" and ok: "nv_ok t" and d: "disable_clear (pm_hierarchies (t_permanent t))"
    and e: "execute D h c hs r t = (x, t')"
  shows "(disable_clear (pm_hierarchies (t_permanent t')) \<or> c = Hierarchy ClearControl \<and> first_handle hs \<noteq> Inr TPM_RH_LOCKOUT)
    \<and> (c = Hierarchy Clear \<longrightarrow> t' \<in> {t, begin_command (h_now h) t} \<and> (\<exists>rc. x = Inl rc))"
proof -
  let ?u = "begin_command (h_now h) t"
  have u: "clear_kept t ?u" by (auto simp: begin_command_def intro: clear_rules)
  then have du: "disable_clear (pm_hierarchies (t_permanent ?u))" using d by (simp add: clear_kept_def)
  have oku: "nv_ok ?u" using ok by (simp add: begin_command_kept)
  show ?thesis
  proof (cases "(c = Basic StartupCommand) \<noteq> (\<not> vo_started (t_volatile t))")
    case True
    then show ?thesis using e d by (auto simp: execute_def)
  next
    case False
    then have r: "run D h c hs r ?u = (x, t')" using e by (simp add: execute_def)
    have k: "disable_clear (pm_hierarchies (t_permanent t'))" if "clear_kept ?u t'" using that du by (simp add: clear_kept_def)
    show ?thesis
    proof (cases c)
      case (Nv n)
      then have "nv_rest t' = nv_rest ?u" using r run_nv_effect [OF D oku] by (auto simp: nv_effect_def)
      then show ?thesis using k clear_kept_rest Nv by blast
    next
      case (Basic b)
      then show ?thesis using k run_basic_clear [OF oku, of D h b hs r] r by simp
    next
      case (Hierarchy y)
      consider "y = Clear" | "y = ClearControl" | "y \<noteq> Clear" "y \<noteq> ClearControl" by blast
      then show ?thesis
      proof cases
        case 1
        then have "t' = ?u \<and> (\<exists>rc. x = Inl rc)"
          using r du Hierarchy by (auto simp: tpm_clear_def attempt_def refuse_def sum_bind_eq_Inr split: sum.splits)
        then show ?thesis using du 1 Hierarchy by simp
      next
        case 2
        then show ?thesis using r du Hierarchy
          by (auto simp: clear_control_def attempt_def refuse_def sum_bind_eq_Inr split: sum.splits if_splits)
      next
        case 3
        then show ?thesis using k run_hierarchy_clear [OF 3, of ?u h hs r] r Hierarchy by simp
      qed
    qed
  qed
qed

theorem clear_stays_disabled_witness:
  "\<exists>t rc t'. t = permanent_mut (pm_hierarchies_update (disable_clear_update (\<lambda>_. True))) (m_tpm ex_up)
    \<and> execute ex_digest ex_host (Hierarchy Clear) [TPM_RH_LOCKOUT] [] t = (Inl rc, t')
    \<and> disable_clear (pm_hierarchies (t_permanent t'))"
proof -
  define t where "t = permanent_mut (pm_hierarchies_update (disable_clear_update (\<lambda>_. True))) (m_tpm ex_up)"
  have ok: "nv_ok t" using ex_up_facts(1) by (simp add: t_def nv_ok_def)
  have d: "disable_clear (pm_hierarchies (t_permanent t))" by (simp add: t_def)
  obtain x t' where e: "execute ex_digest ex_host (Hierarchy Clear) [TPM_RH_LOCKOUT] [] t = (x, t')" by fastforce
  from clear_stays_disabled [OF ex_digest_ok ok d e] e t_def show ?thesis by auto
qed

section \<open>Dictionary attack\<close>




section \<open>Reading the registers\<close>

text \<open>C40. What PCR_Read reports is what it says it reports: the digests are the values of the registers that the
  returned selections select, in order; they are the first eight of the requested registers that are allocated,
  and the counter is the current one.\<close>

theorem pcr_read_reports:
  assumes ok: "tpm_ok t" and r: "rd_run (rd_bind (rd_map_err (rc_param 1) read_selections) rd_end) r = Inr ss"
  shows "\<exists>out ds. pcr_read_command r t = Inr (to_be_bytes (p_counter (vo_pcrs (t_volatile t))) @ write_selections out
        @ put_count (length ds) @ concat (map put_tpm2b ds))
    \<and> ds = take MAX_READ (concat (map (readable_values (vo_pcrs (t_volatile t)) (vo_allocation (t_volatile t))) ss))
    \<and> concat (map (selected_values (vo_pcrs (t_volatile t))) out) = ds \<and> length ds \<le> 8"
proof -
  let ?p = "vo_pcrs (t_volatile t)" and ?a = "vo_allocation (t_volatile t)"
  obtain out ds where o: "pcrs_read ?a ss ?p = (out, ds)" by fastforce
  have p: "pcrs_ok ?p" using ok by (simp add: tpm_ok_def volatile_ok_def)
  note e = pcrs_read_eq [OF p o]
  have "pcr_read_command r t = Inr (to_be_bytes (p_counter ?p) @ write_selections out @ put_count (length ds) @ concat (map put_tpm2b ds))"
    using r o by (simp add: pcr_read_command_def Let_def)
  moreover have "length ds \<le> 8" unfolding e(1) by (simp add: MAX_READ_def)
  ultimately show ?thesis using e(1,2) by blast
qed

theorem pcr_read_reports_witness:
  "\<exists>out ds. pcr_read_command (write_selections [selection_all Sha256 True]) (m_tpm ex_up)
      = Inr (to_be_bytes (p_counter (vo_pcrs (t_volatile (m_tpm ex_up)))) @ write_selections out
        @ put_count (length ds) @ concat (map put_tpm2b ds))
    \<and> concat (map (selected_values (vo_pcrs (t_volatile (m_tpm ex_up)))) out) = ds"
proof -
  have "tpm_ok (m_tpm ex_up)"
    using reachable_ok [OF ex_digest_ok ex_permanent_ok ex_up_reachable] by (simp add: machine_ok_def)
  moreover have "allocation_ok [selection_all Sha256 True]" by (simp add: allocation_ok_def HASH_ALL_def selection_all_def PCR_SELECT_def PCR_COUNT_def)
  then have "rd_run (rd_bind (rd_map_err (rc_param 1) read_selections) rd_end) (write_selections [selection_all Sha256 True])
      = Inr [selection_all Sha256 True]"
    using selections.get_put [of "[selection_all Sha256 True]" "[]"] by (simp add: rd_run_Inr)
  ultimately show ?thesis using pcr_read_reports by blast
qed

end
