(* ===== verification/Spec2Isabelle.thy ===== *)
theory Spec2Isabelle
  imports Uefi_Properties Uefi_Components Tpm_Admin_Properties
begin

text \<open>
  Verification of two devices of virtkit: the UEFI variable service (\<^verbatim>\<open>src/vk-uefi-vars\<close>) and the TPM 2.0
  (\<^verbatim>\<open>src/vk-tpm\<close>). Both are pure state machines that a virtual machine's guest drives with messages, and both
  hold what a guest's security rests on: the Secure Boot keys, the measurements of the boot, counters and locks
  that must survive a loss of power.

  \<^bold>\<open>The parts.\<close>
  A guest's firmware sends the variable service one buffer at a time (\<open>Service::communicate\<close>); the service
  answers in the buffer, and the device writes the non-volatile variables back to an edk2 store file
  (\<open>take_image\<close>, \<open>mark_written\<close>) and snapshots the rest. A guest sends the TPM one command at a time
  (\<open>Tpm::process\<close>); the device stores the permanent state whenever a command has marked it changed, before the
  guest sees the answer, and powers the TPM on from what it stored last.

  \<^bold>\<open>How they are modelled.\<close>
  Every operation is a function of the state, and returns the new state. A fallible one returns a sum or an
  option, one branch per early return of the source. Integers keep their width as words; \<open>usize\<close> is a natural
  number with the source's checked and saturating operations, and \<open>i64\<close> an integer that is clamped where the
  source saturates. Byte readers are functions from the bytes left to a result and the bytes left. The hash
  functions, RSA and big integers are third-party code and enter as parameters (\<open>crypto\<close> for the variable
  service, a digest function for the TPM, of which only the length of its results is assumed); so does the
  host's random source, as the seeds it draws, and the encoding of a TPM key, of which is assumed that it is
  read back as it was written.

  \<^bold>\<open>Shared theories.\<close>
  \<^item> \<open>Vk_Prelude\<close>: machine integers, slices, options and sums, the generic list lemmas.
  \<^item> \<open>Vk_Machine\<close>: the locales \<open>machine_invariant\<close> and \<open>machine_run\<close>, what a proof about a state machine must
    supply and what then holds over whole runs; both devices interpret them.

  \<^bold>\<open>The variable service, definitions.\<close>
  \<^item> \<open>Uefi_Codec\<close>, \<open>Uefi_Guid\<close>, \<open>Uefi_Store\<close>, \<open>Uefi_Edk2\<close>, \<open>Uefi_Siglist\<close>, \<open>Uefi_Der\<close>, \<open>Uefi_Pkcs7\<close>, \<open>Uefi_Auth\<close>,
    \<open>Uefi_Policy\<close>: one theory per file of the crate, with the functions under their names and the component's
    own lemmas (readers invert writers, the store is a finite map through the locale \<open>keyed_store\<close>, the walk of
    records in a store file ends and stays inside it, appending to a signature database is set union).
  \<^item> \<open>Uefi_Service\<close>, \<open>Uefi_Set\<close>, \<open>Uefi_Communicate\<close>, \<open>Uefi_Snapshot\<close>: \<^verbatim>\<open>lib.rs\<close>, that is the service record and the
    read operations, SetVariable with its guards in the order of the code, the messages and their buffer, and
    the snapshot.
  \<^bold>\<open>The variable service, proofs.\<close>
  \<^item> \<open>Uefi_Frame\<close>, \<open>Uefi_Write\<close>: what each operation can touch, SetVariable on every branch.
  \<^item> \<open>Uefi_Step\<close>: the abstract machine \<open>guest_step\<close>, which \<open>communicate\<close> refines, and the whole device's steps.
  \<^item> \<open>Uefi_Security\<close>, \<open>Uefi_Invariant\<close>, \<open>Uefi_Budget\<close>, \<open>Uefi_Machine\<close>: who may change an authenticated variable, the
    invariant of reachable states and the room of the store file.
  \<^item> \<open>Uefi_Message\<close>, \<open>Uefi_Read\<close>, \<open>Uefi_Restart\<close>: well-formed messages, what a guest reads, what a restart keeps.
  \<^item> \<open>Uefi_Example\<close>, \<open>Uefi_Scenario\<close>: a concrete service and run the witnesses use.
  \<^item> \<open>Uefi_Properties\<close> (C1 to C15), \<open>Uefi_Components\<close> (C16 to C23): the properties.

  \<^bold>\<open>The TPM, definitions.\<close>
  \<^item> \<open>Tpm_Wire\<close>: \<^verbatim>\<open>rc.rs\<close>, \<^verbatim>\<open>marshal.rs\<close> and the hash algorithms of \<^verbatim>\<open>alg.rs\<close>, with the locale \<open>codec\<close>: a reader that
    accepts exactly what its writer gives. Every encoding below interprets it.
  \<^item> \<open>Tpm_Pcr\<close>: \<^verbatim>\<open>pcr.rs\<close>. \<open>Tpm_Nv_Types\<close>, \<open>Tpm_Nv\<close>, \<open>Tpm_Nv_Commands\<close>: \<^verbatim>\<open>nv.rs\<close>. \<open>Tpm_Hier_Types\<close>, \<open>Tpm_Hierarchy\<close>:
    \<^verbatim>\<open>hierarchy.rs\<close>. \<open>Tpm_Commands\<close>: the handlers of \<^verbatim>\<open>commands.rs\<close>. \<open>Tpm_State\<close>, \<open>Tpm_Permanent\<close>: \<^verbatim>\<open>state.rs\<close>, the
    permanent and the volatile state, the change mark, manufacture, and the bytes of the permanent state.
  \<^item> \<open>Tpm_Machine\<close>: the command table, the part of \<open>Tpm::execute\<close> around a handler, provisioning (\<^verbatim>\<open>ek.rs\<close>), and the
    machine. A step is one of: a modelled command with any handles and parameters, whether or not it was
    authorized; what authorization and the commands on keys, sessions and contexts do to the modelled state; a
    loss of power, after which the TPM is powered on from what was stored last.
  \<^bold>\<open>The TPM, proofs.\<close>
  \<^item> \<open>Tpm_Track\<close>: whatever is not marked changed has not changed, so the stored state is the running one.
  \<^item> \<open>Tpm_Nv_Map\<close>, \<open>Tpm_Nv_Live\<close>, \<open>Tpm_Nv_Ops\<close>, \<open>Tpm_Nv_Effects\<close>: the indices as a finite map from handles to attributes
    and contents (\<open>nv_live\<close>), and each command as an update of it; binary search is lookup.
  \<^item> \<open>Tpm_Invariant\<close>: the type invariant, kept by every step.
  \<^item> \<open>Tpm_Counters\<close>, \<open>Tpm_Floor\<close>, \<open>Tpm_Monotone\<close>: the stored value of an orderly counter lags behind its RAM copy by
    less than a range of 256, which Startup skips after an unorderly loss of power; so the floor of a counter
    (\<open>nv_floor\<close>) never falls.
  \<^item> \<open>Tpm_Measure\<close>, \<open>Tpm_Boot\<close>: the registers of the platform only move by extension while the TPM is powered;
    what a Startup and a Shutdown do to them.
  \<^item> \<open>Tpm_Example\<close>: a concrete TPM, manufactured, with four indices, and started.
  \<^item> \<open>Tpm_Properties\<close> (C24 to C30), \<open>Tpm_Nv_Properties\<close> (C31 to C36), \<open>Tpm_Admin_Properties\<close> (C37 to C40): the
    properties.

  \<^bold>\<open>Bounds.\<close>
  The recursions of the sources end and are functions with termination proofs; where a walk in the proofs takes
  fuel (\<open>walk_variables\<close>, the caller's loop around GetNextVariableName) the property states how much is enough.
  The depth of nested DER values and the length of a certificate chain are the source's own bounds. The counter
  properties are about counters that have not reached \<open>2^64 - 1\<close>, and leave out the two indices whose contents
  the host replaces when it provisions an endorsement key.

  \<^bold>\<open>Not modelled.\<close>
  In \<^verbatim>\<open>vk-tpm\<close>: sessions, policies, contexts, keys, signing, attestation and duplication, which are
  computations over third-party cryptography around every command; parsing of a command's header, the checks of
  its handles and its authorization, which the machine's steps over-approximate as said above; the encoding of
  the volatile state, which runs through sessions and objects; capabilities, which only report tables. In
  \<^verbatim>\<open>vk-uefi-vars\<close>: the texts for logs. The other crates (the agent, the driver, the runners, the registry, the
  hub and their protocols) are operating-system calls, network servers and clients, and third-party
  serialization, with no state of their own that could be stated without them.
\<close>

end
